(* ===== verification/Ethrex_Prelude.thy ===== *)
theory Ethrex_Prelude
  imports Main "HOL-Library.Word"
begin

text \<open>
  Shared vocabulary of the development.  It fixes how Rust's types are read:
  \<^item> \<open>u8\<close> is an \<open>8 word\<close>, a byte slice or \<open>Vec<u8>\<close> is a list of bytes;
  \<^item> \<open>usize\<close> and \<open>u64\<close> are natural numbers with the width written out in the checked,
    wrapping and saturating operations below;
  \<^item> \<open>i64\<close> is an integer with \<open>wrap_i64\<close> after every unchecked operation;
  \<^item> \<open>U256\<close> is a \<open>256 word\<close>;
  \<^item> \<open>Result<T, E>\<close> is \<open>'e + 'a\<close>, \<open>Inl\<close> the error; the operator \<open>?\<close> is \<open>and_then\<close>.
  The lemmas are those that several components use.
\<close>

named_theorems result_simps \<open>evaluation of Result combinators\<close>
named_theorems width_simps \<open>definitions of the fixed-width operations\<close>

type_synonym byte = "8 word"
type_synonym bytes = "byte list"
type_synonym u256 = "256 word"

section \<open>Results\<close>

definition and_then :: "'e + 'a \<Rightarrow> ('a \<Rightarrow> 'e + 'b) \<Rightarrow> 'e + 'b" where
  "and_then r f = (case r of Inl e \<Rightarrow> Inl e | Inr x \<Rightarrow> f x)"

definition map_err :: "('e \<Rightarrow> 'f) \<Rightarrow> 'e + 'a \<Rightarrow> 'f + 'a" where
  "map_err f r = (case r of Inl e \<Rightarrow> Inl (f e) | Inr x \<Rightarrow> Inr x)"

definition ok_or :: "'a option \<Rightarrow> 'e \<Rightarrow> 'e + 'a" where
  "ok_or o' e = (case o' of None \<Rightarrow> Inl e | Some x \<Rightarrow> Inr x)"

lemma and_then_Inl [simp]: "and_then (Inl e) f = Inl e"
  by (simp add: and_then_def)

lemma and_then_Inr [simp]: "and_then (Inr x) f = f x"
  by (simp add: and_then_def)

lemma and_then_eq_Inr [simp]:
  "and_then r f = Inr y \<longleftrightarrow> (\<exists>x. r = Inr x \<and> f x = Inr y)"
  by (cases r) simp_all

lemma and_then_eq_Inl:
  "and_then r f = Inl e \<longleftrightarrow> r = Inl e \<or> (\<exists>x. r = Inr x \<and> f x = Inl e)"
  by (cases r) auto

lemma and_then_cong [fundef_cong]:
  "r = r' \<Longrightarrow> (\<And>x. r' = Inr x \<Longrightarrow> f x = g x) \<Longrightarrow> and_then r f = and_then r' g"
  by (cases r') simp_all

lemma and_then_assoc: "and_then (and_then r f) g = and_then r (\<lambda>x. and_then (f x) g)"
  by (cases r) simp_all

lemma map_err_simps [simp]: "map_err f (Inl e) = Inl (f e)" "map_err f (Inr x) = Inr x"
  by (simp_all add: map_err_def)

lemma map_err_eq_Inr [simp]: "map_err f r = Inr x \<longleftrightarrow> r = Inr x"
  by (cases r) simp_all

lemma ok_or_simps [simp]: "ok_or None e = Inl e" "ok_or (Some x) e = Inr x"
  by (simp_all add: ok_or_def)

lemma ok_or_eq_Inr [simp]: "ok_or o' e = Inr x \<longleftrightarrow> o' = Some x"
  by (cases o') simp_all

lemma ok_or_eq_Inl [simp]: "ok_or o' e = Inl e' \<longleftrightarrow> o' = None \<and> e = e'"
  by (cases o') auto

section \<open>Fixed-width arithmetic\<close>

abbreviation U64_MOD :: nat where "U64_MOD \<equiv> 2 ^ 64"
abbreviation U64_MAX :: nat where "U64_MAX \<equiv> 2 ^ 64 - 1"

definition checked_add :: "nat \<Rightarrow> nat \<Rightarrow> nat option" where
  "checked_add a b = (if a + b < 2 ^ 64 then Some (a + b) else None)"

definition checked_sub :: "nat \<Rightarrow> nat \<Rightarrow> nat option" where
  "checked_sub a b = (if b \<le> a then Some (a - b) else None)"

definition checked_mul :: "nat \<Rightarrow> nat \<Rightarrow> nat option" where
  "checked_mul a b = (if a * b < 2 ^ 64 then Some (a * b) else None)"

definition wrapping_add :: "nat \<Rightarrow> nat \<Rightarrow> nat" where
  "wrapping_add a b = (a + b) mod 2 ^ 64"

definition wrapping_sub :: "nat \<Rightarrow> nat \<Rightarrow> nat" where
  "wrapping_sub a b = (a + 2 ^ 64 - b) mod 2 ^ 64"

definition wrapping_mul :: "nat \<Rightarrow> nat \<Rightarrow> nat" where
  "wrapping_mul a b = (a * b) mod 2 ^ 64"

definition saturating_sub :: "nat \<Rightarrow> nat \<Rightarrow> nat" where
  "saturating_sub a b = a - b"

definition saturating_add :: "nat \<Rightarrow> nat \<Rightarrow> nat" where
  "saturating_add a b = min (a + b) (2 ^ 64 - 1)"

definition saturating_mul :: "nat \<Rightarrow> nat \<Rightarrow> nat" where
  "saturating_mul a b = min (a * b) (2 ^ 64 - 1)"

definition div_ceil :: "nat \<Rightarrow> nat \<Rightarrow> nat" where
  "div_ceil a b = (if a mod b = 0 then a div b else a div b + 1)"

definition next_multiple_of :: "nat \<Rightarrow> nat \<Rightarrow> nat" where
  "next_multiple_of a b = (if a mod b = 0 then a else a + (b - a mod b))"

definition checked_next_multiple_of :: "nat \<Rightarrow> nat \<Rightarrow> nat option" where
  "checked_next_multiple_of a b =
     (if next_multiple_of a b < 2 ^ 64 then Some (next_multiple_of a b) else None)"

definition wrap_i64 :: "int \<Rightarrow> int" where
  "wrap_i64 x = (x + 2 ^ 63) mod 2 ^ 64 - 2 ^ 63"

lemmas checked_defs [width_simps] = checked_add_def checked_sub_def checked_mul_def

lemma checked_add_Some [simp]: "checked_add a b = Some c \<longleftrightarrow> c = a + b \<and> a + b < 2 ^ 64"
  by (auto simp: checked_add_def)

lemma checked_sub_Some [simp]: "checked_sub a b = Some c \<longleftrightarrow> c = a - b \<and> b \<le> a"
  by (auto simp: checked_sub_def)

lemma checked_mul_Some [simp]: "checked_mul a b = Some c \<longleftrightarrow> c = a * b \<and> a * b < 2 ^ 64"
  by (auto simp: checked_mul_def)

lemma checked_add_None [simp]: "checked_add a b = None \<longleftrightarrow> 2 ^ 64 \<le> a + b"
  by (auto simp: checked_add_def)

lemma checked_sub_None [simp]: "checked_sub a b = None \<longleftrightarrow> a < b"
  by (auto simp: checked_sub_def)

lemma checked_mul_None [simp]: "checked_mul a b = None \<longleftrightarrow> 2 ^ 64 \<le> a * b"
  by (auto simp: checked_mul_def)

lemma wrap_i64_id: "- (2 ^ 63) \<le> x \<Longrightarrow> x < 2 ^ 63 \<Longrightarrow> wrap_i64 x = x"
  by (simp add: wrap_i64_def)

lemma wrap_i64_range: "- (2 ^ 63) \<le> wrap_i64 x" "wrap_i64 x < 2 ^ 63"
  by (simp_all add: wrap_i64_def)

lemma next_multiple_of_dvd: "0 < b \<Longrightarrow> b dvd next_multiple_of a b"
proof -
  assume b: "0 < b"
  have "a + (b - a mod b) = b * (a div b) + b" if "a mod b \<noteq> 0"
    using mod_less_divisor [OF b, of a] mult_div_mod_eq [of b a] by linarith
  then show ?thesis
    by (auto simp: next_multiple_of_def mod_eq_0_iff_dvd)
qed

lemma next_multiple_of_ge: "a \<le> next_multiple_of a b"
  by (simp add: next_multiple_of_def)

lemma next_multiple_of_less: "0 < b \<Longrightarrow> next_multiple_of a b < a + b"
  by (auto simp: next_multiple_of_def)

lemma next_multiple_of_0 [simp]: "next_multiple_of 0 b = 0"
  by (simp add: next_multiple_of_def)

lemma next_multiple_of_mono:
  assumes "0 < b" "a \<le> c" shows "next_multiple_of a b \<le> next_multiple_of c b"
proof (rule ccontr)
  obtain i j where i: "next_multiple_of a b = b * i" and j: "next_multiple_of c b = b * j"
    using assms(1) next_multiple_of_dvd by (meson dvdE)
  assume "\<not> ?thesis"
  with i j have "j < i" by auto
  then have "b * j + b \<le> b * i"
    by (metis Suc_leI add.commute mult_Suc_right mult_le_mono2)
  with i j next_multiple_of_less [OF assms(1), of a] next_multiple_of_ge [of c b] assms(2)
  show False by linarith
qed

lemma next_multiple_of_eqI: "0 < b \<Longrightarrow> b dvd a \<Longrightarrow> next_multiple_of a b = a"
  by (simp add: next_multiple_of_def)

lemma div_ceil_next_multiple: "0 < b \<Longrightarrow> div_ceil a b = next_multiple_of a b div b"
proof -
  assume b: "0 < b"
  have "a + (b - a mod b) = b * (a div b) + b" if "a mod b \<noteq> 0"
    using mod_less_divisor [OF b, of a] mult_div_mod_eq [of b a] by linarith
  then have "(a + (b - a mod b)) div b = a div b + 1" if "a mod b \<noteq> 0"
    using that b by simp
  with b show ?thesis
    by (auto simp: div_ceil_def next_multiple_of_def)
qed

section \<open>Slices\<close>

definition slice_range :: "nat \<Rightarrow> nat \<Rightarrow> 'a list \<Rightarrow> 'a list" where
  "slice_range a b xs = take (b - a) (drop a xs)"

primrec position :: "('a \<Rightarrow> bool) \<Rightarrow> 'a list \<Rightarrow> nat option" where
  "position P [] = None"
| "position P (x # xs) = (if P x then Some 0 else map_option Suc (position P xs))"

lemma position_conv:
  "position P xs =
     (if \<exists>x \<in> set xs. P x then Some (length (takeWhile (\<lambda>x. \<not> P x) xs)) else None)"
  by (induction xs) auto

lemma drop_takeWhile_length: "drop (length (takeWhile P xs)) xs = dropWhile P xs"
  by (induction xs) simp_all

lemma slice_range_append [simp]:
  "slice_range 0 (length xs) (xs @ ys) = xs"
  by (simp add: slice_range_def)

lemma slice_range_Suc_Cons [simp]: "slice_range (Suc a) (Suc b) (x # xs) = slice_range a b xs"
  by (simp add: slice_range_def)

lemma length_slice_range [simp]:
  "b \<le> length xs \<Longrightarrow> length (slice_range a b xs) = b - a"
  by (simp add: slice_range_def)

section \<open>Big-endian bytes\<close>

definition be_nat :: "bytes \<Rightarrow> nat" where
  "be_nat bs = foldl (\<lambda>a b. a * 256 + unat b) 0 bs"

primrec be_bytes :: "nat \<Rightarrow> nat \<Rightarrow> bytes" where
  "be_bytes 0 v = []"
| "be_bytes (Suc n) v = be_bytes n (v div 256) @ [word_of_nat v]"

definition trim_zeros :: "bytes \<Rightarrow> bytes" where
  "trim_zeros bs = dropWhile (\<lambda>b. b = 0) bs"

lemma be_nat_Nil [simp]: "be_nat [] = 0"
  by (simp add: be_nat_def)

lemma be_nat_snoc [simp]: "be_nat (bs @ [b]) = be_nat bs * 256 + unat b"
  by (simp add: be_nat_def)

lemma be_nat_append: "be_nat (xs @ ys) = be_nat xs * 256 ^ length ys + be_nat ys"
  by (induction ys rule: rev_induct) (simp_all flip: append_assoc add: algebra_simps)

lemma be_nat_Cons: "be_nat (b # bs) = unat b * 256 ^ length bs + be_nat bs"
  using be_nat_append [of "[b]" bs] by (simp add: be_nat_def)

lemma be_nat_zero_Cons [simp]: "be_nat (0 # bs) = be_nat bs"
  by (simp add: be_nat_Cons)

lemma unat_byte_less [simp]: "unat (b :: byte) < 256"
  using unsigned_less [of b] by simp

lemma be_nat_less: "be_nat bs < 256 ^ length bs"
proof (induction bs rule: rev_induct)
  case Nil
  then show ?case by simp
next
  case (snoc b bs)
  have "be_nat bs * 256 + unat b < be_nat bs * 256 + 256" by simp
  also have "\<dots> \<le> 256 ^ length bs * 256"
    using snoc by (metis Suc_leI add.commute mult.commute mult_Suc_right mult_le_mono2)
  finally show ?case by simp
qed

lemma length_be_bytes [simp]: "length (be_bytes n v) = n"
  by (induction n arbitrary: v) simp_all

lemma be_bytes_numeral:
  "be_bytes (numeral n) v = be_bytes (pred_numeral n) (v div 256) @ [word_of_nat v]"
  by (simp only: numeral_eq_Suc [of n] be_bytes.simps)

lemma be_nat_be_bytes_mod: "be_nat (be_bytes n v) = v mod 256 ^ n"
proof (induction n arbitrary: v)
  case 0
  then show ?case by simp
next
  case (Suc n)
  then show ?case
    by (simp add: unat_of_nat mod_mult2_eq mult.commute)
qed

lemma be_nat_be_bytes: "v < 256 ^ n \<Longrightarrow> be_nat (be_bytes n v) = v"
  by (simp add: be_nat_be_bytes_mod)

lemma be_bytes_be_nat: "be_bytes (length bs) (be_nat bs) = bs"
proof (induction bs rule: rev_induct)
  case Nil
  then show ?case by simp
next
  case (snoc b bs)
  have "word_of_nat (be_nat bs * 256 + unat b) = b"
    by (simp only: word_unat_eq_iff unat_of_nat) simp
  with snoc show ?case by simp
qed

lemma be_nat_inject: "length xs = length ys \<Longrightarrow> be_nat xs = be_nat ys \<Longrightarrow> xs = ys"
  by (metis be_bytes_be_nat)

lemma be_nat_replicate_zero: "be_nat (replicate n 0 @ bs) = be_nat bs"
  by (induction n) simp_all

lemma be_nat_trim_zeros [simp]: "be_nat (trim_zeros bs) = be_nat bs"
  unfolding trim_zeros_def by (induction bs) simp_all

lemma trim_zeros_head: "trim_zeros bs = b # bs' \<Longrightarrow> b \<noteq> 0"
  unfolding trim_zeros_def by (metis (full_types) dropWhile_eq_Cons_conv)

lemma trim_zeros_id: "bs \<noteq> [] \<Longrightarrow> hd bs \<noteq> 0 \<Longrightarrow> trim_zeros bs = bs"
  by (cases bs) (simp_all add: trim_zeros_def)

lemma trim_zeros_replicate [simp]: "trim_zeros (replicate n 0 @ bs) = trim_zeros bs"
  unfolding trim_zeros_def by (induction n) simp_all

lemma length_trim_zeros: "length (trim_zeros bs) \<le> length bs"
  by (simp add: trim_zeros_def length_dropWhile_le)

lemma trim_zeros_padded:
  "replicate (length bs - length (trim_zeros bs)) 0 @ trim_zeros bs = bs"
proof (induction bs)
  case Nil
  then show ?case by (simp add: trim_zeros_def)
next
  case (Cons b bs)
  show ?case
  proof (cases "b = 0")
    case True
    with Cons length_trim_zeros [of bs] show ?thesis
      by (simp add: trim_zeros_def Suc_diff_le)
  next
    case False
    then show ?thesis by (simp add: trim_zeros_def)
  qed
qed

lemma be_nat_eq_0_iff: "be_nat bs = 0 \<longleftrightarrow> trim_zeros bs = []"
proof
  assume zero: "be_nat bs = 0"
  show "trim_zeros bs = []"
  proof (rule ccontr)
    assume "trim_zeros bs \<noteq> []"
    then obtain b bs' where eq: "trim_zeros bs = b # bs'" by (cases "trim_zeros bs") auto
    then have "b \<noteq> 0" by (rule trim_zeros_head)
    then have "0 < unat b" by (simp add: unat_gt_0)
    with eq have "0 < be_nat (trim_zeros bs)" by (simp add: be_nat_Cons)
    with zero show False by simp
  qed
next
  assume "trim_zeros bs = []"
  then have "be_nat (trim_zeros bs) = 0" by simp
  then show "be_nat bs = 0" by simp
qed

lemma be_nat_ge_head:
  assumes "bs \<noteq> []" "hd bs \<noteq> 0" shows "256 ^ (length bs - 1) \<le> be_nat bs"
proof -
  obtain b bs' where bs: "bs = b # bs'" using assms(1) by (cases bs) auto
  with assms(2) have "1 \<le> unat b" by (simp add: Suc_leI unat_gt_0)
  then have "1 * 256 ^ length bs' \<le> unat b * 256 ^ length bs'" by (rule mult_le_mono1)
  then have "256 ^ length bs' \<le> unat b * 256 ^ length bs' + be_nat bs'" by linarith
  then show ?thesis by (simp add: bs be_nat_Cons)
qed

section \<open>Integer logarithm\<close>

fun ilog2 :: "nat \<Rightarrow> nat" where
  "ilog2 n = (if n < 2 then 0 else Suc (ilog2 (n div 2)))"

declare ilog2.simps [simp del]

lemma ilog2_small [simp]: "n < 2 \<Longrightarrow> ilog2 n = 0"
  by (subst ilog2.simps) simp

lemma ilog2_bounds: "0 < n \<Longrightarrow> 2 ^ ilog2 n \<le> n \<and> n < 2 ^ Suc (ilog2 n)"
proof (induction n rule: ilog2.induct)
  case (1 n)
  show ?case
  proof (cases "n < 2")
    case True
    with 1 show ?thesis by simp
  next
    case False
    with "1.IH" have "2 ^ ilog2 (n div 2) \<le> n div 2" "n div 2 < 2 ^ Suc (ilog2 (n div 2))"
      by simp_all
    with False show ?thesis by (auto simp: ilog2.simps [of n])
  qed
qed

lemma ilog2_unique: "2 ^ k \<le> n \<Longrightarrow> n < 2 ^ Suc k \<Longrightarrow> ilog2 n = k"
proof -
  assume k: "2 ^ k \<le> n" "n < 2 ^ Suc k"
  then have n: "0 < n" using less_le_trans [of 0 "2 ^ k" n] by simp
  then have "2 ^ ilog2 n < (2::nat) ^ Suc k" "2 ^ k < (2::nat) ^ Suc (ilog2 n)"
    using ilog2_bounds [OF n] k by linarith+
  then have "ilog2 n < Suc k" "k < Suc (ilog2 n)"
    by (meson one_less_numeral_iff power_less_imp_less_exp semiring_norm(76))+
  then show ?thesis by simp
qed

lemma length_trim_zeros_ilog2:
  assumes "0 < be_nat bs" shows "length (trim_zeros bs) = ilog2 (be_nat bs) div 8 + 1"
proof -
  let ?t = "trim_zeros bs"
  have ne: "?t \<noteq> []" using assms be_nat_eq_0_iff [of bs] by simp
  then have hd: "hd ?t \<noteq> 0" by (metis list.collapse trim_zeros_head)
  let ?k = "ilog2 (be_nat bs)"
  have lo: "256 ^ (length ?t - 1) \<le> be_nat bs" using be_nat_ge_head [OF ne hd] by simp
  have hi: "be_nat bs < 256 ^ length ?t" using be_nat_less [of ?t] by simp
  have pow: "(256::nat) ^ m = 2 ^ (8 * m)" for m by (simp add: power_mult)
  have "2 ^ (8 * (length ?t - 1)) < (2::nat) ^ Suc ?k"
    using lo ilog2_bounds [OF assms] unfolding pow by linarith
  then have a: "8 * (length ?t - 1) \<le> ?k"
    by (meson less_Suc_eq_le one_less_numeral_iff power_less_imp_less_exp semiring_norm(76))
  have "2 ^ ?k < (2::nat) ^ (8 * length ?t)"
    using hi ilog2_bounds [OF assms] unfolding pow by linarith
  then have b: "?k < 8 * length ?t"
    by (meson one_less_numeral_iff power_less_imp_less_exp semiring_norm(76))
  from ne have "0 < length ?t" by simp
  with a b show ?thesis by linarith
qed

end
