(* ===== verification/Rlp_Structs.thy ===== *)
theory Rlp_Structs
  imports Rlp_Decode
begin

text \<open>
  The struct helpers of \<open>src/crates/common/rlp/structs.rs\<close> and the tuple encoders of
  \<open>encode.rs\<close> that are written with them.  \<open>Encoder\<close> collects the encoded fields in
  \<open>temp_buf\<close> and writes the list header only in \<open>finish\<close>; \<open>Decoder\<close> is the pair of the unread
  payload of one list and the bytes after that list.
\<close>

section \<open>Encoder\<close>

record Encoder =
  enc_buf :: bytes
  temp_buf :: bytes

definition Encoder_new :: "bytes \<Rightarrow> Encoder" where
  "Encoder_new buf = \<lparr> enc_buf = buf, temp_buf = [] \<rparr>"

definition encode_field :: "('a \<Rightarrow> bytes) \<Rightarrow> 'a \<Rightarrow> Encoder \<Rightarrow> Encoder" where
  "encode_field enc v e = e \<lparr> temp_buf := temp_buf e @ enc v \<rparr>"

definition encode_optional_field :: "('a \<Rightarrow> bytes) \<Rightarrow> 'a option \<Rightarrow> Encoder \<Rightarrow> Encoder" where
  "encode_optional_field enc opt_value e =
     (case opt_value of Some v \<Rightarrow> e \<lparr> temp_buf := temp_buf e @ enc v \<rparr> | None \<Rightarrow> e)"

primrec encode_key_value_list :: "(bytes \<times> bytes) list \<Rightarrow> Encoder \<Rightarrow> Encoder" where
  "encode_key_value_list [] e = e"
| "encode_key_value_list (kv # kvs) e =
     encode_key_value_list kvs (e \<lparr> temp_buf := temp_buf e @ encode_slice (fst kv) @ snd kv \<rparr>)"

definition encode_raw :: "bytes \<Rightarrow> Encoder \<Rightarrow> Encoder" where
  "encode_raw v e = e \<lparr> temp_buf := temp_buf e @ v \<rparr>"

definition encode_bytes :: "bytes \<Rightarrow> Encoder \<Rightarrow> Encoder" where
  "encode_bytes v e = e \<lparr> temp_buf := temp_buf e @ encode_slice v \<rparr>"

definition Encoder_finish :: "Encoder \<Rightarrow> bytes" where
  "Encoder_finish e = enc_buf e @ encode_length (length (temp_buf e)) @ temp_buf e"

definition encode_pair :: "('a \<Rightarrow> bytes) \<Rightarrow> ('b \<Rightarrow> bytes) \<Rightarrow> 'a \<times> 'b \<Rightarrow> bytes" where
  "encode_pair enc1 enc2 = (\<lambda>(a, b).
     Encoder_finish (encode_field enc2 b (encode_field enc1 a (Encoder_new []))))"

definition encode_triple ::
  "('a \<Rightarrow> bytes) \<Rightarrow> ('b \<Rightarrow> bytes) \<Rightarrow> ('c \<Rightarrow> bytes) \<Rightarrow> 'a \<times> 'b \<times> 'c \<Rightarrow> bytes" where
  "encode_triple enc1 enc2 enc3 = (\<lambda>(a, b, c).
     Encoder_finish (encode_field enc3 c (encode_field enc2 b
       (encode_field enc1 a (Encoder_new [])))))"

definition encode_quad ::
  "('a \<Rightarrow> bytes) \<Rightarrow> ('b \<Rightarrow> bytes) \<Rightarrow> ('c \<Rightarrow> bytes) \<Rightarrow> ('d \<Rightarrow> bytes) \<Rightarrow> 'a \<times> 'b \<times> 'c \<times> 'd \<Rightarrow> bytes" where
  "encode_quad enc1 enc2 enc3 enc4 = (\<lambda>(a, b, c, d).
     Encoder_finish (encode_field enc4 d (encode_field enc3 c (encode_field enc2 b
       (encode_field enc1 a (Encoder_new []))))))"

definition length_pair :: "('a \<Rightarrow> nat) \<Rightarrow> ('b \<Rightarrow> nat) \<Rightarrow> 'a \<times> 'b \<Rightarrow> nat" where
  "length_pair len1 len2 = (\<lambda>(a, b). list_length (len1 a + len2 b))"

definition length_triple :: "('a \<Rightarrow> nat) \<Rightarrow> ('b \<Rightarrow> nat) \<Rightarrow> ('c \<Rightarrow> nat) \<Rightarrow> 'a \<times> 'b \<times> 'c \<Rightarrow> nat" where
  "length_triple len1 len2 len3 = (\<lambda>(a, b, c). list_length (len1 a + len2 b + len3 c))"

definition length_quad ::
  "('a \<Rightarrow> nat) \<Rightarrow> ('b \<Rightarrow> nat) \<Rightarrow> ('c \<Rightarrow> nat) \<Rightarrow> ('d \<Rightarrow> nat) \<Rightarrow> 'a \<times> 'b \<times> 'c \<times> 'd \<Rightarrow> nat" where
  "length_quad len1 len2 len3 len4 =
     (\<lambda>(a, b, c, d). list_length (len1 a + len2 b + len3 c + len4 d))"

section \<open>Decoder\<close>

record Decoder =
  d_payload :: bytes
  d_remaining :: bytes

definition Decoder_new :: "bytes \<Rightarrow> rlp_fail + Decoder" where
  "Decoder_new buf =
     and_then (decode_rlp_item buf) (\<lambda>(is_list, payload, remaining).
       if is_list then Inr \<lparr> d_payload = payload, d_remaining = remaining \<rparr>
       else Inl (Err UnexpectedString))"

definition display_error :: "rlp_decode_error \<Rightarrow> string" where
  "display_error e =
     (case e of
        InvalidLength \<Rightarrow> ''InvalidLength''
      | MalformedData \<Rightarrow> ''MalformedData''
      | MalformedBoolean \<Rightarrow> ''MalformedBoolean''
      | UnexpectedList \<Rightarrow> ''UnexpectedList''
      | UnexpectedString \<Rightarrow> ''UnexpectedString''
      | InvalidCompression s \<Rightarrow> ''InvalidCompression: '' @ s
      | IncompatibleProtocol s \<Rightarrow> ''IncompatibleProtocol: '' @ s
      | Custom s \<Rightarrow> s)"

definition field_decode_error :: "string \<Rightarrow> string \<Rightarrow> rlp_decode_error \<Rightarrow> rlp_decode_error" where
  "field_decode_error typ field_name err =
     Custom (''Error decoding field '' @ [CHR 0x27] @ field_name @ [CHR 0x27] @ '' of type '' @ typ
             @ '': '' @ display_error err)"

text \<open>The type name that \<open>core::any::type_name\<close> yields is the argument \<open>typ\<close>.\<close>

definition decode_field ::
  "string \<Rightarrow> 'a decoder \<Rightarrow> string \<Rightarrow> Decoder \<Rightarrow> rlp_fail + ('a \<times> Decoder)" where
  "decode_field typ dec name d =
     and_then (map_err (\<lambda>f. case f of Err err \<Rightarrow> Err (field_decode_error typ name err) | _ \<Rightarrow> f)
                 (dec (d_payload d)))
       (\<lambda>(field, rest). Inr (field, d \<lparr> d_payload := rest \<rparr>))"

definition get_encoded_item :: "Decoder \<Rightarrow> rlp_fail + (bytes \<times> Decoder)" where
  "get_encoded_item d =
     and_then (get_item_with_prefix (d_payload d)) (\<lambda>(field, rest).
       Inr (field, d \<lparr> d_payload := rest \<rparr>))"

text \<open>
  A failure to decode means that the field is absent; a panic or an endless loop of the field's
  decoder is not caught.
\<close>

definition decode_optional_field :: "'a decoder \<Rightarrow> Decoder \<Rightarrow> rlp_fail + ('a option \<times> Decoder)" where
  "decode_optional_field dec d =
     (case dec (d_payload d) of
        Inr (field, rest) \<Rightarrow> Inr (Some field, d \<lparr> d_payload := rest \<rparr>)
      | Inl (Err _) \<Rightarrow> Inr (None, d)
      | Inl f \<Rightarrow> Inl f)"

definition Decoder_finish :: "Decoder \<Rightarrow> rlp_fail + bytes" where
  "Decoder_finish d =
     (if d_payload d = [] then Inr (d_remaining d) else Inl (Err MalformedData))"

definition is_done :: "Decoder \<Rightarrow> bool" where
  "is_done d \<longleftrightarrow> d_payload d = []"

definition finish_unchecked :: "Decoder \<Rightarrow> bytes" where
  "finish_unchecked d = d_remaining d"

definition get_payload_len :: "Decoder \<Rightarrow> nat" where
  "get_payload_len d = length (d_payload d)"

lemmas encoder_defs = Encoder_new_def encode_field_def encode_optional_field_def encode_raw_def
  encode_bytes_def Encoder_finish_def

lemma encode_pair_conv:
  "encode_pair enc1 enc2 (a, b) = item_encoding True (enc1 a @ enc2 b)"
  by (simp add: encode_pair_def encoder_defs item_encoding_def)

lemma encode_triple_conv:
  "encode_triple enc1 enc2 enc3 (a, b, c) = item_encoding True (enc1 a @ enc2 b @ enc3 c)"
  by (simp add: encode_triple_def encoder_defs item_encoding_def)

lemma encode_quad_conv:
  "encode_quad enc1 enc2 enc3 enc4 (a, b, c, d) =
     item_encoding True (enc1 a @ enc2 b @ enc3 c @ enc4 d)"
  by (simp add: encode_quad_def encoder_defs item_encoding_def)

lemma Decoder_new_iff:
  "Decoder_new buf = Inr d \<longleftrightarrow>
     buf = item_encoding True (d_payload d) @ d_remaining d \<and> length (d_payload d) \<le> MAX_RLP_BYTES"
  by (cases d) (auto simp: Decoder_new_def decode_rlp_item_iff split: if_splits)

lemma temp_buf_encode_key_value_list:
  "encode_key_value_list kvs e =
     e \<lparr> temp_buf := temp_buf e @ concat (map (\<lambda>(k, v). encode_slice k @ v) kvs) \<rparr>"
  by (induction kvs arbitrary: e) (auto simp: case_prod_unfold)

end
