(* ===== verification/Rlp_Codec.thy ===== *)
theory Rlp_Codec
  imports Rlp_Structs
begin

text \<open>
  The contract between an \<open>RLPEncode\<close> and an \<open>RLPDecode\<close> implementation of the same type, as two
  locales.  \<open>rlp_codec\<close> is what the generic code (\<open>Vec<T>\<close>, tuples, \<open>Decoder\<close>) relies on: the
  decoder reads back what the encoder wrote, \<open>length\<close> counts the written bytes, and a successful
  decode consumes input.  \<open>canonical_codec\<close> adds that nothing else is accepted.  The locales are
  interpreted on the codecs of all scalar types; the lemmas inside them lift both contracts to
  \<open>Vec<T>\<close>, pairs and triples.
\<close>

locale rlp_codec =
  fixes enc :: "'a \<Rightarrow> bytes" and len :: "'a \<Rightarrow> nat"
    and dec :: "'a decoder" and valid :: "'a \<Rightarrow> bool"
  assumes dec_enc: "valid x \<Longrightarrow> dec (enc x @ rest) = Inr (x, rest)"
    and len_enc: "valid x \<Longrightarrow> len x = length (enc x)"
    and dec_consumes: "dec data = Inr (x, rest) \<Longrightarrow> length rest < length data"
    and dec_no_loop: "dec data \<noteq> Inl Loops"

locale canonical_codec = rlp_codec +
  assumes dec_canonical: "dec data = Inr (x, rest) \<Longrightarrow> valid x \<and> data = enc x @ rest"

text \<open>The values of a list type whose encoding the decoder accepts.\<close>

definition valid_vec :: "('a \<Rightarrow> bytes) \<Rightarrow> ('a \<Rightarrow> bool) \<Rightarrow> 'a list \<Rightarrow> bool" where
  "valid_vec enc valid xs \<longleftrightarrow>
     list_all valid xs \<and> length (concat (map enc xs)) \<le> MAX_RLP_BYTES"

definition valid_pair ::
  "('a \<Rightarrow> bytes) \<Rightarrow> ('b \<Rightarrow> bytes) \<Rightarrow> ('a \<Rightarrow> bool) \<Rightarrow> ('b \<Rightarrow> bool) \<Rightarrow> 'a \<times> 'b \<Rightarrow> bool" where
  "valid_pair enc1 enc2 valid1 valid2 = (\<lambda>(a, b).
     valid1 a \<and> valid2 b \<and> length (enc1 a @ enc2 b) \<le> MAX_RLP_BYTES)"

definition valid_triple ::
  "('a \<Rightarrow> bytes) \<Rightarrow> ('b \<Rightarrow> bytes) \<Rightarrow> ('c \<Rightarrow> bytes) \<Rightarrow> ('a \<Rightarrow> bool) \<Rightarrow> ('b \<Rightarrow> bool) \<Rightarrow> ('c \<Rightarrow> bool)
    \<Rightarrow> 'a \<times> 'b \<times> 'c \<Rightarrow> bool" where
  "valid_triple enc1 enc2 enc3 valid1 valid2 valid3 = (\<lambda>(a, b, c).
     valid1 a \<and> valid2 b \<and> valid3 c \<and> length (enc1 a @ enc2 b @ enc3 c) \<le> MAX_RLP_BYTES)"

section \<open>Facts about every codec\<close>

lemma item_encoding_nonempty: "length p \<le> MAX_RLP_BYTES \<Longrightarrow> item_encoding l p \<noteq> []"
  using decode_rlp_item_enc [of p l "[]"] by (auto simp: decode_rlp_item_def)

lemma decode_rlp_item_consumes:
  "decode_rlp_item data = Inr (l, payload, rest) \<Longrightarrow> length rest < length data"
  by (auto simp: decode_rlp_item_iff item_encoding_nonempty)

lemma long_item_error: "long_item l k ds = Inl e \<Longrightarrow> \<exists>e'. e = Err e'"
  by (auto simp: long_item_def Let_def and_then_eq_Inl static_left_pad_def split: if_splits)

lemma decode_rlp_item_error: "decode_rlp_item data = Inl e \<Longrightarrow> \<exists>e'. e = Err e'"
  by (cases data)
    (auto simp: decode_rlp_item_def [of "[]"] decode_rlp_item_Cons Let_def split: if_splits
      dest: long_item_error)

lemma decode_rlp_item_no_loop: "decode_rlp_item data \<noteq> Inl Loops" "decode_rlp_item data \<noteq> Inl Panic"
  using decode_rlp_item_error by blast+

lemma encode_vec_conv:
  "(\<And>x. x \<in> set xs \<Longrightarrow> len x = length (enc x)) \<Longrightarrow>
     encode_vec enc len xs = item_encoding True (concat (map enc xs))"
proof -
  assume *: "\<And>x. x \<in> set xs \<Longrightarrow> len x = length (enc x)"
  then have "sum_list (map len xs) = length (concat (map enc xs))"
    by (induction xs) simp_all
  then show ?thesis
    by (simp add: encode_vec_def item_encoding_def encode_length_def)
qed

lemma length_item_list:
  "n = length payload \<Longrightarrow> n < 2 ^ 64 \<Longrightarrow> length (item_encoding True payload) = list_length n"
  using length_encode_length [of n] by (simp add: item_encoding_def)

context rlp_codec
begin

lemma enc_nonempty: "valid x \<Longrightarrow> enc x \<noteq> []"
  using dec_consumes [OF dec_enc [of x "[]"]] by auto

lemma enc_prefix_free:
  "valid x \<Longrightarrow> valid y \<Longrightarrow> enc x @ r = enc y @ s \<Longrightarrow> x = y \<and> r = s"
  by (metis Pair_inject dec_enc sum.inject(2))

lemma decode_exact: "valid x \<Longrightarrow> decode dec (enc x) = Inr x"
  using dec_enc [of x "[]"] by (simp add: decode_def)

lemma decode_trailing: "valid x \<Longrightarrow> rest \<noteq> [] \<Longrightarrow> decode dec (enc x @ rest) = Inl (Err InvalidLength)"
  by (simp add: decode_def dec_enc)

lemma decode_items_enc:
  "list_all valid xs \<Longrightarrow> length (concat (map enc xs)) < fuel \<Longrightarrow>
     decode_items dec fuel (concat (map enc xs)) acc = Inr (acc @ xs)"
proof (induction xs arbitrary: fuel acc)
  case Nil
  then show ?case by (cases fuel) simp_all
next
  case (Cons x xs)
  then obtain fuel' where fuel: "fuel = Suc fuel'" by (cases fuel) simp_all
  from Cons.prems(1) have x: "valid x" and xs: "list_all valid xs" by simp_all
  then have ne: "enc x \<noteq> []" by (simp add: enc_nonempty)
  then have "0 < length (enc x)" by simp
  then have "length (concat (map enc xs)) < fuel'"
    using Cons.prems(2) unfolding fuel list.map concat.simps length_append by linarith
  from Cons.IH [OF xs this] x ne show ?case by (simp add: fuel dec_enc)
qed

lemma decode_items_fuel: "length data < fuel \<Longrightarrow> decode_items dec fuel data acc \<noteq> Inl Loops"
proof (induction fuel arbitrary: data acc)
  case 0
  then show ?case by simp
next
  case (Suc fuel)
  show ?case
  proof (cases "dec data")
    case (Inl e)
    then show ?thesis using dec_no_loop [of data] by auto
  next
    case (Inr r)
    obtain x rest where r: "r = (x, rest)" by (cases r)
    with Inr Suc.prems dec_consumes [of data x rest] have "length rest < fuel" by simp
    from Suc.IH [OF this] Inr r show ?thesis by simp
  qed
qed

lemma vec_codec:
  "rlp_codec (encode_vec enc len) (length_vec len) (decode_vec dec) (valid_vec enc valid)"
proof
  fix xs rest
  assume v: "valid_vec enc valid xs"
  then have len: "\<And>x. x \<in> set xs \<Longrightarrow> len x = length (enc x)"
    by (auto simp: valid_vec_def list_all_iff len_enc)
  let ?p = "concat (map enc xs)"
  have conv: "encode_vec enc len xs = item_encoding True ?p" by (rule encode_vec_conv) (rule len)
  have item: "decode_rlp_item (encode_vec enc len xs @ rest) = Inr (True, ?p, rest)"
    using v by (simp add: conv decode_rlp_item_enc valid_vec_def)
  have items: "decode_items dec (Suc (length ?p)) ?p [] = Inr xs"
    using v decode_items_enc [of xs "Suc (length ?p)" "[]"] by (simp add: valid_vec_def)
  show "decode_vec dec (encode_vec enc len xs @ rest) = Inr (xs, rest)"
  proof (cases "(encode_vec enc len xs @ rest) ! 0 = RLP_EMPTY_LIST")
    case True
    obtain d where d: "encode_vec enc len xs @ rest = RLP_EMPTY_LIST # d"
      using item True by (cases "encode_vec enc len xs @ rest") (auto simp: decode_rlp_item_def)
    have "decode_rlp_item (RLP_EMPTY_LIST # d) = Inr (True, [], d)"
      by (simp add: decode_rlp_item_Cons RLP_EMPTY_LIST_def)
    with item d have p: "?p = []" "rest = d" by auto
    have "xs = []" using items unfolding p(1) by simp
    with d p show ?thesis by (simp add: decode_vec_def)
  next
    case False
    moreover have "encode_vec enc len xs @ rest \<noteq> []" using item by (auto simp: decode_rlp_item_def)
    ultimately show ?thesis using item items by (simp add: decode_vec_def del: decode_items.simps)
  qed
  have "length ?p < 2 ^ 64" using v by (simp add: valid_vec_def MAX_RLP_BYTES_def)
  moreover have "sum_list (map len xs) = length ?p" using len by (induction xs) simp_all
  ultimately show "length_vec len xs = length (encode_vec enc len xs)"
    by (simp add: conv length_item_list length_vec_def list_length_def)
next
  fix data xs rest
  assume "decode_vec dec data = Inr (xs, rest)"
  then show "length rest < length data"
    by (auto simp: decode_vec_def split: if_splits dest: decode_rlp_item_consumes)
next
  fix data
  show "decode_vec dec data \<noteq> Inl Loops"
    using decode_rlp_item_no_loop(1) [of data] decode_items_fuel
    by (auto simp: decode_vec_def and_then_eq_Inl simp del: decode_items.simps)
qed

end

context canonical_codec
begin

lemma decode_items_canonical:
  "decode_items dec fuel data acc = Inr r \<Longrightarrow>
     \<exists>xs. r = acc @ xs \<and> list_all valid xs \<and> data = concat (map enc xs)"
proof (induction fuel arbitrary: data acc)
  case 0
  then show ?case by simp
next
  case (Suc fuel)
  show ?case
  proof (cases "data = []")
    case True
    with Suc.prems show ?thesis by (auto intro: exI [where x = "[]"])
  next
    case False
    with Suc.prems obtain x rest where d: "dec data = Inr (x, rest)"
      and r: "decode_items dec fuel rest (acc @ [x]) = Inr r" by auto
    from Suc.IH [OF r] obtain xs where
      "r = acc @ x # xs" "list_all valid xs" "rest = concat (map enc xs)" by auto
    with dec_canonical [OF d] show ?thesis by (intro exI [where x = "x # xs"]) simp
  qed
qed

lemma vec_canonical:
  "canonical_codec (encode_vec enc len) (length_vec len) (decode_vec dec) (valid_vec enc valid)"
proof (intro canonical_codec.intro canonical_codec_axioms.intro vec_codec)
  fix data xs rest
  assume dec: "decode_vec dec data = Inr (xs, rest)"
  have empty: "encode_vec enc len [] = [0xc0]" by (simp add: encode_vec_def)
  from dec consider "xs = []" "data = 0xc0 # rest"
    | p where "decode_rlp_item data = Inr (True, p, rest)"
        "decode_items dec (Suc (length p)) p [] = Inr xs"
    by (cases data) (auto simp: decode_vec_def RLP_EMPTY_LIST_def simp del: decode_items.simps
        split: if_splits)
  then show "valid_vec enc valid xs \<and> data = encode_vec enc len xs @ rest"
  proof cases
    case 1
    then show ?thesis by (simp add: valid_vec_def empty)
  next
    case 2
    from decode_items_canonical [OF 2(2)] have v: "list_all valid xs" "p = concat (map enc xs)" by auto
    then have "encode_vec enc len xs = item_encoding True p"
      by (simp add: encode_vec_conv list_all_iff len_enc)
    with v 2(1) show ?thesis by (simp add: decode_rlp_item_iff valid_vec_def)
  qed
qed

end

end
