(* ===== verification/Rlp_Types.thy ===== *)
theory Rlp_Types
  imports Rlp_Codec
begin

text \<open>
  The codecs of the concrete types: the fixed-size hashes of \<open>ethereum_types\<close>, and for every type
  the proof that its encoder and decoder meet the contract of \<open>Rlp_Codec\<close>.  All of them are
  canonical except \<open>u8\<close>, whose decoder accepts more than the encoder writes, and \<open>IpAddr\<close>, whose
  decoder turns IPv4-mapped addresses into IPv4 addresses.
\<close>

section \<open>Fixed-size hashes\<close>

definition encode_h32 :: "bytes \<Rightarrow> bytes" where "encode_h32 h = encode_slice h"
definition encode_h64 :: "bytes \<Rightarrow> bytes" where "encode_h64 h = encode_slice h"
definition encode_h128 :: "bytes \<Rightarrow> bytes" where "encode_h128 h = encode_slice h"
definition encode_address :: "bytes \<Rightarrow> bytes" where "encode_address h = encode_slice h"
definition encode_h256 :: "bytes \<Rightarrow> bytes" where "encode_h256 h = encode_slice h"
definition encode_h264 :: "bytes \<Rightarrow> bytes" where "encode_h264 h = encode_slice h"
definition encode_h512 :: "bytes \<Rightarrow> bytes" where "encode_h512 h = encode_slice h"
definition encode_signature :: "bytes \<Rightarrow> bytes" where "encode_signature h = encode_slice h"
definition encode_bloom :: "bytes \<Rightarrow> bytes" where "encode_bloom h = encode_array h"

definition decode_h32 :: "bytes decoder" where "decode_h32 rlp = decode_array 4 rlp"
definition decode_h64 :: "bytes decoder" where "decode_h64 rlp = decode_array 8 rlp"
definition decode_h128 :: "bytes decoder" where "decode_h128 rlp = decode_array 16 rlp"
definition decode_address :: "bytes decoder" where "decode_address rlp = decode_array 20 rlp"
definition decode_h256 :: "bytes decoder" where "decode_h256 rlp = decode_array 32 rlp"
definition decode_h264 :: "bytes decoder" where "decode_h264 rlp = decode_array 33 rlp"
definition decode_h512 :: "bytes decoder" where "decode_h512 rlp = decode_array 64 rlp"
definition decode_signature :: "bytes decoder" where "decode_signature rlp = decode_array 65 rlp"
definition decode_bloom :: "bytes decoder" where "decode_bloom rlp = decode_array 256 rlp"

section \<open>Byte strings\<close>

lemma decode_bytes_iff:
  "decode_bytes data = Inr (p, rest) \<longleftrightarrow>
     data = encode_slice p @ rest \<and> length p \<le> MAX_RLP_BYTES"
  using decode_rlp_item_iff [of data False p rest]
  by (auto simp: decode_bytes_def item_encoding_def)

lemma decode_bytes_error: "decode_bytes data = Inl e \<Longrightarrow> \<exists>e'. e = Err e'"
  by (auto simp: decode_bytes_def and_then_eq_Inl dest: decode_rlp_item_error split: if_splits)

lemma encode_slice_nonempty: "length p \<le> MAX_RLP_BYTES \<Longrightarrow> encode_slice p \<noteq> []"
  using item_encoding_nonempty [of p False] by (simp add: item_encoding_def)

lemma decode_array_iff:
  assumes "N \<le> MAX_RLP_BYTES"
  shows "decode_array N data = Inr (p, rest) \<longleftrightarrow> length p = N \<and> data = encode_slice p @ rest"
  using assms by (auto simp: decode_array_def decode_bytes_iff)

lemma decode_uint_iff:
  assumes "8 dvd LENGTH('a)" "LENGTH('a) div 8 < 56"
  shows "decode_uint data = Inr (v :: 'a::len word, rest) \<longleftrightarrow>
     data = encode_slice (trim_zeros (to_be_bytes v)) @ rest"
proof
  let ?N = "LENGTH('a) div 8"
  assume "decode_uint data = Inr (v, rest)"
  then obtain p where data: "data = encode_slice p @ rest" and le: "length p \<le> ?N"
    and trim: "trim_zeros p = p" and v: "v = from_be_bytes (replicate (?N - length p) 0 @ p)"
    by (auto simp: decode_uint_def decode_bytes_iff static_left_pad_Inr)
  define q where "q = replicate (?N - length p) (0 :: byte) @ p"
  have lq: "length q = ?N" using le by (simp add: q_def)
  from assms(1) obtain k where k: "LENGTH('a) = 8 * k" by (elim dvdE)
  then have "be_nat q < 2 ^ LENGTH('a)" using be_nat_less [of q] lq by (simp add: power_mult)
  then have "unat v = be_nat q" by (simp add: v q_def from_be_bytes_def unat_of_nat)
  then have "to_be_bytes v = q" using lq be_bytes_be_nat [of q] by (simp add: to_be_bytes_def)
  with data trim show "data = encode_slice (trim_zeros (to_be_bytes v)) @ rest"
    by (simp add: q_def)
next
  assume data: "data = encode_slice (trim_zeros (to_be_bytes v)) @ rest"
  let ?t = "trim_zeros (to_be_bytes v)"
  have len: "length ?t \<le> LENGTH('a) div 8" using length_trim_zeros [of "to_be_bytes v"] by simp
  then have "decode_bytes data = Inr (?t, rest)"
    using assms(2) data by (simp add: decode_bytes_iff MAX_RLP_BYTES_def)
  moreover have "static_left_pad (LENGTH('a) div 8) ?t = Inr (to_be_bytes v)"
    using len trim_zeros_padded [of "to_be_bytes v"]
    by (simp add: static_left_pad_Inr trim_zeros_def)
  ultimately show "decode_uint data = Inr (v, rest)"
    using assms(1) by (simp add: decode_uint_def)
qed

lemma trim_zeros_short:
  "LENGTH('a) div 8 < 56 \<Longrightarrow> length (trim_zeros (to_be_bytes (v :: 'a::len word))) \<le> MAX_RLP_BYTES"
  using length_trim_zeros [of "to_be_bytes v"] by (simp add: MAX_RLP_BYTES_def)

lemma decode_uint_error: "decode_uint data = Inl e \<Longrightarrow> \<exists>e'. e = Err e'"
  by (auto simp: decode_uint_def and_then_eq_Inl static_left_pad_def split: if_splits
      dest: decode_bytes_error)

lemma decode_array_error: "decode_array N data = Inl e \<Longrightarrow> \<exists>e'. e = Err e'"
  by (auto simp: decode_array_def and_then_eq_Inl split: if_splits dest: decode_bytes_error)

section \<open>Interpretations\<close>

lemma bytes_canonical:
  "canonical_codec encode_slice length_slice decode_bytes (\<lambda>p. length p \<le> MAX_RLP_BYTES)"
proof (unfold_locales, goal_cases)
  case (1 x rest)
  then show ?case by (simp add: decode_bytes_iff)
next
  case (2 x)
  then show ?case by (simp add: length_encode_slice MAX_RLP_BYTES_def)
next
  case (3 data x rest)
  then show ?case by (auto simp: decode_bytes_iff encode_slice_nonempty)
next
  case (4 data)
  then show ?case by (auto dest: decode_bytes_error)
next
  case (5 data x rest)
  then show ?case by (simp add: decode_bytes_iff)
qed

lemma array_canonical:
  assumes "N \<le> MAX_RLP_BYTES"
  shows "canonical_codec encode_slice length_slice (decode_array N) (\<lambda>p. length p = N)"
proof (unfold_locales, goal_cases)
  case (1 x rest)
  with assms show ?case by (simp add: decode_array_iff)
next
  case (2 x)
  with assms show ?case by (simp add: length_encode_slice MAX_RLP_BYTES_def)
next
  case (3 data x rest)
  with assms show ?case by (auto simp: decode_array_iff encode_slice_nonempty)
next
  case (4 data)
  then show ?case by (auto dest: decode_array_error)
next
  case (5 data x rest)
  with assms show ?case by (simp add: decode_array_iff)
qed

lemma uint_canonical:
  assumes "8 dvd LENGTH('a)" "LENGTH('a) div 8 < 56"
  shows "canonical_codec (\<lambda>v :: 'a::len word. impl_encode (to_be_bytes v)) length_uint decode_uint
           (\<lambda>v. True)"
proof -
  have enc: "impl_encode (to_be_bytes v) = encode_slice (trim_zeros (to_be_bytes v))"
    for v :: "'a word" using assms(2) by (simp add: impl_encode_conv)
  show ?thesis unfolding enc
  proof (unfold_locales, goal_cases)
    case (1 x rest)
    with assms show ?case by (simp add: decode_uint_iff)
  next
    case (2 x)
    with assms show ?case by (simp add: length_uint_def length_encode_uint)
  next
    case (3 data x rest)
    with assms trim_zeros_short [OF assms(2), of x] show ?case
      by (auto simp: decode_uint_iff encode_slice_nonempty)
  next
    case (4 data)
    then show ?case by (auto dest: decode_uint_error)
  next
    case (5 data x rest)
    with assms show ?case by (simp add: decode_uint_iff)
  qed
qed

lemma encode_u256_conv: "encode_u256 v = encode_slice (trim_zeros (to_be_bytes v))"
proof -
  let ?bs = "to_be_bytes v"
  have val: "be_nat ?bs = unat v" by (simp add: be_nat_to_be_bytes)
  have "leading_zeros_256 v div 8 = 32 - length (trim_zeros ?bs)"
  proof (cases "v = 0")
    case True
    with val have "trim_zeros ?bs = []" by (simp add: be_nat_eq_0_iff)
    with True show ?thesis by (simp add: leading_zeros_256_def)
  next
    case False
    then have pos: "0 < unat v" by (simp add: unat_gt_0)
    have "2 ^ ilog2 (unat v) < (2 :: nat) ^ 256"
      using ilog2_bounds [OF pos] unsigned_less [of v, where 'a = nat] by simp
    then have "ilog2 (unat v) < 256"
      by (meson one_less_numeral_iff power_less_imp_less_exp semiring_norm(76))
    moreover have "length (trim_zeros ?bs) = ilog2 (unat v) div 8 + 1"
      using length_trim_zeros_ilog2 [of ?bs] pos val by simp
    ultimately show ?thesis using False by (simp add: leading_zeros_256_def)
  qed
  moreover have "drop (32 - length (trim_zeros ?bs)) ?bs = trim_zeros ?bs"
    using leading_zero_bytes_trim [of ?bs] by simp
  ultimately show ?thesis by (simp add: encode_u256_def)
qed

lemma length_u256_conv: "length_u256 v = length_uint v"
  by (simp add: length_u256_def length_uint_def bits_256_def)

interpretation bytes_c: canonical_codec encode_slice length_slice decode_bytes
  "\<lambda>p. length p \<le> MAX_RLP_BYTES"
  by (rule bytes_canonical)

interpretation u16_c: canonical_codec encode_u16 length_uint decode_u16 "\<lambda>v. True"
  using uint_canonical [where 'a = 16] by (simp add: encode_u16_def [abs_def] decode_u16_def [abs_def])

interpretation u32_c: canonical_codec encode_u32 length_uint decode_u32 "\<lambda>v. True"
  using uint_canonical [where 'a = 32] by (simp add: encode_u32_def [abs_def] decode_u32_def [abs_def])

interpretation u64_c: canonical_codec encode_u64 length_uint decode_u64 "\<lambda>v. True"
  using uint_canonical [where 'a = 64] by (simp add: encode_u64_def [abs_def] decode_u64_def [abs_def])

interpretation usize_c: canonical_codec encode_usize length_uint decode_usize "\<lambda>v. True"
  using uint_canonical [where 'a = 64]
  by (simp add: encode_usize_def [abs_def] decode_usize_def [abs_def])

interpretation u128_c: canonical_codec encode_u128 length_uint decode_u128 "\<lambda>v. True"
  using uint_canonical [where 'a = 128]
  by (simp add: encode_u128_def [abs_def] decode_u128_def [abs_def])

lemma u256_canonical: "canonical_codec encode_u256 length_u256 decode_u256 (\<lambda>v. True)"
proof -
  have "encode_u256 = (\<lambda>v. impl_encode (to_be_bytes v))"
    by (simp add: fun_eq_iff encode_u256_conv impl_encode_conv)
  moreover have "length_u256 = length_uint" by (simp add: fun_eq_iff length_u256_conv)
  ultimately show ?thesis
    using uint_canonical [where 'a = 256] by (simp add: decode_u256_def [abs_def])
qed

interpretation u256_c: canonical_codec encode_u256 length_u256 decode_u256 "\<lambda>v. True"
  by (rule u256_canonical)

interpretation address_c: canonical_codec encode_address length_slice decode_address
  "\<lambda>h. length h = 20"
  using array_canonical [of 20]
  by (simp add: encode_address_def [abs_def] decode_address_def [abs_def] MAX_RLP_BYTES_def)

interpretation h256_c: canonical_codec encode_h256 length_slice decode_h256 "\<lambda>h. length h = 32"
  using array_canonical [of 32]
  by (simp add: encode_h256_def [abs_def] decode_h256_def [abs_def] MAX_RLP_BYTES_def)

interpretation bloom_c: canonical_codec encode_bloom length_slice decode_bloom
  "\<lambda>h. length h = 256"
  using array_canonical [of 256]
  by (simp add: encode_bloom_def [abs_def] encode_array_def decode_bloom_def [abs_def]
      MAX_RLP_BYTES_def)

interpretation bool_c: canonical_codec encode_bool length_bool decode_bool "\<lambda>b. True"
proof (unfold_locales, goal_cases)
  case (1 x rest)
  then show ?case by (simp add: decode_bool_def encode_bool_def RLP_NULL_def)
next
  case (2 x)
  then show ?case by (simp add: length_bool_def encode_bool_def)
next
  case (3 data x rest)
  then show ?case by (auto simp: decode_bool_def split: if_splits)
next
  case (4 data)
  then show ?case by (simp add: decode_bool_def)
next
  case (5 data x rest)
  then show ?case
    by (cases data) (auto simp: decode_bool_def encode_bool_def simp del: and_then_eq_Inr
        split: if_splits)
qed

lemma to_be_bytes_u8: "to_be_bytes (v :: byte) = [v]"
  by (simp add: to_be_bytes_def)

lemma encode_u8_conv:
  "encode_u8 v = (if v = 0 then [0x80] else if v \<le> 0x7f then [v] else [0x81, v])"
  by (auto simp: encode_u8_def impl_encode_conv to_be_bytes_u8 trim_zeros_def encode_slice_def
      RLP_NULL_def byte_le_7f_iff)

interpretation u8_c: rlp_codec encode_u8 length_uint decode_u8 "\<lambda>v. True"
proof (unfold_locales, goal_cases)
  case (1 x rest)
  then show ?case by (auto simp: encode_u8_conv decode_u8_def RLP_NULL_def word_le_nat_alt)
next
  case (2 x)
  then show ?case
    using length_encode_uint [of x] by (simp add: length_uint_def encode_u8_def impl_encode_conv)
next
  case (3 data x rest)
  then show ?case by (auto simp: decode_u8_def split: if_splits list.splits)
next
  case (4 data)
  then show ?case by (auto simp: decode_u8_def split: list.splits)
qed

definition valid_ip :: "ip_addr \<Rightarrow> bool" where
  "valid_ip ip \<longleftrightarrow>
     (case ip of V4 octets \<Rightarrow> length octets = 4
      | V6 octets \<Rightarrow> length octets = 16 \<and> \<not> is_ipv4_mapped octets)"

interpretation ip_c: rlp_codec encode_ip_addr length_ip_addr decode_ip_addr valid_ip
proof (unfold_locales, goal_cases)
  case (1 x rest)
  then show ?case
    by (cases x) (simp_all add: valid_ip_def decode_ip_addr_def encode_ip_addr_def encode_array_def
        bytes_c.dec_enc MAX_RLP_BYTES_def to_canonical_def)
next
  case (2 x)
  then show ?case
    by (cases x) (simp_all add: valid_ip_def encode_ip_addr_def length_ip_addr_def
        length_encode_array)
next
  case (3 data x rest)
  then show ?case
    by (auto simp: decode_ip_addr_def split: if_splits dest: bytes_c.dec_consumes)
next
  case (4 data)
  then show ?case
    by (auto simp: decode_ip_addr_def and_then_eq_Inl dest: decode_bytes_error)
qed

section \<open>Pairs\<close>

locale codec_pair =
  a: rlp_codec enc1 len1 dec1 valid1 + b: rlp_codec enc2 len2 dec2 valid2
  for enc1 :: "'a \<Rightarrow> bytes" and len1 dec1 valid1
    and enc2 :: "'b \<Rightarrow> bytes" and len2 dec2 valid2
begin

lemma pair_codec:
  "rlp_codec (encode_pair enc1 enc2) (length_pair len1 len2) (decode_pair dec1 dec2)
     (valid_pair enc1 enc2 valid1 valid2)"
proof (unfold_locales, goal_cases)
  case (1 x rest)
  obtain u v where x: "x = (u, v)" by (cases x)
  with 1 have p: "valid1 u" "valid2 v" "length (enc1 u @ enc2 v) \<le> MAX_RLP_BYTES"
    by (simp_all add: valid_pair_def)
  have v: "dec2 (enc2 v) = Inr (v, [])" using b.dec_enc [OF p(2), of "[]"] by simp
  have "encode_pair enc1 enc2 x @ rest \<noteq> []"
    using item_encoding_nonempty [OF p(3)] by (simp add: x encode_pair_conv)
  with p v show ?case
    by (simp add: decode_pair_def x encode_pair_conv decode_rlp_item_enc a.dec_enc)
next
  case (2 x)
  obtain u v where x: "x = (u, v)" by (cases x)
  with 2 show ?case
    by (simp add: valid_pair_def length_pair_def encode_pair_conv a.len_enc b.len_enc
        length_item_list [of _ "enc1 u @ enc2 v"] MAX_RLP_BYTES_def)
next
  case (3 data x rest)
  then show ?case by (auto simp: decode_pair_def split: if_splits dest: decode_rlp_item_consumes)
next
  case (4 data)
  then show ?case
    by (auto simp: decode_pair_def and_then_eq_Inl a.dec_no_loop b.dec_no_loop
        decode_rlp_item_no_loop)
qed

end

text \<open>An account's address with its balance, and a storage slot with its value.\<close>

interpretation address_u256: codec_pair encode_address length_slice decode_address
  "\<lambda>h. length h = 20" encode_u256 length_u256 decode_u256 "\<lambda>v. True"
  by unfold_locales

interpretation u64_vec: canonical_codec "encode_vec encode_u64 length_uint" "length_vec length_uint"
  "decode_vec decode_u64" "valid_vec encode_u64 (\<lambda>v. True)"
  by (rule u64_c.vec_canonical)

interpretation u8_vec: rlp_codec "encode_vec encode_u8 length_uint" "length_vec length_uint"
  "decode_vec decode_u8" "valid_vec encode_u8 (\<lambda>v. True)"
  by (rule u8_c.vec_codec)

interpretation h256_vec: canonical_codec "encode_vec encode_h256 length_slice"
  "length_vec length_slice" "decode_vec decode_h256" "valid_vec encode_h256 (\<lambda>h. length h = 32)"
  by (rule h256_c.vec_canonical)

lemma get_item_with_prefix_agrees:
  assumes "decode_rlp_item data = Inr (l, p, rest)"
  shows "\<exists>item. get_item_with_prefix data = Inr (item, rest) \<and> data = item @ rest"
proof -
  have ne: "data \<noteq> []" using assms by (auto simp: decode_rlp_item_def)
  let ?b = "data ! 0"
  note defs = decode_rlp_item_def get_item_with_prefix_def Let_def ne
  consider "?b \<le> 0x7F" | "\<not> ?b \<le> 0x7F" "?b \<le> 0xB7" | "\<not> ?b \<le> 0x7F" "\<not> ?b \<le> 0xB7" "?b \<le> 0xBF"
    | "\<not> ?b \<le> 0x7F" "\<not> ?b \<le> 0xB7" "\<not> ?b \<le> 0xBF" "?b \<le> 0xF7"
    | "\<not> ?b \<le> 0x7F" "\<not> ?b \<le> 0xB7" "\<not> ?b \<le> 0xBF" "\<not> ?b \<le> 0xF7" by blast
  then show ?thesis
    by cases (insert assms, simp_all only: defs if_True if_False not_True_eq_False simp_thms,
      auto split: if_splits)
qed

section \<open>Properties\<close>

text \<open>
  C12: \<open>decode_rlp_item\<close> accepts exactly the canonical encodings: it returns the flag \<open>l\<close>, the
  payload \<open>p\<close> and the rest if and only if the input is the one encoding of \<open>p\<close> as a list or a
  string (\<open>encode_length\<close> followed by the payload, or \<open><[u8]>::encode\<close>) followed by the rest, and
  the payload is at most \<open>MAX_RLP_BYTES\<close> long.
\<close>
theorem rlp_item_canonical:
  "decode_rlp_item data = Inr (l, p, rest) \<longleftrightarrow>
     length p \<le> MAX_RLP_BYTES \<and>
     data = (if l then encode_length (length p) @ p else encode_slice p) @ rest"
  by (auto simp: decode_rlp_item_iff item_encoding_def)

text \<open>
  C13: The integer codecs are canonical: for \<open>u16\<close>, \<open>u32\<close>, \<open>u64\<close>, \<open>usize\<close>, \<open>u128\<close> and \<open>U256\<close> the
  decoder returns \<open>v\<close> and the rest if and only if the input is the encoding of \<open>v\<close> followed by the
  rest.
\<close>
theorem rlp_integers_canonical:
  "(decode_u16 data = Inr (a, rest) \<longleftrightarrow> data = encode_u16 a @ rest) \<and>
   (decode_u32 data = Inr (b, rest) \<longleftrightarrow> data = encode_u32 b @ rest) \<and>
   (decode_u64 data = Inr (c, rest) \<longleftrightarrow> data = encode_u64 c @ rest) \<and>
   (decode_usize data = Inr (d, rest) \<longleftrightarrow> data = encode_usize d @ rest) \<and>
   (decode_u128 data = Inr (e, rest) \<longleftrightarrow> data = encode_u128 e @ rest) \<and>
   (decode_u256 data = Inr (f, rest) \<longleftrightarrow> data = encode_u256 f @ rest)"
  using u16_c.dec_canonical u32_c.dec_canonical u64_c.dec_canonical usize_c.dec_canonical
    u128_c.dec_canonical u256_c.dec_canonical
  by (intro conjI iffI)
    (auto simp: u16_c.dec_enc u32_c.dec_enc u64_c.dec_enc usize_c.dec_enc u128_c.dec_enc
      u256_c.dec_enc)

text \<open>
  C14: The \<open>Vec<T>\<close> codec is canonical whenever the codec of the elements is: the decoder returns
  \<open>xs\<close> and the rest if and only if all elements are valid, their encodings fit in
  \<open>MAX_RLP_BYTES\<close> and the input is the encoding of \<open>xs\<close> followed by the rest.
\<close>
theorem rlp_vec_canonical:
  assumes "canonical_codec enc len dec valid"
  shows "decode_vec dec data = Inr (xs, rest) \<longleftrightarrow>
    list_all valid xs \<and> length (concat (map enc xs)) \<le> MAX_RLP_BYTES \<and>
    data = encode_vec enc len xs @ rest"
proof -
  note c = canonical_codec.vec_canonical [OF assms]
  note d = canonical_codec.axioms(1) [OF c]
  show ?thesis
    using canonical_codec.dec_canonical [OF c, of data xs rest] rlp_codec.dec_enc [OF d, of xs rest]
    by (auto simp: valid_vec_def)
qed

theorem rlp_vec_canonical_witness:
  "canonical_codec encode_u64 length_uint decode_u64 (\<lambda>v. True) \<and>
   decode_vec decode_u64 [0xc4, 0x05, 0x82, 0x04, 0x00, 0x2a] = Inr ([5, 1024], [0x2a])"
proof
  show c: "canonical_codec encode_u64 length_uint decode_u64 (\<lambda>v. True)"
    by (rule u64_c.canonical_codec_axioms)
  have "encode_u64 5 = [0x05]" "encode_u64 1024 = [0x82, 0x04, 0x00]"
    by (simp_all add: encode_u64_def impl_encode_conv to_be_bytes_def be_bytes_numeral trim_zeros_def
        encode_slice_def RLP_NULL_def)
  then have "[0xc4, 0x05, 0x82, 0x04, 0x00, 0x2a] = encode_vec encode_u64 length_uint [5, 1024] @ [0x2a]"
    "length (concat (map encode_u64 [5, 1024])) \<le> MAX_RLP_BYTES"
    by (simp_all add: encode_vec_def u64_c.len_enc encode_length_def MAX_RLP_BYTES_def)
  then show "decode_vec decode_u64 [0xc4, 0x05, 0x82, 0x04, 0x00, 0x2a] = Inr ([5, 1024], [0x2a])"
    by (simp add: rlp_vec_canonical [OF c])
qed



text \<open>
  C22: The loop of the \<open>Vec<T>\<close> decoder ends on every input, given that the element decoder ends and
  consumes at least one byte whenever it succeeds.
\<close>
theorem rlp_vec_terminates:
  assumes "\<And>d x r. dec d = Inr (x, r) \<Longrightarrow> length r < length d" "\<And>d. dec d \<noteq> Inl Loops"
  shows "decode_vec dec data \<noteq> Inl Loops"
proof -
  have "rlp_codec (\<lambda>_. []) (\<lambda>_. 0) dec (\<lambda>_. False)"
    using assms by unfold_locales auto
  then show ?thesis by (rule rlp_codec.dec_no_loop [OF rlp_codec.vec_codec])
qed

theorem rlp_vec_terminates_witness: "decode_vec decode_u8 [0xc2, 0x05, 0x81, 0x07] \<noteq> Inl Loops"
  using rlp_vec_terminates [OF u8_c.dec_consumes u8_c.dec_no_loop] .

text \<open>
  C23: \<open>get_item_with_prefix\<close> splits every item that \<open>decode_rlp_item\<close> accepts at the same place:
  its first component is the whole encoding of the item and its second the same rest.
\<close>
theorem rlp_item_with_prefix:
  assumes "decode_rlp_item data = Inr (l, p, rest)"
  shows "\<exists>item. get_item_with_prefix data = Inr (item, rest) \<and> data = item @ rest \<and>
    decode_rlp_item item = Inr (l, p, [])"
proof -
  from assms have data: "data = item_encoding l p @ rest" and len: "length p \<le> MAX_RLP_BYTES"
    by (simp_all add: decode_rlp_item_iff)
  from decode_rlp_item_enc [OF len, of l "[]"] have "decode_rlp_item (item_encoding l p) = Inr (l, p, [])"
    by simp
  moreover have "get_item_with_prefix data = Inr (item_encoding l p, rest)"
    using get_item_with_prefix_agrees [OF assms] data by auto
  ultimately show ?thesis using data by blast
qed

theorem rlp_item_with_prefix_witness:
  "decode_rlp_item [0x82, 0x04, 0x00, 0x01] = Inr (False, [0x04, 0x00], [0x01]) \<and>
   get_item_with_prefix [0x82, 0x04, 0x00, 0x01] = Inr ([0x82, 0x04, 0x00], [0x01])"
proof -
  have d: "decode_rlp_item [0x82, 0x04, 0x00, 0x01] = Inr (False, [0x04, 0x00], [0x01])"
    by (simp add: decode_rlp_item_Cons Let_def)
  from rlp_item_with_prefix [OF d] d show ?thesis by auto
qed


end
