(* ===== verification/Nibbles_Simd.thy ===== *)
theory Nibbles_Simd
  imports Ethrex_Prelude
begin

unbundle bit_operations_syntax

text \<open>
  The vectorised kernels of \<open>src/crates/common/trie/nibbles.rs\<close>: expansion of bytes to nibbles,
  packing of nibble pairs and the length of a common prefix, for x86-64 (AVX2, SSE2, SSSE3 and the
  scalar tail), aarch64 (NEON) and the portable fallback.  A vector register is the list of its
  bytes in memory order; each intrinsic the kernels use is a definition of its documented effect.
  The kernels write their output at consecutive addresses from the output pointer on, so the
  written bytes are accumulated in order.  The theorems show that all kernels of one operation
  compute the same function.
\<close>

section \<open>Scalar reference kernels\<close>

primrec expand_bytes_to_nibbles_scalar :: "bytes \<Rightarrow> bytes" where
  "expand_bytes_to_nibbles_scalar [] = []"
| "expand_bytes_to_nibbles_scalar (b # bs) =
     drop_bit 4 b # (b AND 0x0F) # expand_bytes_to_nibbles_scalar bs"

text \<open>The \<open>while i + 2 <= n\<close> loop; a trailing odd nibble is not written.\<close>

fun pack_nibble_pairs_scalar :: "bytes \<Rightarrow> bytes" where
  "pack_nibble_pairs_scalar (hi # lo # ns) =
     (push_bit 4 hi OR lo) # pack_nibble_pairs_scalar ns"
| "pack_nibble_pairs_scalar ns = []"

definition count_common_prefix_scalar :: "bytes \<Rightarrow> bytes \<Rightarrow> nat" where
  "count_common_prefix_scalar a b = length (takeWhile (\<lambda>(x, y). x = y) (zip a b))"

section \<open>Vector instructions\<close>

definition set1_epi8 :: "nat \<Rightarrow> byte \<Rightarrow> bytes" where
  "set1_epi8 n b = replicate n b"

definition and_si :: "bytes \<Rightarrow> bytes \<Rightarrow> bytes" where
  "and_si a b = map2 (AND) a b"

text \<open>\<open>_mm_srli_epi16\<close>: shift the little-endian 16-bit lanes right.\<close>

fun srli_epi16 :: "nat \<Rightarrow> bytes \<Rightarrow> bytes" where
  "srli_epi16 k (b0 # b1 # v) =
     (let w = drop_bit k (push_bit 8 (ucast b1) OR ucast b0 :: 16 word)
      in ucast w # ucast (drop_bit 8 w) # srli_epi16 k v)"
| "srli_epi16 k v = v"

fun interleave :: "bytes \<Rightarrow> bytes \<Rightarrow> bytes" where
  "interleave (x # xs) (y # ys) = x # y # interleave xs ys"
| "interleave _ _ = []"

definition mm_unpacklo_epi8 :: "bytes \<Rightarrow> bytes \<Rightarrow> bytes" where
  "mm_unpacklo_epi8 a b = interleave (take 8 a) (take 8 b)"

definition mm_unpackhi_epi8 :: "bytes \<Rightarrow> bytes \<Rightarrow> bytes" where
  "mm_unpackhi_epi8 a b = interleave (drop 8 a) (drop 8 b)"

definition mm256_unpacklo_epi8 :: "bytes \<Rightarrow> bytes \<Rightarrow> bytes" where
  "mm256_unpacklo_epi8 a b =
     mm_unpacklo_epi8 (take 16 a) (take 16 b) @ mm_unpacklo_epi8 (drop 16 a) (drop 16 b)"

definition mm256_unpackhi_epi8 :: "bytes \<Rightarrow> bytes \<Rightarrow> bytes" where
  "mm256_unpackhi_epi8 a b =
     mm_unpackhi_epi8 (take 16 a) (take 16 b) @ mm_unpackhi_epi8 (drop 16 a) (drop 16 b)"

definition lane128 :: "bytes \<Rightarrow> bytes \<Rightarrow> nat \<Rightarrow> bytes" where
  "lane128 a b s =
     (if s = 0 then take 16 a else if s = 1 then drop 16 a
      else if s = 2 then take 16 b else drop 16 b)"

definition permute2x128 :: "nat \<Rightarrow> bytes \<Rightarrow> bytes \<Rightarrow> bytes" where
  "permute2x128 imm a b = lane128 a b (imm mod 4) @ lane128 a b (imm div 16 mod 4)"

text \<open>
  \<open>_mm_maddubs_epi16\<close>: products of unsigned bytes with signed bytes, adjacent ones added with
  signed saturation; \<open>_mm_packus_epi16\<close>: lanes saturated to unsigned bytes.
\<close>

definition saturate :: "int \<Rightarrow> int \<Rightarrow> int \<Rightarrow> int" where
  "saturate lo hi x = max lo (min hi x)"

fun maddubs_epi16 :: "bytes \<Rightarrow> bytes \<Rightarrow> int list" where
  "maddubs_epi16 (a0 # a1 # a) (b0 # b1 # b) =
     saturate (- 32768) 32767 (uint a0 * sint b0 + uint a1 * sint b1) # maddubs_epi16 a b"
| "maddubs_epi16 _ _ = []"

definition packus_epi16 :: "int list \<Rightarrow> int list \<Rightarrow> bytes" where
  "packus_epi16 a b = map (\<lambda>x. word_of_int (saturate 0 255 x)) (a @ b)"

definition set1_epi16_0110 :: bytes where
  "set1_epi16_0110 = concat (replicate 8 [0x10, 0x01])"

definition cmpeq_epi8 :: "bytes \<Rightarrow> bytes \<Rightarrow> bytes" where
  "cmpeq_epi8 a b = map2 (\<lambda>x y. if x = y then 0xFF else 0x00) a b"

text \<open>\<open>movemask\<close> gathers the top bits of the bytes, \<open>trailing_ones\<close> counts from the lowest bit.\<close>

definition movemask_epi8 :: "bytes \<Rightarrow> 'a::len word" where
  "movemask_epi8 v = horner_sum of_bool 2 (map (\<lambda>x. bit x 7) v)"

definition trailing_ones :: "'a::len word \<Rightarrow> nat" where
  "trailing_ones m = length (takeWhile (bit m) [0..<LENGTH('a)])"

section \<open>x86-64 kernels\<close>

function expand_avx2 :: "bytes \<Rightarrow> nat \<Rightarrow> bytes \<Rightarrow> nat \<times> bytes" where
  "expand_avx2 bytes i out =
     (if i + 32 \<le> length bytes then
        let mask256 = set1_epi8 32 0x0F;
            v = slice_range i (i + 32) bytes;
            hi = and_si (srli_epi16 4 v) mask256;
            lo = and_si v mask256;
            unpack_lo = mm256_unpacklo_epi8 hi lo;
            unpack_hi = mm256_unpackhi_epi8 hi lo;
            out_lo = permute2x128 0x20 unpack_lo unpack_hi;
            out_hi = permute2x128 0x31 unpack_lo unpack_hi
        in expand_avx2 bytes (i + 32) (out @ out_lo @ out_hi)
      else (i, out))"
  by auto
termination
  by (relation "measure (\<lambda>(bs, i, _). length bs - i)") auto

function expand_sse2 :: "bytes \<Rightarrow> nat \<Rightarrow> bytes \<Rightarrow> nat \<times> bytes" where
  "expand_sse2 bytes i out =
     (if i + 16 \<le> length bytes then
        let mask128 = set1_epi8 16 0x0F;
            v = slice_range i (i + 16) bytes;
            hi = and_si (srli_epi16 4 v) mask128;
            lo = and_si v mask128;
            lo16 = mm_unpacklo_epi8 hi lo;
            hi16 = mm_unpackhi_epi8 hi lo
        in expand_sse2 bytes (i + 16) (out @ lo16 @ hi16)
      else (i, out))"
  by auto
termination
  by (relation "measure (\<lambda>(bs, i, _). length bs - i)") auto

text \<open>\<open>avx2\<close> is the compile-time target feature.\<close>

definition expand_bytes_to_nibbles_x86_64 :: "bool \<Rightarrow> bytes \<Rightarrow> bytes" where
  "expand_bytes_to_nibbles_x86_64 avx2 bytes =
     (let (i, out) = (if avx2 then expand_avx2 bytes 0 [] else (0, []));
          (i, out) = expand_sse2 bytes i out
      in out @ expand_bytes_to_nibbles_scalar (drop i bytes))"

function pack_ssse3 :: "bytes \<Rightarrow> nat \<Rightarrow> bytes \<Rightarrow> nat \<times> bytes" where
  "pack_ssse3 nibbles i out =
     (if i + 32 \<le> length nibbles then
        let weights = set1_epi16_0110;
            lo_chunk = slice_range i (i + 16) nibbles;
            hi_chunk = slice_range (i + 16) (i + 32) nibbles;
            lo_packed = maddubs_epi16 lo_chunk weights;
            hi_packed = maddubs_epi16 hi_chunk weights
        in pack_ssse3 nibbles (i + 32) (out @ packus_epi16 lo_packed hi_packed)
      else (i, out))"
  by auto
termination
  by (relation "measure (\<lambda>(ns, i, _). length ns - i)") auto

definition pack_nibble_pairs_x86_64 :: "bool \<Rightarrow> bytes \<Rightarrow> bytes" where
  "pack_nibble_pairs_x86_64 ssse3 nibbles =
     (let (i, out) = (if ssse3 then pack_ssse3 nibbles 0 [] else (0, []))
      in out @ pack_nibble_pairs_scalar (drop i nibbles))"

text \<open>The comparison loops return the position of the first difference, or the index they reached.\<close>

function prefix_avx2 :: "bytes \<Rightarrow> bytes \<Rightarrow> nat \<Rightarrow> nat + nat" where
  "prefix_avx2 a b i =
     (if i + 32 \<le> min (length a) (length b) then
        let mask = (movemask_epi8 (cmpeq_epi8 (slice_range i (i + 32) a) (slice_range i (i + 32) b))
                    :: 32 word)
        in if mask \<noteq> 0xFFFFFFFF then Inl (i + trailing_ones mask) else prefix_avx2 a b (i + 32)
      else Inr i)"
  by auto
termination
  by (relation "measure (\<lambda>(a, b, i). length a - i)") auto

function prefix_sse2 :: "bytes \<Rightarrow> bytes \<Rightarrow> nat \<Rightarrow> nat + nat" where
  "prefix_sse2 a b i =
     (if i + 16 \<le> min (length a) (length b) then
        let mask = (movemask_epi8 (cmpeq_epi8 (slice_range i (i + 16) a) (slice_range i (i + 16) b))
                    :: 16 word)
        in if mask \<noteq> 0xFFFF then Inl (i + trailing_ones mask) else prefix_sse2 a b (i + 16)
      else Inr i)"
  by auto
termination
  by (relation "measure (\<lambda>(a, b, i). length a - i)") auto

definition count_common_prefix_x86_64 :: "bool \<Rightarrow> bytes \<Rightarrow> bytes \<Rightarrow> nat" where
  "count_common_prefix_x86_64 avx2 a b =
     (let n = min (length a) (length b) in
      case (if avx2 then prefix_avx2 a b 0 else Inr 0) of
        Inl r \<Rightarrow> r
      | Inr i \<Rightarrow>
          (case prefix_sse2 a b i of
             Inl r \<Rightarrow> r
           | Inr i \<Rightarrow> i + count_common_prefix_scalar (slice_range i n a) (slice_range i n b)))"

section \<open>aarch64 kernels\<close>

function expand_neon :: "bytes \<Rightarrow> nat \<Rightarrow> bytes \<Rightarrow> nat \<times> bytes" where
  "expand_neon bytes i out =
     (if i + 16 \<le> length bytes then
        let v = slice_range i (i + 16) bytes;
            hi = map (drop_bit 4) v;
            lo = and_si v (set1_epi8 16 0x0F);
            lo16 = interleave (take 8 hi) (take 8 lo);
            hi16 = interleave (drop 8 hi) (drop 8 lo)
        in expand_neon bytes (i + 16) (out @ lo16 @ hi16)
      else (i, out))"
  by auto
termination
  by (relation "measure (\<lambda>(bs, i, _). length bs - i)") auto

definition expand_bytes_to_nibbles_aarch64 :: "bytes \<Rightarrow> bytes" where
  "expand_bytes_to_nibbles_aarch64 bytes =
     (let (i, out) = expand_neon bytes 0 []
      in out @ expand_bytes_to_nibbles_scalar (drop i bytes))"

text \<open>\<open>vld2q_u8\<close> loads the even and the odd positions into two registers.\<close>

fun deinterleave :: "bytes \<Rightarrow> bytes \<times> bytes" where
  "deinterleave (x # y # v) = (let (xs, ys) = deinterleave v in (x # xs, y # ys))"
| "deinterleave v = ([], [])"

function pack_neon :: "bytes \<Rightarrow> nat \<Rightarrow> bytes \<Rightarrow> nat \<times> bytes" where
  "pack_neon nibbles i out =
     (if i + 32 \<le> length nibbles then
        let (v0, v1) = deinterleave (slice_range i (i + 32) nibbles)
        in pack_neon nibbles (i + 32) (out @ map2 (OR) (map (push_bit 4) v0) v1)
      else (i, out))"
  by auto
termination
  by (relation "measure (\<lambda>(ns, i, _). length ns - i)") auto

definition pack_nibble_pairs_aarch64 :: "bytes \<Rightarrow> bytes" where
  "pack_nibble_pairs_aarch64 nibbles =
     (let (i, out) = pack_neon nibbles 0 []
      in out @ pack_nibble_pairs_scalar (drop i nibbles))"

text \<open>
  The scan of a window with a difference finds it (the source marks the other case unreachable, and
  \<open>neon_scan\<close> below shows that it is).
\<close>

function prefix_neon :: "bytes \<Rightarrow> bytes \<Rightarrow> nat \<Rightarrow> nat + nat" where
  "prefix_neon a b i =
     (if i + 16 \<le> min (length a) (length b) then
        let eq = cmpeq_epi8 (slice_range i (i + 16) a) (slice_range i (i + 16) b)
        in if Min (set eq) = 0xFF then prefix_neon a b (i + 16)
           else (case position (\<lambda>x. x = 0) eq of Some j \<Rightarrow> Inl (i + j) | None \<Rightarrow> Inr i)
      else Inr i)"
  by auto
termination
  by (relation "measure (\<lambda>(a, b, i). length a - i)") auto

definition count_common_prefix_aarch64 :: "bytes \<Rightarrow> bytes \<Rightarrow> nat" where
  "count_common_prefix_aarch64 a b =
     (let n = min (length a) (length b) in
      case prefix_neon a b 0 of
        Inl r \<Rightarrow> r
      | Inr i \<Rightarrow> i + count_common_prefix_scalar (slice_range i n a) (slice_range i n b))"

declare expand_avx2.simps [simp del] expand_sse2.simps [simp del] pack_ssse3.simps [simp del]
  prefix_avx2.simps [simp del] prefix_sse2.simps [simp del] expand_neon.simps [simp del]
  pack_neon.simps [simp del] prefix_neon.simps [simp del]

section \<open>Expansion\<close>

lemma interleave_append:
  "length a = length b \<Longrightarrow> interleave (a @ c) (b @ d) = interleave a b @ interleave c d"
  by (induction a b rule: list_induct2) simp_all

lemma expand_scalar_interleave:
  "expand_bytes_to_nibbles_scalar v = interleave (map (drop_bit 4) v) (map (\<lambda>x. x AND 0x0F) v)"
  by (induction v) simp_all

lemma expand_scalar_append:
  "expand_bytes_to_nibbles_scalar (a @ b) =
     expand_bytes_to_nibbles_scalar a @ expand_bytes_to_nibbles_scalar b"
  by (induction a) simp_all

lemma length_expand_scalar [simp]: "length (expand_bytes_to_nibbles_scalar v) = 2 * length v"
  by (induction v) simp_all

lemma and_0F: "(x :: byte) AND 0x0F = take_bit 4 x"
  by (simp add: take_bit_eq_mask mask_eq_exp_minus_1)

lemma srli_mask:
  "even (length v) \<Longrightarrow> map2 (AND) (srli_epi16 4 v) (replicate (length v) 0x0F) = map (drop_bit 4) v"
proof (induction "4 :: nat" v rule: srli_epi16.induct)
  case (1 b0 b1 v)
  then show ?case
    by (auto simp: Let_def and_0F bit_simps intro!: bit_eqI)
      (drule bit_imp_le_length, simp)+
qed simp_all

lemma and_si_set1: "length v = n \<Longrightarrow> and_si v (set1_epi8 n c) = map (\<lambda>x. x AND c) v"
  by (simp add: and_si_def set1_epi8_def zip_replicate2)

lemma srli_and_si:
  "length v = n \<Longrightarrow> even n \<Longrightarrow> and_si (srli_epi16 4 v) (set1_epi8 n 0x0F) = map (drop_bit 4) v"
  using srli_mask [of v] by (simp add: and_si_def set1_epi8_def)

lemma interleave_halves:
  "length a = length b \<Longrightarrow>
     interleave (take k a) (take k b) @ interleave (drop k a) (drop k b) = interleave a b"
  by (simp flip: interleave_append)

lemma length_interleave: "length (interleave a b) = 2 * min (length a) (length b)"
  by (induction a b rule: interleave.induct) simp_all

lemma sse2_chunk:
  assumes "length v = 16"
  shows "mm_unpacklo_epi8 (map (drop_bit 4) v) (map (\<lambda>x. x AND 0x0F) v) @
         mm_unpackhi_epi8 (map (drop_bit 4) v) (map (\<lambda>x. x AND 0x0F) v) =
         expand_bytes_to_nibbles_scalar v"
  by (simp add: mm_unpacklo_epi8_def mm_unpackhi_epi8_def interleave_halves
      expand_scalar_interleave)

lemma avx2_chunk:
  fixes v :: bytes
  assumes "length v = 32"
  defines "hi \<equiv> map (drop_bit 4) v" and "lo \<equiv> map (\<lambda>x. x AND 0x0F) v"
  shows "permute2x128 0x20 (mm256_unpacklo_epi8 hi lo) (mm256_unpackhi_epi8 hi lo) @
         permute2x128 0x31 (mm256_unpacklo_epi8 hi lo) (mm256_unpackhi_epi8 hi lo) =
         expand_bytes_to_nibbles_scalar v"
proof -
  let ?l = "take 16 v" and ?h = "drop 16 v"
  have maps: "take 16 hi = map (drop_bit 4) ?l" "drop 16 hi = map (drop_bit 4) ?h"
    "take 16 lo = map (\<lambda>x. x AND 0x0F) ?l" "drop 16 lo = map (\<lambda>x. x AND 0x0F) ?h"
    by (simp_all add: hi_def lo_def take_map drop_map)
  have len: "length ?l = 16" "length ?h = 16" using assms by simp_all
  have lens: "length (mm_unpacklo_epi8 (take 16 hi) (take 16 lo)) = 16"
    "length (mm_unpackhi_epi8 (take 16 hi) (take 16 lo)) = 16"
    using len by (simp_all add: maps mm_unpacklo_epi8_def mm_unpackhi_epi8_def length_interleave)
  have "expand_bytes_to_nibbles_scalar v =
      expand_bytes_to_nibbles_scalar ?l @ expand_bytes_to_nibbles_scalar ?h"
    by (simp flip: expand_scalar_append)
  with sse2_chunk [OF len(1)] sse2_chunk [OF len(2)] lens show ?thesis
    by (simp add: permute2x128_def lane128_def mm256_unpacklo_epi8_def mm256_unpackhi_epi8_def
        flip: maps)
qed

lemma drop_slice_range: "i + k \<le> length xs \<Longrightarrow> drop i xs = slice_range i (i + k) xs @ drop (i + k) xs"
  unfolding slice_range_def by (metis add_diff_cancel_left' append_take_drop_id add.commute drop_drop)

lemma expand_avx2_inv:
  "case expand_avx2 bs i out of (j, o') \<Rightarrow>
     o' @ expand_bytes_to_nibbles_scalar (drop j bs) = out @ expand_bytes_to_nibbles_scalar (drop i bs)"
proof (induction bs i out rule: expand_avx2.induct)
  case (1 bs i out)
  show ?case
  proof (cases "i + 32 \<le> length bs")
    case True
    let ?v = "slice_range i (i + 32) bs"
    have len: "length ?v = 32" using True by simp
    have "expand_bytes_to_nibbles_scalar (drop i bs) =
        expand_bytes_to_nibbles_scalar ?v @ expand_bytes_to_nibbles_scalar (drop (i + 32) bs)"
      using drop_slice_range [OF True] by (metis expand_scalar_append)
    with 1 [OF True refl refl refl refl refl refl refl refl] avx2_chunk [OF len] True len show ?thesis
      by (simp add: expand_avx2.simps [of bs i] Let_def and_si_set1 srli_and_si split: prod.splits)
  next
    case False
    then show ?thesis by (simp add: expand_avx2.simps [of bs i])
  qed
qed

lemma expand_sse2_inv:
  "case expand_sse2 bs i out of (j, o') \<Rightarrow>
     o' @ expand_bytes_to_nibbles_scalar (drop j bs) = out @ expand_bytes_to_nibbles_scalar (drop i bs)"
proof (induction bs i out rule: expand_sse2.induct)
  case (1 bs i out)
  show ?case
  proof (cases "i + 16 \<le> length bs")
    case True
    let ?v = "slice_range i (i + 16) bs"
    have len: "length ?v = 16" using True by simp
    have "expand_bytes_to_nibbles_scalar (drop i bs) =
        expand_bytes_to_nibbles_scalar ?v @ expand_bytes_to_nibbles_scalar (drop (i + 16) bs)"
      using drop_slice_range [OF True] by (metis expand_scalar_append)
    with 1 [OF True refl refl refl refl refl refl] sse2_chunk [OF len] True len show ?thesis
      by (simp add: expand_sse2.simps [of bs i] Let_def and_si_set1 srli_and_si split: prod.splits)
  next
    case False
    then show ?thesis by (simp add: expand_sse2.simps [of bs i])
  qed
qed

lemma expand_neon_inv:
  "case expand_neon bs i out of (j, o') \<Rightarrow>
     o' @ expand_bytes_to_nibbles_scalar (drop j bs) = out @ expand_bytes_to_nibbles_scalar (drop i bs)"
proof (induction bs i out rule: expand_neon.induct)
  case (1 bs i out)
  show ?case
  proof (cases "i + 16 \<le> length bs")
    case True
    let ?v = "slice_range i (i + 16) bs"
    have len: "length ?v = 16" using True by simp
    have "expand_bytes_to_nibbles_scalar (drop i bs) =
        expand_bytes_to_nibbles_scalar ?v @ expand_bytes_to_nibbles_scalar (drop (i + 16) bs)"
      using drop_slice_range [OF True] by (metis expand_scalar_append)
    with 1 [OF True refl refl refl refl refl]
      interleave_halves [of "map (drop_bit 4) ?v" "map (\<lambda>x. x AND 0x0F) ?v" 8] True len show ?thesis
      by (simp add: expand_neon.simps [of bs i] Let_def and_si_set1 expand_scalar_interleave
          split: prod.splits)
  next
    case False
    then show ?thesis by (simp add: expand_neon.simps [of bs i])
  qed
qed

lemma expand_x86_64_scalar: "expand_bytes_to_nibbles_x86_64 avx2 bs = expand_bytes_to_nibbles_scalar bs"
proof -
  obtain i out where 1: "(if avx2 then expand_avx2 bs 0 [] else (0, [])) = (i, out)"
    by (cases "if avx2 then expand_avx2 bs 0 [] else (0, [])") auto
  obtain j out' where 2: "expand_sse2 bs i out = (j, out')" by (cases "expand_sse2 bs i out") auto
  have "out @ expand_bytes_to_nibbles_scalar (drop i bs) = expand_bytes_to_nibbles_scalar bs"
    using 1 expand_avx2_inv [where bs = bs and i = 0 and out = "[]"] by (auto split: if_splits)
  moreover have "out' @ expand_bytes_to_nibbles_scalar (drop j bs) =
      out @ expand_bytes_to_nibbles_scalar (drop i bs)"
    using 2 expand_sse2_inv [where bs = bs and i = i and out = out] by simp
  ultimately show ?thesis by (simp add: expand_bytes_to_nibbles_x86_64_def 1 2 Let_def)
qed

lemma expand_aarch64_scalar: "expand_bytes_to_nibbles_aarch64 bs = expand_bytes_to_nibbles_scalar bs"
  using expand_neon_inv [where bs = bs and i = 0 and out = "[]"]
  by (simp add: expand_bytes_to_nibbles_aarch64_def Let_def split: prod.splits)

section \<open>Packing\<close>

lemma pack_scalar_append:
  "even (length a) \<Longrightarrow> pack_nibble_pairs_scalar (a @ b) =
     pack_nibble_pairs_scalar a @ pack_nibble_pairs_scalar b"
  by (induction a rule: pack_nibble_pairs_scalar.induct) simp_all

lemma length_pack_scalar [simp]: "length (pack_nibble_pairs_scalar v) = length v div 2"
  by (induction v rule: pack_nibble_pairs_scalar.induct) simp_all

text \<open>A nibble is a byte below 16.\<close>

abbreviation nibble_list :: "bytes \<Rightarrow> bool" where
  "nibble_list \<equiv> list_all (\<lambda>b. b < 16)"

lemma nibble_high_zero: "(lo :: byte) < 16 \<Longrightarrow> take_bit 4 lo = lo"
  by (simp add: take_bit_eq_mod mod_word_less)

lemma unat_pack:
  assumes "(hi :: byte) < 16" "lo < 16" shows "unat (push_bit 4 hi OR lo) = 16 * unat hi + unat lo"
proof -
  have h: "unat hi < 16" and l: "unat lo < 16" using assms by (simp_all add: word_less_nat_alt)
  have "push_bit 4 hi OR lo = push_bit 4 hi + lo"
  proof (rule disjunctive_add [symmetric])
    fix n
    show "\<not> bit (push_bit 4 hi) n \<or> \<not> bit lo n"
      using nibble_high_zero [OF assms(2)] by (metis bit_push_bit_iff bit_take_bit_iff not_le)
  qed
  then have "push_bit 4 hi OR lo = word_of_nat (16 * unat hi + unat lo)"
    by (simp add: push_bit_eq_mult mult.commute)
  then show ?thesis using h l by (simp only: unat_of_nat) simp
qed

lemma maddubs_pack:
  assumes "nibble_list v" "even (length v)" "length w = length v div 2"
  shows "map (\<lambda>x. word_of_int (saturate 0 255 x)) (maddubs_epi16 v (concat (map (\<lambda>_. [0x10, 0x01]) w))) =
         pack_nibble_pairs_scalar v"
  using assms
proof (induction v arbitrary: w rule: pack_nibble_pairs_scalar.induct)
  case (1 hi lo ns)
  then obtain x w' where w: "w = x # w'" by (cases w) auto
  have h: "uint hi < 16" and l: "uint lo < 16" using 1 by (simp_all add: word_less_def)
  have int: "int (unat (push_bit 4 hi OR lo)) = uint hi * 16 + uint lo"
    using 1 by (simp add: unat_pack)
  then have "push_bit 4 hi OR lo = word_of_int (uint hi * 16 + uint lo)"
    by (metis word_of_int_uint uint_nat)
  moreover have "saturate 0 255 (saturate (- 32768) 32767 (uint hi * 16 + uint lo)) = uint hi * 16 + uint lo"
    using h l uint_ge_0 [of hi] uint_ge_0 [of lo] unfolding saturate_def by linarith
  ultimately show ?case using 1 w by simp
qed simp_all

lemma ssse3_chunk:
  assumes "nibble_list x" "nibble_list y" "length x = 16" "length y = 16"
  shows "packus_epi16 (maddubs_epi16 x set1_epi16_0110) (maddubs_epi16 y set1_epi16_0110) =
         pack_nibble_pairs_scalar (x @ y)"
proof -
  have w: "set1_epi16_0110 = concat (map (\<lambda>_. [0x10, 0x01]) (replicate 8 ()))"
    by (simp add: set1_epi16_0110_def)
  show ?thesis
    unfolding packus_epi16_def map_append w
    using maddubs_pack [of x "replicate 8 ()"] maddubs_pack [of y "replicate 8 ()"] assms
      pack_scalar_append [of x y] by simp
qed

lemma nibble_list_slice: "nibble_list v \<Longrightarrow> nibble_list (slice_range i j v)"
  by (auto simp: slice_range_def list_all_iff dest!: in_set_takeD in_set_dropD)

lemma pack_ssse3_inv:
  "nibble_list v \<Longrightarrow> case pack_ssse3 v i out of (j, o') \<Rightarrow>
     o' @ pack_nibble_pairs_scalar (drop j v) = out @ pack_nibble_pairs_scalar (drop i v)"
proof (induction v i out rule: pack_ssse3.induct)
  case (1 v i out)
  show ?case
  proof (cases "i + 32 \<le> length v")
    case True
    let ?x = "slice_range i (i + 16) v" and ?y = "slice_range (i + 16) (i + 32) v"
    have xy: "length ?x = 16" "length ?y = 16" "nibble_list ?x" "nibble_list ?y"
      using True 1 by (simp_all add: nibble_list_slice)
    have "drop i v = (?x @ ?y) @ drop (i + 32) v"
      using drop_slice_range [of i 16 v] drop_slice_range [of "i + 16" 16 v] True
      by (simp add: add.commute [of i 32])
    then have "pack_nibble_pairs_scalar (drop i v) =
        pack_nibble_pairs_scalar (?x @ ?y) @ pack_nibble_pairs_scalar (drop (i + 32) v)"
      using xy pack_scalar_append [of "?x @ ?y" "drop (i + 32) v"] by simp
    with 1(1) [OF True refl refl refl refl refl 1(2)] ssse3_chunk [OF xy(3,4,1,2)] True show ?thesis
      by (simp add: pack_ssse3.simps [of v i] Let_def split: prod.splits)
  next
    case False
    then show ?thesis by (simp add: pack_ssse3.simps [of v i])
  qed
qed

lemma deinterleave_pack:
  "deinterleave v = (a, b) \<Longrightarrow> map2 (OR) (map (push_bit 4) a) b = pack_nibble_pairs_scalar v"
  by (induction v arbitrary: a b rule: deinterleave.induct) (auto split: prod.splits)

lemma pack_neon_inv:
  "case pack_neon v i out of (j, o') \<Rightarrow>
     o' @ pack_nibble_pairs_scalar (drop j v) = out @ pack_nibble_pairs_scalar (drop i v)"
proof (induction v i out rule: pack_neon.induct)
  case (1 v i out)
  show ?case
  proof (cases "i + 32 \<le> length v")
    case True
    let ?x = "slice_range i (i + 32) v"
    obtain a b where ab: "deinterleave ?x = (a, b)" by (cases "deinterleave ?x")
    have "pack_nibble_pairs_scalar (drop i v) =
        pack_nibble_pairs_scalar ?x @ pack_nibble_pairs_scalar (drop (i + 32) v)"
      using drop_slice_range [OF True] True pack_scalar_append [of ?x "drop (i + 32) v"] by simp
    with 1 [OF True ab [symmetric] refl] deinterleave_pack [OF ab] True show ?thesis
      by (simp add: pack_neon.simps [of v i] Let_def ab split: prod.splits)
  next
    case False
    then show ?thesis by (simp add: pack_neon.simps [of v i])
  qed
qed

lemma pack_x86_64_scalar:
  "nibble_list v \<Longrightarrow> pack_nibble_pairs_x86_64 ssse3 v = pack_nibble_pairs_scalar v"
  using pack_ssse3_inv [where v = v and i = 0 and out = "[]"]
  by (auto simp: pack_nibble_pairs_x86_64_def Let_def split: prod.splits)

lemma pack_aarch64_scalar: "pack_nibble_pairs_aarch64 v = pack_nibble_pairs_scalar v"
  using pack_neon_inv [where v = v and i = 0 and out = "[]"]
  by (simp add: pack_nibble_pairs_aarch64_def Let_def split: prod.splits)

section \<open>Common prefixes\<close>

lemma prefix_scalar_append:
  "length x = length y \<Longrightarrow> count_common_prefix_scalar (x @ a) (y @ b) =
     (if x = y then length x + count_common_prefix_scalar a b else count_common_prefix_scalar x y)"
  unfolding count_common_prefix_scalar_def by (induction x y rule: list_induct2) auto

lemma bit_movemask:
  assumes "length x = LENGTH('a)" "length y = LENGTH('a)"
  shows "bit (movemask_epi8 (cmpeq_epi8 x y) :: 'a::len word) k \<longleftrightarrow> k < LENGTH('a) \<and> x ! k = y ! k"
  using assms by (auto simp: movemask_epi8_def cmpeq_epi8_def bit_horner_sum_bit_iff
      split: if_splits)

lemma trailing_ones_movemask:
  assumes "length x = LENGTH('a)" "length y = LENGTH('a)"
  shows "trailing_ones (movemask_epi8 (cmpeq_epi8 x y) :: 'a::len word) = count_common_prefix_scalar x y"
proof -
  have "zip x y = map (\<lambda>k. (x ! k, y ! k)) [0..<LENGTH('a)]"
    using assms by (auto intro: nth_equalityI)
  then have "count_common_prefix_scalar x y = length (takeWhile (\<lambda>k. x ! k = y ! k) [0..<LENGTH('a)])"
    by (simp add: count_common_prefix_scalar_def takeWhile_map comp_def)
  also have "takeWhile (\<lambda>k. x ! k = y ! k) [0..<LENGTH('a)] =
      takeWhile (bit (movemask_epi8 (cmpeq_epi8 x y) :: 'a word)) [0..<LENGTH('a)]"
    using bit_movemask [OF assms] by (intro takeWhile_cong) auto
  finally show ?thesis by (simp add: trailing_ones_def)
qed

lemma movemask_full:
  assumes "length x = LENGTH('a)" "length y = LENGTH('a)"
  shows "(movemask_epi8 (cmpeq_epi8 x y) :: 'a::len word) = - 1 \<longleftrightarrow> x = y"
proof
  assume "(movemask_epi8 (cmpeq_epi8 x y) :: 'a word) = - 1"
  then have "x ! k = y ! k" if "k < LENGTH('a)" for k
    using that bit_movemask [OF assms, of k] by simp
  with assms show "x = y" by (intro nth_equalityI) simp_all
next
  assume "x = y"
  then show "(movemask_epi8 (cmpeq_epi8 x y) :: 'a word) = - 1"
    using bit_movemask [OF assms] by (intro bit_word_eqI) simp
qed

lemma all_ones: "(0xFFFF :: 16 word) = - 1" "(0xFFFFFFFF :: 32 word) = - 1"
  by simp_all

definition prefix_ok :: "bytes \<Rightarrow> bytes \<Rightarrow> nat \<Rightarrow> nat + nat \<Rightarrow> bool" where
  "prefix_ok a b i r \<longleftrightarrow>
     (let n = i + count_common_prefix_scalar (drop i a) (drop i b) in
      case r of Inl r \<Rightarrow> r = n
      | Inr j \<Rightarrow> j \<le> min (length a) (length b) \<and> j + count_common_prefix_scalar (drop j a) (drop j b) = n)"

lemma prefix_step:
  assumes "i + k \<le> min (length a) (length b)"
  shows "slice_range i (i + k) a = slice_range i (i + k) b \<Longrightarrow>
      prefix_ok a b (i + k) r \<Longrightarrow> prefix_ok a b i r"
    and "slice_range i (i + k) a \<noteq> slice_range i (i + k) b \<Longrightarrow>
      prefix_ok a b i (Inl (i + count_common_prefix_scalar (slice_range i (i + k) a) (slice_range i (i + k) b)))"
proof -
  let ?x = "slice_range i (i + k) a" and ?y = "slice_range i (i + k) b"
  have "drop i a = ?x @ drop (i + k) a" "drop i b = ?y @ drop (i + k) b" "length ?x = length ?y"
    and len: "length ?x = k"
    using assms drop_slice_range [of i k a] drop_slice_range [of i k b] by simp_all
  then have *: "count_common_prefix_scalar (drop i a) (drop i b) =
      (if ?x = ?y then k + count_common_prefix_scalar (drop (i + k) a) (drop (i + k) b)
       else count_common_prefix_scalar ?x ?y)"
    using prefix_scalar_append [of ?x ?y] by metis
  show "?x = ?y \<Longrightarrow> prefix_ok a b (i + k) r \<Longrightarrow> prefix_ok a b i r"
    by (auto simp: prefix_ok_def * Let_def split: sum.splits)
  show "?x \<noteq> ?y \<Longrightarrow> prefix_ok a b i (Inl (i + count_common_prefix_scalar ?x ?y))"
    by (simp add: prefix_ok_def *)
qed

lemma prefix_avx2_ok: "i \<le> min (length a) (length b) \<Longrightarrow> prefix_ok a b i (prefix_avx2 a b i)"
proof (induction a b i rule: prefix_avx2.induct)
  case (1 a b i)
  show ?case
  proof (cases "i + 32 \<le> min (length a) (length b)")
    case True
    let ?x = "slice_range i (i + 32) a" and ?y = "slice_range i (i + 32) b"
    have len: "length ?x = LENGTH(32)" "length ?y = LENGTH(32)" using True by simp_all
    show ?thesis
      using prefix_step [OF True] 1(1) [OF True refl] True movemask_full [OF len]
        trailing_ones_movemask [OF len]
      by (cases "?x = ?y") (simp_all add: prefix_avx2.simps [of a b i] Let_def all_ones)
  next
    case False
    then have "prefix_avx2 a b i = Inr i" by (subst prefix_avx2.simps) (simp only: if_False)
    with 1(2) show ?thesis by (simp add: prefix_ok_def)
  qed
qed

lemma prefix_sse2_ok: "i \<le> min (length a) (length b) \<Longrightarrow> prefix_ok a b i (prefix_sse2 a b i)"
proof (induction a b i rule: prefix_sse2.induct)
  case (1 a b i)
  show ?case
  proof (cases "i + 16 \<le> min (length a) (length b)")
    case True
    let ?x = "slice_range i (i + 16) a" and ?y = "slice_range i (i + 16) b"
    have len: "length ?x = LENGTH(16)" "length ?y = LENGTH(16)" using True by simp_all
    show ?thesis
      using prefix_step [OF True] 1(1) [OF True refl] True movemask_full [OF len]
        trailing_ones_movemask [OF len]
      by (cases "?x = ?y") (simp_all add: prefix_sse2.simps [of a b i] Let_def all_ones)
  next
    case False
    then have "prefix_sse2 a b i = Inr i" by (subst prefix_sse2.simps) (simp only: if_False)
    with 1(2) show ?thesis by (simp add: prefix_ok_def)
  qed
qed

lemma neon_scan:
  assumes "length x = length y" "x \<noteq> []"
  shows "Min (set (cmpeq_epi8 x y)) = 0xFF \<longleftrightarrow> x = y"
    and "x \<noteq> y \<Longrightarrow> position (\<lambda>e. e = 0) (cmpeq_epi8 x y) = Some (count_common_prefix_scalar x y)"
proof -
  let ?e = "\<lambda>(u :: byte, v). if u = v then 0xFF else 0 :: byte"
  have eq: "cmpeq_epi8 x y = map ?e (zip x y)"
    by (simp add: cmpeq_epi8_def)
  have ne: "cmpeq_epi8 x y \<noteq> []" using assms by (cases x; cases y) (auto simp: cmpeq_epi8_def)
  have all: "(\<forall>e \<in> set (cmpeq_epi8 x y). e = 0xFF) \<longleftrightarrow> x = y"
    using assms(1) unfolding eq by (induction x y rule: list_induct2) auto
  have sub: "set (cmpeq_epi8 x y) \<subseteq> {0, 0xFF}" by (auto simp: eq split: if_splits)
  show "Min (set (cmpeq_epi8 x y)) = 0xFF \<longleftrightarrow> x = y"
  proof
    assume min: "Min (set (cmpeq_epi8 x y)) = 0xFF"
    have "e = 0xFF" if "e \<in> set (cmpeq_epi8 x y)" for e
    proof -
      have "0xFF \<le> e" using Min_le [OF _ that] min by simp
      with sub that show ?thesis by auto
    qed
    with all show "x = y" by blast
  next
    assume "x = y"
    with all ne have "set (cmpeq_epi8 x y) = {0xFF}" by (metis (no_types, lifting) insertI1 set_empty singletonI subsetI subset_singletonD insertCI)
    then show "Min (set (cmpeq_epi8 x y)) = 0xFF" by simp
  qed
  show "position (\<lambda>e. e = 0) (cmpeq_epi8 x y) = Some (count_common_prefix_scalar x y)" if "x \<noteq> y"
  proof -
    have "\<exists>e \<in> set (cmpeq_epi8 x y). e = 0" using that all sub by blast
    moreover have "takeWhile (\<lambda>e. e \<noteq> 0) (cmpeq_epi8 x y) = map ?e (takeWhile (\<lambda>(u, v). u = v) (zip x y))"
      unfolding eq takeWhile_map
      by (rule arg_cong [where f = "map _"], rule takeWhile_cong) (auto split: if_splits)
    ultimately show ?thesis by (simp add: position_conv count_common_prefix_scalar_def)
  qed
qed

lemma prefix_neon_ok: "i \<le> min (length a) (length b) \<Longrightarrow> prefix_ok a b i (prefix_neon a b i)"
proof (induction a b i rule: prefix_neon.induct)
  case (1 a b i)
  show ?case
  proof (cases "i + 16 \<le> min (length a) (length b)")
    case True
    let ?x = "slice_range i (i + 16) a" and ?y = "slice_range i (i + 16) b"
    have "length ?x = 16" "length ?y = 16" using True by simp_all
    then have len: "length ?x = length ?y" "?x \<noteq> []" by auto
    note scan = neon_scan [OF len]
    show ?thesis
      using prefix_step [OF True] 1(1) [OF True refl] True scan
      by (cases "?x = ?y") (simp_all add: prefix_neon.simps [of a b i] Let_def)
  next
    case False
    then have "prefix_neon a b i = Inr i" by (subst prefix_neon.simps) (simp only: if_False)
    with 1(2) show ?thesis by (simp add: prefix_ok_def)
  qed
qed

lemma prefix_scalar_slice:
  "n = min (length a) (length b) \<Longrightarrow>
     count_common_prefix_scalar (slice_range i n a) (slice_range i n b) =
     count_common_prefix_scalar (drop i a) (drop i b)"
  by (simp add: count_common_prefix_scalar_def slice_range_def flip: take_zip)

lemma prefix_tail:
  assumes "prefix_ok a b i r" "n = min (length a) (length b)"
  shows "(case r of Inl r \<Rightarrow> r
          | Inr j \<Rightarrow> j + count_common_prefix_scalar (slice_range j n a) (slice_range j n b)) =
         i + count_common_prefix_scalar (drop i a) (drop i b)"
  using assms by (auto simp: prefix_ok_def Let_def prefix_scalar_slice split: sum.splits)

lemma count_common_prefix_x86_64_scalar:
  "count_common_prefix_x86_64 avx2 a b = count_common_prefix_scalar a b"
proof -
  let ?n = "min (length a) (length b)"
  let ?r = "if avx2 then prefix_avx2 a b 0 else Inr 0"
  have r: "prefix_ok a b 0 ?r" using prefix_avx2_ok [of 0 a b] by (simp add: prefix_ok_def)
  show ?thesis
  proof (cases ?r)
    case (Inl k)
    with r show ?thesis by (simp add: count_common_prefix_x86_64_def prefix_ok_def)
  next
    case (Inr i)
    with r have i: "i \<le> ?n" "i + count_common_prefix_scalar (drop i a) (drop i b) = count_common_prefix_scalar a b"
      by (simp_all add: prefix_ok_def)
    from prefix_tail [OF prefix_sse2_ok [OF i(1)] refl] i(2) Inr show ?thesis
      by (simp add: count_common_prefix_x86_64_def)
  qed
qed

lemma count_common_prefix_aarch64_scalar:
  "count_common_prefix_aarch64 a b = count_common_prefix_scalar a b"
  using prefix_tail [OF prefix_neon_ok [of 0 a b] refl] by (simp add: count_common_prefix_aarch64_def)

text \<open>
  C25: All kernels of one operation agree: the x86-64 kernels (with and without the optional vector
  extension) and the aarch64 kernels expand bytes, pack nibble pairs and count common prefixes
  exactly as the scalar loops do.  Packing needs its input to consist of nibbles.
\<close>
theorem simd_kernels_agree:
  assumes "list_all (\<lambda>b. b < 16) nibbles"
  shows "expand_bytes_to_nibbles_x86_64 avx2 bs = expand_bytes_to_nibbles_scalar bs \<and>
    expand_bytes_to_nibbles_aarch64 bs = expand_bytes_to_nibbles_scalar bs \<and>
    pack_nibble_pairs_x86_64 ssse3 nibbles = pack_nibble_pairs_scalar nibbles \<and>
    pack_nibble_pairs_aarch64 nibbles = pack_nibble_pairs_scalar nibbles \<and>
    count_common_prefix_x86_64 avx2 a b = count_common_prefix_scalar a b \<and>
    count_common_prefix_aarch64 a b = count_common_prefix_scalar a b"
  using assms by (simp add: expand_x86_64_scalar expand_aarch64_scalar pack_x86_64_scalar
      pack_aarch64_scalar count_common_prefix_x86_64_scalar count_common_prefix_aarch64_scalar)

theorem simd_kernels_agree_witness:
  "list_all (\<lambda>b. b < 16) [1, 2, 0xf, 0 :: byte] \<and>
   pack_nibble_pairs_x86_64 True [1, 2, 0xf, 0] = [0x12, 0xf0] \<and>
   count_common_prefix_x86_64 True [1, 2, 3] [1, 2, 4] = 2"
  using simd_kernels_agree [of "[1, 2, 0xf, 0]" True "[]" True "[1, 2, 3]" "[1, 2, 4]"]
  by (simp add: count_common_prefix_scalar_def)

end
