(* ===== verification/Nibbles.thy ===== *)
theory Nibbles
  imports Nibbles_Simd Rlp_Types
begin

unbundle bit_operations_syntax

text \<open>
  The \<open>Nibbles\<close> type of \<open>src/crates/common/trie/nibbles.rs\<close>: the remaining path \<open>n_data\<close> and the
  part \<open>n_consumed\<close> that traversal has already passed.  A full key is its nibbles followed by the
  leaf flag 16.  Operations that index a slice panic out of range, which is \<open>None\<close> here.
\<close>

record Nibbles =
  n_data :: bytes
  n_consumed :: bytes

text \<open>The compilation target, on x86-64 with its features AVX2 and SSSE3.\<close>

datatype target_arch = X86_64 bool bool | Aarch64 | Portable

definition expand_bytes_to_nibbles :: "target_arch \<Rightarrow> bytes \<Rightarrow> bytes" where
  "expand_bytes_to_nibbles arch bytes =
     (case arch of
        X86_64 avx2 _ \<Rightarrow> expand_bytes_to_nibbles_x86_64 avx2 bytes
      | Aarch64 \<Rightarrow> expand_bytes_to_nibbles_aarch64 bytes
      | Portable \<Rightarrow> expand_bytes_to_nibbles_scalar bytes)"

definition pack_nibble_pairs :: "target_arch \<Rightarrow> bytes \<Rightarrow> bytes" where
  "pack_nibble_pairs arch nibbles =
     (case arch of
        X86_64 _ ssse3 \<Rightarrow> pack_nibble_pairs_x86_64 ssse3 nibbles
      | Aarch64 \<Rightarrow> pack_nibble_pairs_aarch64 nibbles
      | Portable \<Rightarrow> pack_nibble_pairs_scalar nibbles)"

definition count_common_prefix :: "target_arch \<Rightarrow> bytes \<Rightarrow> bytes \<Rightarrow> nat" where
  "count_common_prefix arch a b =
     (case arch of
        X86_64 avx2 _ \<Rightarrow> count_common_prefix_x86_64 avx2 a b
      | Aarch64 \<Rightarrow> count_common_prefix_aarch64 a b
      | Portable \<Rightarrow> count_common_prefix_scalar a b)"

text \<open>
  The methods below call the portable kernels; \<open>simd_kernels_agree\<close> lets any target stand for it.
\<close>

definition from_hex :: "bytes \<Rightarrow> Nibbles" where
  "from_hex hex = \<lparr> n_data = hex, n_consumed = [] \<rparr>"

definition from_raw :: "bytes \<Rightarrow> bool \<Rightarrow> Nibbles" where
  "from_raw bytes is_leaf =
     \<lparr> n_data = expand_bytes_to_nibbles Portable bytes @ (if is_leaf then [16] else []),
       n_consumed = [] \<rparr>"

definition from_bytes :: "bytes \<Rightarrow> Nibbles" where
  "from_bytes bytes = from_raw bytes True"

definition nib_len :: "Nibbles \<Rightarrow> nat" where
  "nib_len n = length (n_data n)"

definition nib_is_empty :: "Nibbles \<Rightarrow> bool" where
  "nib_is_empty n \<longleftrightarrow> n_data n = []"

definition nib_eq :: "Nibbles \<Rightarrow> Nibbles \<Rightarrow> bool" where
  "nib_eq a b \<longleftrightarrow> n_data a = n_data b"

definition skip_prefix :: "Nibbles \<Rightarrow> bytes \<Rightarrow> bool \<times> Nibbles" where
  "skip_prefix n pre =
     (if length pre \<le> nib_len n \<and> take (length pre) (n_data n) = pre
      then (True, \<lparr> n_data = drop (length pre) (n_data n), n_consumed = n_consumed n @ pre \<rparr>)
      else (False, n))"

datatype ordering = Less | Equal | Greater

fun slice_cmp :: "bytes \<Rightarrow> bytes \<Rightarrow> ordering" where
  "slice_cmp [] [] = Equal"
| "slice_cmp [] (_ # _) = Less"
| "slice_cmp (_ # _) [] = Greater"
| "slice_cmp (x # xs) (y # ys) =
     (if x < y then Less else if x > y then Greater else slice_cmp xs ys)"

definition nib_cmp :: "Nibbles \<Rightarrow> Nibbles \<Rightarrow> ordering" where
  "nib_cmp a b = slice_cmp (n_data a) (n_data b)"

definition compare_prefix :: "Nibbles \<Rightarrow> Nibbles \<Rightarrow> ordering" where
  "compare_prefix n pre =
     (if nib_len n > nib_len pre then slice_cmp (take (nib_len pre) (n_data n)) (n_data pre)
      else slice_cmp (n_data n) (take (nib_len n) (n_data pre)))"

definition count_prefix :: "bytes \<Rightarrow> bytes \<Rightarrow> nat" where
  "count_prefix a b = count_common_prefix Portable a b"

definition nib_next :: "Nibbles \<Rightarrow> byte option \<times> Nibbles" where
  "nib_next n =
     (case n_data n of [] \<Rightarrow> (None, n)
      | x # xs \<Rightarrow> (Some x, \<lparr> n_data = xs, n_consumed = n_consumed n @ [x] \<rparr>))"

definition next_choice :: "Nibbles \<Rightarrow> nat option \<times> Nibbles" where
  "next_choice n =
     (let (r, n') = nib_next n in
      ((case r of Some choice \<Rightarrow> if choice < 16 then Some (unat choice) else None | None \<Rightarrow> None), n'))"

definition nib_offset :: "Nibbles \<Rightarrow> nat \<Rightarrow> Nibbles option" where
  "nib_offset n off =
     (if off \<le> nib_len n
      then Some \<lparr> n_data = drop off (n_data n), n_consumed = n_consumed n @ take off (n_data n) \<rparr>
      else None)"

definition nib_slice :: "Nibbles \<Rightarrow> nat \<Rightarrow> nat \<Rightarrow> Nibbles option" where
  "nib_slice n start end' =
     (if start \<le> end' \<and> end' \<le> nib_len n then Some (from_hex (slice_range start end' (n_data n)))
      else None)"

definition nib_extend :: "Nibbles \<Rightarrow> Nibbles \<Rightarrow> Nibbles" where
  "nib_extend n other = n \<lparr> n_data := n_data n @ n_data other \<rparr>"

definition nib_at :: "Nibbles \<Rightarrow> nat \<Rightarrow> nat option" where
  "nib_at n i = (if i < nib_len n then Some (unat (n_data n ! i)) else None)"

definition nib_prepend :: "Nibbles \<Rightarrow> byte \<Rightarrow> Nibbles" where
  "nib_prepend n nibble = n \<lparr> n_data := nibble # n_data n \<rparr>"

definition nib_append :: "Nibbles \<Rightarrow> byte \<Rightarrow> Nibbles" where
  "nib_append n nibble = n \<lparr> n_data := n_data n @ [nibble] \<rparr>"

definition is_leaf :: "bytes \<Rightarrow> bool" where
  "is_leaf d \<longleftrightarrow> (if d = [] then False else d ! (length d - 1) = 16)"

definition encode_compact :: "bytes \<Rightarrow> bytes" where
  "encode_compact d =
     (let leaf = is_leaf d;
          hex = (if leaf then slice_range 0 (length d - 1) d else d);
          (prefix_nibble, hex) =
            (if length hex mod 2 = 1 then (0x10 + hex ! 0, drop 1 hex) else (0x00, hex))
      in (prefix_nibble + (if leaf then 0x20 else 0x00)) # pack_nibble_pairs Portable hex)"

definition keybytes_to_hex :: "bytes \<Rightarrow> bytes" where
  "keybytes_to_hex keybytes = expand_bytes_to_nibbles Portable keybytes @ [16]"

definition compact_to_hex :: "bytes \<Rightarrow> bytes" where
  "compact_to_hex compact =
     (if compact = [] then []
      else let base = keybytes_to_hex compact;
               end' = (if base ! 0 < 2 then length base - 1 else length base);
               chop = 2 - unat (base ! 0 AND 1)
           in take (end' - chop) (drop chop base))"

definition decode_compact :: "bytes \<Rightarrow> bytes" where
  "decode_compact compact = compact_to_hex compact"

fun to_bytes_chunks :: "bytes \<Rightarrow> bytes" where
  "to_bytes_chunks [] = []"
| "to_bytes_chunks [x] = [push_bit 4 x]"
| "to_bytes_chunks (x # y # ns) = (push_bit 4 x OR y) # to_bytes_chunks ns"

definition to_bytes :: "Nibbles \<Rightarrow> bytes" where
  "to_bytes n =
     (let data = (if \<not> nib_is_empty n \<and> is_leaf (n_data n) then take (nib_len n - 1) (n_data n)
                  else n_data n)
      in to_bytes_chunks data)"

definition nib_concat :: "Nibbles \<Rightarrow> Nibbles \<Rightarrow> Nibbles" where
  "nib_concat n other = \<lparr> n_data = n_data n @ n_data other, n_consumed = n_consumed n \<rparr>"

definition append_new :: "Nibbles \<Rightarrow> byte \<Rightarrow> Nibbles" where
  "append_new n nibble = \<lparr> n_data = n_data n @ [nibble], n_consumed = n_consumed n \<rparr>"

definition current :: "Nibbles \<Rightarrow> Nibbles" where
  "current n = \<lparr> n_data = n_consumed n, n_consumed = [] \<rparr>"

text \<open>\<open>take\<close> returns the content and leaves the receiver empty.\<close>

definition nib_take :: "Nibbles \<Rightarrow> Nibbles \<times> Nibbles" where
  "nib_take n = (n, \<lparr> n_data = [], n_consumed = [] \<rparr>)"

text \<open>\<open>data\<close> is a \<open>Vec<u8>\<close>, so the RLP form is a list of bytes inside a list.\<close>

definition encode_nibbles :: "Nibbles \<Rightarrow> bytes" where
  "encode_nibbles n =
     Encoder_finish (encode_field (encode_vec encode_u8 length_uint) (n_data n) (Encoder_new []))"

definition decode_nibbles :: "Nibbles decoder" where
  "decode_nibbles rlp =
     and_then (Decoder_new rlp) (\<lambda>d.
       and_then (decode_field ''alloc::vec::Vec<u8>'' (decode_vec decode_u8) ''data'' d) (\<lambda>(data, d).
         and_then (Decoder_finish d) (\<lambda>rest.
           Inr (\<lparr> n_data = data, n_consumed = [] \<rparr>, rest))))"

section \<open>Keys\<close>

text \<open>A path inside the trie is a list of nibbles; a full key ends with the leaf flag.\<close>

definition valid_key :: "bytes \<Rightarrow> bool" where
  "valid_key k \<longleftrightarrow> k \<noteq> [] \<and> last k = 16 \<and> nibble_list (butlast k)"

lemma valid_key_snoc: "valid_key (p @ [16]) \<longleftrightarrow> nibble_list p"
  by (simp add: valid_key_def)

lemma valid_keyE:
  assumes "valid_key k" obtains p where "k = p @ [16]" "nibble_list p"
  using assms by (metis append_butlast_last_id valid_key_def)

lemma valid_key_Cons:
  "valid_key (x # xs) \<longleftrightarrow> (x = 16 \<and> xs = []) \<or> (x < 16 \<and> valid_key xs)"
  by (cases xs rule: rev_cases) (auto simp: valid_key_def)

lemma valid_key_nonempty: "valid_key k \<Longrightarrow> k \<noteq> []"
  by (simp add: valid_key_def)

lemma valid_key_prefix_free: "valid_key k \<Longrightarrow> valid_key k' \<Longrightarrow> k' = k @ r \<Longrightarrow> r = []"
  by (induction k arbitrary: k') (auto simp: valid_key_Cons valid_key_def [of "[]"])

lemma unat_high_nibble: "unat (drop_bit 4 (b :: byte)) = unat b div 16"
  by (simp only: unsigned_drop_bit_eq) (simp add: drop_bit_eq_div take_bit_eq_mod)

lemma unat_low_nibble: "unat ((b :: byte) AND 0x0F) = unat b mod 16"
  by (simp only: and_0F unsigned_take_bit_eq) (simp add: take_bit_eq_mod)

lemma unat_and_1: "unat ((b :: byte) AND 1) = unat b mod 2"
proof -
  have "b AND 1 = take_bit 1 b" by (simp add: take_bit_eq_mask mask_eq_exp_minus_1)
  then show ?thesis by (simp only: unsigned_take_bit_eq) (simp add: take_bit_eq_mod)
qed

lemma expand_scalar_nibbles: "nibble_list (expand_bytes_to_nibbles_scalar bs)"
proof (induction bs)
  case (Cons b bs)
  have "unat b div 16 < 16" using unat_byte_less [of b] by linarith
  then have "drop_bit 4 b < (16 :: byte)" by (simp only: word_less_nat_alt unat_high_nibble) simp
  moreover have "b AND 0x0F < (16 :: byte)" by (simp only: word_less_nat_alt unat_low_nibble) simp
  ultimately show ?case using Cons by simp
qed simp

lemma from_bytes_valid: "valid_key (n_data (from_bytes bs))"
  by (simp add: from_bytes_def from_raw_def expand_bytes_to_nibbles_def valid_key_snoc
      expand_scalar_nibbles)

section \<open>Round trips\<close>

lemma bit_byte_bound: "bit (b :: byte) n \<Longrightarrow> n < 8"
  using bit_imp_le_length [of b n] by simp

lemma pack_byte: "push_bit 4 (drop_bit 4 b) OR (b AND 0x0F) = (b :: byte)"
  unfolding and_0F by (rule bit_eqI) (auto simp: bit_simps dest: bit_byte_bound)

lemma unpack_byte:
  assumes "(hi :: byte) < 16" "lo < 16"
  shows "drop_bit 4 (push_bit 4 hi OR lo) = hi" "(push_bit 4 hi OR lo) AND 0x0F = lo"
proof -
  have h: "unat hi < 16" and l: "unat lo < 16" using assms by (simp_all add: word_less_nat_alt)
  note u = unat_pack [OF assms]
  show "drop_bit 4 (push_bit 4 hi OR lo) = hi"
    using h l by (simp add: word_unat_eq_iff unat_high_nibble u del: drop_bit_or)
  show "(push_bit 4 hi OR lo) AND 0x0F = lo"
    using h l unfolding word_unat_eq_iff unat_low_nibble u by simp
qed

lemma pack_expand: "pack_nibble_pairs_scalar (expand_bytes_to_nibbles_scalar bs) = bs"
  by (induction bs) (simp_all add: pack_byte)

lemma expand_pack:
  "nibble_list ns \<Longrightarrow> even (length ns) \<Longrightarrow>
     expand_bytes_to_nibbles_scalar (pack_nibble_pairs_scalar ns) = ns"
proof (induction ns rule: pack_nibble_pairs_scalar.induct)
  case (1 hi lo ns)
  then show ?case
    unfolding pack_nibble_pairs_scalar.simps expand_bytes_to_nibbles_scalar.simps
    by (simp only: list.pred_inject unpack_byte) simp
qed simp_all

lemma to_bytes_chunks_expand: "to_bytes_chunks (expand_bytes_to_nibbles_scalar bs) = bs"
  by (induction bs) (simp_all add: pack_byte)

lemma is_leaf_snoc [simp]: "is_leaf (p @ [x]) \<longleftrightarrow> x = 16"
  by (simp add: is_leaf_def nth_append)

lemma is_leaf_nibbles: "nibble_list p \<Longrightarrow> \<not> is_leaf p"
  by (cases p rule: rev_cases) (auto simp: is_leaf_def nth_append)

lemma is_leaf_valid_key: "valid_key k \<Longrightarrow> is_leaf k"
  by (erule valid_keyE) simp

text \<open>The flag byte of a compact path: its high nibble says odd (1) and leaf (2).\<close>

lemma flag_byte:
  assumes "(h :: byte) < 16"
  shows "drop_bit 4 (0x10 + h) = 1" "(0x10 + h) AND 0x0F = h"
    "drop_bit 4 (0x10 + h + 0x20) = 3" "(0x10 + h + 0x20) AND 0x0F = h"
proof -
  have h: "unat h < 16" using assms by (simp add: word_less_nat_alt)
  have a: "unat (0x10 + h) = 16 + unat h"
    using h by (simp add: unat_word_ariths)
  have b: "unat (0x10 + h + 0x20) = 48 + unat h"
    using h a by (simp add: unat_word_ariths)
  have m: "(16 + unat h) mod 16 = unat h" "(48 + unat h) mod 16 = unat h"
    "(16 + unat h) div 16 = 1" "(48 + unat h) div 16 = 3"
    using h mod_mult_self3 [of 3 16 "unat h"] div_mult_self3 [of 16 3 "unat h"] by simp_all
  show "drop_bit 4 (0x10 + h) = 1" "drop_bit 4 (0x10 + h + 0x20) = 3"
    unfolding word_unat_eq_iff unat_high_nibble a b m by simp_all
  show "(0x10 + h) AND 0x0F = h" "(0x10 + h + 0x20) AND 0x0F = h"
    unfolding word_unat_eq_iff unat_low_nibble a b m by simp_all
qed

text \<open>The compact form of nibbles \<open>p\<close>, the flag \<open>t\<close> telling whether the leaf flag follows them.\<close>

lemma encode_compact_conv:
  assumes "nibble_list p"
  shows "encode_compact (p @ (if t then [16] else [])) =
    (if even (length p) then (if t then 0x20 else 0) # pack_nibble_pairs_scalar p
     else (0x10 + hd p + (if t then 0x20 else 0)) # pack_nibble_pairs_scalar (tl p))"
proof -
  have "is_leaf (p @ (if t then [16] else [])) = t" using is_leaf_nibbles [OF assms] by simp
  moreover have "p ! 0 = hd p" "drop (Suc 0) p = tl p" if "odd (length p)"
    using that by (cases p; simp)+
  ultimately show ?thesis
    by (auto simp: encode_compact_def Let_def slice_range_def pack_nibble_pairs_def
        odd_iff_mod_2_eq_one nth_append)
qed

lemma compact_to_hex_Cons:
  "compact_to_hex (f # bs) =
     (let n = unat f div 16; b = expand_bytes_to_nibbles_scalar bs
      in (if even n then [] else [f AND 0x0F]) @ b @ (if n < 2 then [] else [16]))"
proof -
  let ?h = "drop_bit 4 f" and ?b = "expand_bytes_to_nibbles_scalar bs"
  have h: "unat ?h = unat f div 16" by (rule unat_high_nibble)
  have lt: "?h < 2 \<longleftrightarrow> unat f div 16 < 2" unfolding word_less_nat_alt h by simp
  have bit: "unat (?h AND 1) = unat f div 16 mod 2"
    by (simp only: unat_and_1 h)
  have base: "keybytes_to_hex (f # bs) = ?h # (f AND 0x0F) # ?b @ [16]"
    by (simp add: keybytes_to_hex_def expand_bytes_to_nibbles_def)
  consider "unat f div 16 = 0" | "unat f div 16 = 1"
    | "\<not> unat f div 16 < 2" "unat f div 16 mod 2 = 0"
    | "\<not> unat f div 16 < 2" "unat f div 16 mod 2 = 1" by linarith
  then show ?thesis
    unfolding compact_to_hex_def base Let_def nth_Cons_0 bit lt even_iff_mod_2_eq_zero
    by cases simp_all
qed

lemma compact_roundtrip_hex:
  assumes "nibble_list p"
  shows "decode_compact (encode_compact (p @ (if t then [16] else []))) = p @ (if t then [16] else [])"
proof (cases "even (length p)")
  case True
  with assms show ?thesis
    by (simp add: encode_compact_conv decode_compact_def compact_to_hex_Cons expand_pack)
next
  case False
  then obtain h q where p: "p = h # q" by (cases p) auto
  with assms False have q: "nibble_list q" "even (length q)" and h: "h < 16" by simp_all
  have u: "unat (0x10 + h) div 16 = 1" "unat (0x10 + h + 0x20) div 16 = 3"
    using flag_byte(1,3) [OF h] by (simp_all flip: unat_high_nibble)
  have e: "encode_compact (p @ (if t then [16] else [])) =
      (0x10 + h + (if t then 0x20 else 0)) # pack_nibble_pairs_scalar q"
    using encode_compact_conv [OF assms, of t] False by (simp add: p)
  show ?thesis
    unfolding e decode_compact_def compact_to_hex_Cons Let_def expand_pack [OF q]
    using u flag_byte [OF h] by (cases t) (simp_all add: p)
qed

lemma to_bytes_from_raw: "to_bytes (from_raw bs l) = bs"
proof -
  have "\<not> is_leaf (expand_bytes_to_nibbles_scalar bs)"
    by (rule is_leaf_nibbles) (rule expand_scalar_nibbles)
  then show ?thesis
    by (cases l) (simp_all add: to_bytes_def from_raw_def expand_bytes_to_nibbles_def nib_is_empty_def
        nib_len_def to_bytes_chunks_expand Let_def)
qed



end
