(* ===== verification/Trie_Node.thy ===== *)
theory Trie_Node
  imports Nibbles
begin

text \<open>
  Nodes of the Merkle Patricia trie, their hashes, their RLP form and the references between them:
  \<open>src/crates/common/trie/node_hash.rs\<close>, \<open>rlp.rs\<close>, \<open>error.rs\<close> and the \<open>NodeRef\<close> part of
  \<open>node.rs\<close>.  Keccak-256 is the parameter \<open>keccak\<close>; the database is a function from paths to the
  result of \<open>TrieDB::get\<close>.  A \<open>Nibbles\<close> stored inside a node is its data: equality and encoding
  ignore the consumed part and no operation reads it from a stored path.  \<open>Arc\<close> sharing is copy on
  write, so a child is a value; the memoised hash of a \<open>OnceLock\<close> is an option.
\<close>

section \<open>Node hashes\<close>

datatype nhash = Hashed bytes | Inline bytes

primrec as_ref :: "nhash \<Rightarrow> bytes" where
  "as_ref (Inline bs) = bs"
| "as_ref (Hashed h) = h"

text \<open>\<open>H256::from_slice\<close> panics unless it gets 32 bytes.\<close>

definition from_slice :: "bytes \<Rightarrow> rlp_fail + nhash" where
  "from_slice s =
     (if length s < 32 then Inr (Inline s)
      else if length s = 32 then Inr (Hashed s) else Inl Panic)"

definition from_encoded :: "(bytes \<Rightarrow> bytes) \<Rightarrow> bytes \<Rightarrow> nhash" where
  "from_encoded keccak encoded =
     (if length encoded \<ge> 32 then Hashed (keccak encoded) else Inline encoded)"

definition finalize :: "(bytes \<Rightarrow> bytes) \<Rightarrow> nhash \<Rightarrow> bytes" where
  "finalize keccak h = (case h of Inline bs \<Rightarrow> keccak bs | Hashed x \<Rightarrow> x)"

definition hash_is_valid :: "nhash \<Rightarrow> bool" where
  "hash_is_valid h \<longleftrightarrow> \<not> (case h of Inline bs \<Rightarrow> length bs = 0 | Hashed _ \<Rightarrow> False)"

definition encode_hash :: "nhash \<Rightarrow> Encoder \<Rightarrow> Encoder" where
  "encode_hash h e =
     (case h of Inline _ \<Rightarrow> encode_raw (as_ref h) e | Hashed _ \<Rightarrow> encode_bytes (as_ref h) e)"

definition hash_len :: "nhash \<Rightarrow> nat" where
  "hash_len h = (case h of Hashed x \<Rightarrow> length x | Inline bs \<Rightarrow> length bs)"

definition default_hash :: nhash where
  "default_hash = Inline []"

definition length_hash :: "nhash \<Rightarrow> nat" where
  "length_hash h =
     (case h of Hashed _ \<Rightarrow> 33 | Inline bs \<Rightarrow> if length bs = 0 then 1 else length bs)"

definition decode_nhash :: "nhash decoder" where
  "decode_nhash rlp =
     and_then (decode_vec decode_u8 rlp) (\<lambda>(hash, rest).
       if length hash > 32 then Inl (Err InvalidLength)
       else and_then (from_slice hash) (\<lambda>h. Inr (h, rest)))"

section \<open>Nodes\<close>

datatype noderef = RNode node "nhash option" | RHash nhash
  and node = Branch "noderef list" bytes | Extension bytes noderef | Leaf bytes bytes

definition EMPTY_CHOICES :: "noderef list" where
  "EMPTY_CHOICES = replicate 16 (RHash (Inline []))"

definition ref_of_node :: "node \<Rightarrow> noderef" where
  "ref_of_node n = RNode n None"

section \<open>RLP form\<close>

definition branch_child :: "nhash \<Rightarrow> bytes" where
  "branch_child h =
     (case h of Hashed x \<Rightarrow> encode_array x
      | Inline bs \<Rightarrow> if length bs = 0 then [RLP_NULL] else bs)"

definition encode_branch :: "nhash list \<Rightarrow> bytes \<Rightarrow> bytes" where
  "encode_branch hashes v =
     (let value_len = length_slice v;
          payload_len = fold (\<lambda>h acc. acc + length_hash h) hashes value_len
      in encode_length payload_len @ concat (map branch_child hashes) @ encode_slice v)"

definition encode_branch_to_vec :: "nhash list \<Rightarrow> bytes \<Rightarrow> bytes" where
  "encode_branch_to_vec hashes v =
     (let value_len = length_slice v;
          choices_len = fold (\<lambda>h acc. acc + length_hash h) hashes 0;
          payload_len = choices_len + value_len
      in encode_length payload_len @ concat (map branch_child hashes) @ encode_slice v)"

definition encode_extension :: "bytes \<Rightarrow> nhash \<Rightarrow> bytes" where
  "encode_extension pre child_hash =
     Encoder_finish (encode_hash child_hash (encode_bytes (encode_compact pre) (Encoder_new [])))"

definition encode_leaf :: "bytes \<Rightarrow> bytes \<Rightarrow> bytes" where
  "encode_leaf partial v =
     Encoder_finish (encode_bytes v (encode_bytes (encode_compact partial) (Encoder_new [])))"

text \<open>
  \<open>Node::encode\<close> and \<open>NodeRef::compute_hash\<close>.  Computing a hash fills the memo of the children but
  the value it returns is the one below; \<open>memoize_hashes\<close> models the filling.
\<close>

fun encode_node :: "(bytes \<Rightarrow> bytes) \<Rightarrow> node \<Rightarrow> bytes"
  and compute_hash :: "(bytes \<Rightarrow> bytes) \<Rightarrow> noderef \<Rightarrow> nhash" where
  "encode_node keccak (Branch choices v) = encode_branch (map (compute_hash keccak) choices) v"
| "encode_node keccak (Extension pre child) = encode_extension pre (compute_hash keccak child)"
| "encode_node keccak (Leaf partial v) = encode_leaf partial v"
| "compute_hash keccak (RNode n (Some h)) = h"
| "compute_hash keccak (RNode n None) = from_encoded keccak (encode_node keccak n)"
| "compute_hash keccak (RHash h) = h"

definition node_compute_hash :: "(bytes \<Rightarrow> bytes) \<Rightarrow> node \<Rightarrow> nhash" where
  "node_compute_hash keccak n = from_encoded keccak (encode_node keccak n)"

fun collect_items :: "nat \<Rightarrow> Decoder \<Rightarrow> bytes list \<Rightarrow> rlp_fail + (bytes list \<times> Decoder)" where
  "collect_items 0 decoder items = Inr (items, decoder)"
| "collect_items (Suc slots) decoder items =
     (if is_done decoder then Inr (items, decoder)
      else and_then (get_encoded_item decoder) (\<lambda>(item, decoder).
        collect_items slots decoder (items @ [item])))"

definition decode_child :: "bytes \<Rightarrow> rlp_fail + nhash" where
  "decode_child rlp =
     (case decode_bytes rlp of
        Inr (hash, rest) \<Rightarrow>
          if rest = [] \<and> length hash = 32 then from_slice hash
          else if rest = [] \<and> hash = [] then Inr default_hash
          else from_slice rlp
      | Inl _ \<Rightarrow> from_slice rlp)"

fun decode_children :: "bytes list \<Rightarrow> rlp_fail + noderef list" where
  "decode_children [] = Inr []"
| "decode_children (item # items) =
     and_then (decode_child item) (\<lambda>h.
       and_then (decode_children items) (\<lambda>cs. Inr (RHash h # cs)))"

fun nat_str :: "nat \<Rightarrow> string" where
  "nat_str n =
     (if n < 10 then [char_of (48 + n)] else nat_str (n div 10) @ [char_of (48 + n mod 10)])"

definition decode_node :: "node decoder" where
  "decode_node rlp =
     and_then (Decoder_new rlp) (\<lambda>decoder.
       and_then (collect_items 17 decoder []) (\<lambda>(items, decoder).
         if \<not> is_done decoder then
           Inl (Err (Custom ''Invalid arg count for Node, expected 2 or 17, got more than 17''))
         else and_then
           (if length items = 2 then
              and_then (decode_bytes (items ! 0)) (\<lambda>(path, _).
                let path = decode_compact path in
                if is_leaf path then
                  and_then (decode_bytes (items ! 1)) (\<lambda>(v, _). Inr (Leaf path v))
                else and_then (decode_child (items ! 1)) (\<lambda>h. Inr (Extension path (RHash h))))
            else if length items = 17 then
              and_then (decode_children (take 16 items)) (\<lambda>choices.
                and_then (decode_bytes (items ! 16)) (\<lambda>(v, _). Inr (Branch choices v)))
            else Inl (Err (Custom (''Invalid arg count for Node, expected 2 or 17, got '' @
                                     nat_str (length items)))))
           (\<lambda>n. and_then (Decoder_finish decoder) (\<lambda>rest. Inr (n, rest)))))"

section \<open>Errors and the database\<close>

text \<open>The payloads of the inconsistency errors only feed messages; they are left out.\<close>

datatype inconsistent_tree_error =
    ExtensionNodeChildDiffers
  | ExtensionNodeChildNotFound
  | NodeNotFoundOnBranchNode
  | RootNotFound
  | RootNotFoundNoHash

datatype trie_error =
    RLPDecode rlp_decode_error
  | Verify string
  | InconsistentTree inconsistent_tree_error
  | LockError
  | DbError string
  | InvalidInput

datatype trie_fail = TErr trie_error | TPanic | TLoops

definition of_rlp_fail :: "rlp_fail \<Rightarrow> trie_fail" where
  "of_rlp_fail f = (case f of Err e \<Rightarrow> TErr (RLPDecode e) | Panic \<Rightarrow> TPanic | Loops \<Rightarrow> TLoops)"

type_synonym trie_db = "bytes \<Rightarrow> trie_fail + bytes option"

section \<open>References\<close>

definition stored_node :: "trie_db \<Rightarrow> Nibbles \<Rightarrow> trie_fail + node option" where
  "stored_node db path =
     and_then (db (n_data path)) (\<lambda>rlp.
       case rlp of
         None \<Rightarrow> Inr None
       | Some rlp \<Rightarrow> if rlp = [] then Inr None
                     else and_then (map_err of_rlp_fail (decode decode_node rlp)) (\<lambda>n. Inr (Some n)))"

definition get_node :: "trie_db \<Rightarrow> noderef \<Rightarrow> Nibbles \<Rightarrow> trie_fail + node option" where
  "get_node db r path =
     (case r of
        RNode n _ \<Rightarrow> Inr (Some n)
      | RHash (Inline bs) \<Rightarrow>
          and_then (map_err of_rlp_fail (decode decode_node bs)) (\<lambda>n. Inr (Some n))
      | RHash (Hashed _) \<Rightarrow> stored_node db path)"

definition get_node_checked ::
  "(bytes \<Rightarrow> bytes) \<Rightarrow> trie_db \<Rightarrow> noderef \<Rightarrow> Nibbles \<Rightarrow> trie_fail + node option" where
  "get_node_checked keccak db r path =
     (case r of
        RNode n _ \<Rightarrow> Inr (Some n)
      | RHash (Inline bs) \<Rightarrow>
          and_then (map_err of_rlp_fail (decode decode_node bs)) (\<lambda>n. Inr (Some n))
      | RHash (Hashed h) \<Rightarrow>
          and_then (stored_node db path) (\<lambda>n.
            case n of None \<Rightarrow> Inr None
            | Some n \<Rightarrow> Inr (if node_compute_hash keccak n = Hashed h then Some n else None)))"

text \<open>
  \<open>get_node_mut\<close> replaces a hash by the node it stands for, memoising the hash; the result is the
  node and the memo the reference then has.
\<close>

definition get_node_mut ::
  "trie_db \<Rightarrow> noderef \<Rightarrow> Nibbles \<Rightarrow> trie_fail + (node \<times> nhash option) option" where
  "get_node_mut db r path =
     (case r of
        RNode n h \<Rightarrow> Inr (Some (n, h))
      | RHash (Inline bs) \<Rightarrow>
          and_then (map_err of_rlp_fail (decode decode_node bs)) (\<lambda>n.
            Inr (Some (n, Some (Inline bs))))
      | RHash (Hashed h) \<Rightarrow>
          and_then (stored_node db path) (\<lambda>n.
            Inr (map_option (\<lambda>n. (n, Some (Hashed h))) n)))"

definition is_valid :: "noderef \<Rightarrow> bool" where
  "is_valid r = (case r of RNode _ _ \<Rightarrow> True | RHash h \<Rightarrow> hash_is_valid h)"

definition clear_hash :: "noderef \<Rightarrow> noderef" where
  "clear_hash r = (case r of RNode n _ \<Rightarrow> RNode n None | RHash h \<Rightarrow> RHash h)"

fun memoize_hashes :: "(bytes \<Rightarrow> bytes) \<Rightarrow> noderef \<Rightarrow> noderef"
  and node_memoize_hashes :: "(bytes \<Rightarrow> bytes) \<Rightarrow> node \<Rightarrow> node" where
  "memoize_hashes keccak (RNode n None) =
     (let n' = node_memoize_hashes keccak n in RNode n' (Some (node_compute_hash keccak n')))"
| "memoize_hashes keccak (RNode n (Some h)) = RNode n (Some h)"
| "memoize_hashes keccak (RHash h) = RHash h"
| "node_memoize_hashes keccak (Branch choices v) = Branch (map (memoize_hashes keccak) choices) v"
| "node_memoize_hashes keccak (Extension pre child) = Extension pre (memoize_hashes keccak child)"
| "node_memoize_hashes keccak (Leaf partial v) = Leaf partial v"

type_synonym trie_node_entry = "bytes \<times> bytes"

function (sequential) commit :: "(bytes \<Rightarrow> bytes) \<Rightarrow> noderef \<Rightarrow> bytes \<Rightarrow> trie_node_entry list
    \<Rightarrow> nhash \<times> noderef \<times> trie_node_entry list"
  and commit_node :: "(bytes \<Rightarrow> bytes) \<Rightarrow> node \<Rightarrow> bytes \<Rightarrow> trie_node_entry list
    \<Rightarrow> node \<times> trie_node_entry list"
  and commit_choices :: "(bytes \<Rightarrow> bytes) \<Rightarrow> noderef list \<Rightarrow> nat \<Rightarrow> bytes \<Rightarrow> trie_node_entry list
    \<Rightarrow> noderef list \<times> trie_node_entry list" where
  "commit keccak (RNode n (Some h)) path acc = (h, RNode n (Some h), acc)"
| "commit keccak (RNode n None) path acc =
     (let (n', acc) = commit_node keccak n path acc;
          buf = encode_node keccak n';
          h = from_encoded keccak buf;
          acc = (case n' of Leaf partial v \<Rightarrow> acc @ [(path @ partial, v)] | _ \<Rightarrow> acc)
      in (h, RNode n' (Some h), acc @ [(path, buf)]))"
| "commit keccak (RHash h) path acc = (h, RHash h, acc)"
| "commit_node keccak (Branch choices v) path acc =
     (let (choices', acc) = commit_choices keccak choices 0 path acc in (Branch choices' v, acc))"
| "commit_node keccak (Extension pre child) path acc =
     (let (_, child', acc) = commit keccak child (path @ pre) acc in (Extension pre child', acc))"
| "commit_node keccak (Leaf partial v) path acc = (Leaf partial v, acc)"
| "commit_choices keccak [] i path acc = ([], acc)"
| "commit_choices keccak (c # cs) i path acc =
     (let (_, c', acc) = commit keccak c (path @ [word_of_nat i]) acc;
          (cs', acc) = commit_choices keccak cs (Suc i) path acc
      in (c' # cs', acc))"
  by pat_completeness auto

termination
  by (relation "measure (\<lambda>x. case x of Inl (_, r, _, _) \<Rightarrow> size r
        | Inr (Inl (_, n, _, _)) \<Rightarrow> size n | Inr (Inr (_, cs, _, _, _)) \<Rightarrow> size_list size cs)") auto

lemma fold_length_hash:
  "fold (\<lambda>h acc. acc + length_hash h) hashes a = a + sum_list (map length_hash hashes)"
  by (induction hashes arbitrary: a) simp_all

lemma encode_branch_to_vec_eq: "encode_branch_to_vec hashes v = encode_branch hashes v"
  by (simp add: encode_branch_def encode_branch_to_vec_def fold_length_hash add.commute)

end
