(* ===== verification/Trie_Ops.thy ===== *)
theory Trie_Ops
  imports Trie_Node
begin

text \<open>
  Lookup, insertion and removal in the trie: \<open>src/crates/common/trie/node/branch.rs\<close>,
  \<open>extension.rs\<close>, \<open>leaf.rs\<close>, the \<open>Node\<close> dispatchers of \<open>node.rs\<close> and the \<open>Trie\<close> methods of
  \<open>trie.rs\<close>.  The per-variant functions take the recursive call on a child as an argument; the
  dispatchers \<open>node_get\<close>, \<open>node_insert\<close>, \<open>node_remove\<close> and \<open>node_get_path\<close> close the recursion with
  fuel, because children come from the database and a malformed one could send the traversal in
  circles; running out is \<open>TLoops\<close>.  A mutating method returns the node it leaves behind.
\<close>

datatype value_or_hash = Value bytes | ExtHash nhash

section \<open>Leaf nodes\<close>

definition leaf_get :: "bytes \<Rightarrow> bytes \<Rightarrow> Nibbles \<Rightarrow> trie_fail + bytes option" where
  "leaf_get partial v path = (if partial = n_data path then Inr (Some v) else Inr None)"

definition override_msg :: string where
  "override_msg = ''attempt to override proof node with external hash''"

definition new_child :: "Nibbles \<Rightarrow> nat \<Rightarrow> value_or_hash \<Rightarrow> trie_fail + noderef" where
  "new_child path match_index v =
     (case v of
        Value v \<Rightarrow> and_then (ok_or (nib_offset path (match_index + 1)) TPanic) (\<lambda>p.
                     Inr (ref_of_node (Leaf (n_data p) v)))
      | ExtHash h \<Rightarrow> Inr (RHash h))"

definition leaf_insert :: "bytes \<Rightarrow> bytes \<Rightarrow> Nibbles \<Rightarrow> value_or_hash \<Rightarrow> trie_fail + node" where
  "leaf_insert partial self_value path v =
     (if partial = n_data path then
        (case v of Value v \<Rightarrow> Inr (Leaf partial v)
         | ExtHash _ \<Rightarrow> Inl (TErr (Verify override_msg)))
      else
        let match_index = count_prefix (n_data path) partial in
        and_then (ok_or (nib_at (from_hex partial) match_index) TPanic) (\<lambda>self_choice_idx.
        and_then (ok_or (nib_at path match_index) TPanic) (\<lambda>new_leaf_choice_idx.
        and_then (ok_or (nib_offset (from_hex partial) (match_index + 1)) TPanic) (\<lambda>partial'.
        let self_child = ref_of_node (Leaf (n_data partial') self_value) in
        and_then
          (if self_choice_idx = 16 then
             and_then (new_child path match_index v) (\<lambda>c.
               if new_leaf_choice_idx < 16
               then Inr (Branch (EMPTY_CHOICES[new_leaf_choice_idx := c]) self_value)
               else Inl TPanic)
           else if new_leaf_choice_idx = 16 then
             (if self_choice_idx < 16
              then (case v of
                      Value v \<Rightarrow> Inr (Branch (EMPTY_CHOICES[self_choice_idx := self_child]) v)
                    | ExtHash _ \<Rightarrow> Inl TPanic)
              else Inl TPanic)
           else
             and_then (new_child path match_index v) (\<lambda>c.
               if new_leaf_choice_idx < 16 \<and> self_choice_idx < 16
               then Inr (Branch (EMPTY_CHOICES[new_leaf_choice_idx := c,
                                               self_choice_idx := self_child]) [])
               else Inl TPanic))
          (\<lambda>branch_node.
             if match_index = 0 then Inr branch_node
             else and_then (ok_or (nib_slice path 0 match_index) TPanic) (\<lambda>p.
               Inr (Extension (n_data p) (ref_of_node branch_node))))))))"

text \<open>\<open>NodeRemoveResult\<close>; the removing methods also return the mutated receiver.\<close>

datatype node_remove_result = Mutated | New node

type_synonym removal = "node_remove_result option \<times> bytes option \<times> node"

definition leaf_remove :: "bytes \<Rightarrow> bytes \<Rightarrow> Nibbles \<Rightarrow> trie_fail + removal" where
  "leaf_remove partial v path =
     (if partial = n_data path then Inr (None, Some v, Leaf partial [])
      else Inr (Some Mutated, None, Leaf partial v))"

section \<open>Branch nodes\<close>

definition branch_get ::
  "(node \<Rightarrow> Nibbles \<Rightarrow> trie_fail + bytes option) \<Rightarrow> trie_db \<Rightarrow> noderef list \<Rightarrow> bytes \<Rightarrow> Nibbles
    \<Rightarrow> trie_fail + bytes option" where
  "branch_get child_get db choices v path =
     (case next_choice path of
        (Some choice, path) \<Rightarrow>
          let child_ref = choices ! choice in
          if is_valid child_ref then
            and_then (get_node db child_ref (current path)) (\<lambda>child_node.
              and_then (ok_or child_node (TErr (InconsistentTree NodeNotFoundOnBranchNode)))
                (\<lambda>child_node. child_get child_node path))
          else Inr None
      | (None, _) \<Rightarrow> Inr (if v \<noteq> [] then Some v else None))"

definition insert_into_child ::
  "(node \<Rightarrow> Nibbles \<Rightarrow> value_or_hash \<Rightarrow> trie_fail + node) \<Rightarrow> trie_db \<Rightarrow> noderef \<Rightarrow> Nibbles
    \<Rightarrow> value_or_hash \<Rightarrow> trie_fail + noderef" where
  "insert_into_child child_insert db choice_ref path v =
     and_then (get_node_mut db choice_ref (current path)) (\<lambda>choice_node.
       case choice_node of
         None \<Rightarrow> Inl (TErr (InconsistentTree NodeNotFoundOnBranchNode))
       | Some (choice_node, h) \<Rightarrow>
           and_then (child_insert choice_node path v) (\<lambda>choice_node.
             Inr (clear_hash (RNode choice_node h))))"

definition branch_insert ::
  "(node \<Rightarrow> Nibbles \<Rightarrow> value_or_hash \<Rightarrow> trie_fail + node) \<Rightarrow> trie_db \<Rightarrow> noderef list \<Rightarrow> bytes
    \<Rightarrow> Nibbles \<Rightarrow> value_or_hash \<Rightarrow> trie_fail + node" where
  "branch_insert child_insert db choices self_value path v =
     (case next_choice path of
        (Some choice, path) \<Rightarrow>
          let choice_ref = choices ! choice in
          (case v of
             Value value \<Rightarrow>
               if \<not> is_valid choice_ref
               then Inr (Branch (choices[choice := ref_of_node (Leaf (n_data path) value)]) self_value)
               else and_then (insert_into_child child_insert db choice_ref path v) (\<lambda>r.
                 Inr (Branch (choices[choice := r]) self_value))
           | ExtHash h \<Rightarrow>
               if \<not> is_valid choice_ref then Inr (Branch (choices[choice := RHash h]) self_value)
               else if nib_is_empty path then Inl (TErr (Verify override_msg))
               else and_then (insert_into_child child_insert db choice_ref path v) (\<lambda>r.
                 Inr (Branch (choices[choice := r]) self_value)))
      | (None, _) \<Rightarrow>
          (case v of Value value \<Rightarrow> Inr (Branch choices value) | ExtHash _ \<Rightarrow> Inl TPanic))"

definition valid_children :: "noderef list \<Rightarrow> (nat \<times> noderef) list" where
  "valid_children choices = filter (\<lambda>(_, c). is_valid c) (enumerate 0 choices)"

definition branch_restructure ::
  "trie_db \<Rightarrow> noderef list \<Rightarrow> bytes \<Rightarrow> Nibbles \<Rightarrow> bytes option \<Rightarrow> trie_fail + removal" where
  "branch_restructure db choices self_value base_path value =
     (let children = valid_children choices in
      if length children = 0 \<and> self_value \<noteq> [] then
        Inr (Some (New (Leaf [16] self_value)), value, Branch choices [])
      else if length children = 1 \<and> self_value = [] then
        let (choice_index, child_ref) = children ! 0 in
        and_then (get_node_mut db child_ref (append_new (current base_path) (word_of_nat choice_index)))
          (\<lambda>child.
             case child of
               None \<Rightarrow> Inl (TErr (InconsistentTree NodeNotFoundOnBranchNode))
             | Some (child, h) \<Rightarrow>
                 let idx = word_of_nat choice_index in
                 Inr (Some (New (case child of
                        Branch _ _ \<Rightarrow> Extension [idx] (RNode child h)
                      | Extension pre c \<Rightarrow> Extension (idx # pre) c
                      | Leaf partial v \<Rightarrow> Leaf (idx # partial) v)),
                      value, Branch (choices[choice_index := RNode child h]) self_value))
      else Inr (Some Mutated, value, Branch choices self_value))"

definition branch_remove ::
  "(node \<Rightarrow> Nibbles \<Rightarrow> trie_fail + (bool \<times> bytes option \<times> node)) \<Rightarrow> trie_db \<Rightarrow> noderef list \<Rightarrow> bytes
    \<Rightarrow> Nibbles \<Rightarrow> trie_fail + removal" where
  "branch_remove child_remove db choices self_value path =
     (let base_path = path in
      and_then
        (case next_choice path of
           (Some choice_index, path) \<Rightarrow>
             if is_valid (choices ! choice_index) then
               and_then (get_node_mut db (choices ! choice_index) (current path)) (\<lambda>child_node.
                 case child_node of
                   None \<Rightarrow> Inl (TErr (InconsistentTree NodeNotFoundOnBranchNode))
                 | Some (child_node, h) \<Rightarrow>
                     and_then (child_remove child_node path) (\<lambda>(empty_trie, old_value, child_node).
                       Inr (choices[choice_index := clear_hash
                              (if empty_trie then RHash default_hash else RNode child_node h)],
                            self_value, old_value)))
             else Inr (choices, self_value, None)
         | (None, _) \<Rightarrow>
             if self_value \<noteq> [] then Inr (choices, [], Some self_value)
             else Inr (choices, self_value, None))
        (\<lambda>(choices, self_value, value). branch_restructure db choices self_value base_path value))"

section \<open>Extension nodes\<close>

definition extension_get ::
  "(node \<Rightarrow> Nibbles \<Rightarrow> trie_fail + bytes option) \<Rightarrow> trie_db \<Rightarrow> bytes \<Rightarrow> noderef \<Rightarrow> Nibbles
    \<Rightarrow> trie_fail + bytes option" where
  "extension_get child_get db pre child path =
     (case skip_prefix path pre of
        (True, path) \<Rightarrow>
          and_then (get_node db child (current path)) (\<lambda>child_node.
            and_then (ok_or child_node (TErr (InconsistentTree ExtensionNodeChildNotFound)))
              (\<lambda>child_node. child_get child_node path))
      | (False, _) \<Rightarrow> Inr None)"

text \<open>
  The recursive \<open>new_extension.insert(..).unwrap_or(new_extension)\<close> of the partial match is the
  insertion into the extension node seen as a \<open>Node\<close>, the argument \<open>child_insert\<close>.
\<close>

definition extension_insert ::
  "(node \<Rightarrow> Nibbles \<Rightarrow> value_or_hash \<Rightarrow> trie_fail + node) \<Rightarrow> trie_db \<Rightarrow> bytes \<Rightarrow> noderef \<Rightarrow> Nibbles
    \<Rightarrow> value_or_hash \<Rightarrow> trie_fail + node" where
  "extension_insert child_insert db pre child path v =
     (let match_index = count_prefix (n_data path) pre in
      if match_index = length pre then
        and_then (ok_or (nib_offset path match_index) TPanic) (\<lambda>path.
        and_then (get_node_mut db child (current path)) (\<lambda>child_node.
          case child_node of
            None \<Rightarrow> Inl (TErr (InconsistentTree ExtensionNodeChildNotFound))
          | Some (child_node, h) \<Rightarrow>
              and_then (child_insert child_node path v) (\<lambda>child_node.
                Inr (Extension pre (clear_hash (RNode child_node h))))))
      else if match_index = 0 then
        and_then (if length pre = 1 then Inr child
                  else and_then (ok_or (nib_offset (from_hex pre) 1) TPanic) (\<lambda>p.
                    Inr (ref_of_node (Extension (n_data p) child)))) (\<lambda>new_node.
        and_then (ok_or (nib_at (from_hex pre) 0) TPanic) (\<lambda>first.
        and_then
          (if first = 16 then
             and_then (get_node_mut db new_node (current path)) (\<lambda>n.
               case n of
                 Some (Leaf _ leaf_value, _) \<Rightarrow> Inr (EMPTY_CHOICES, leaf_value)
               | Some _ \<Rightarrow> Inl (TErr (InconsistentTree ExtensionNodeChildDiffers))
               | None \<Rightarrow> Inl (TErr (InconsistentTree ExtensionNodeChildNotFound)))
           else if first < 16 then Inr (EMPTY_CHOICES[first := new_node], [])
           else Inl TPanic)
          (\<lambda>(choices, branch_value). branch_insert child_insert db choices branch_value path v)))
      else
        and_then (ok_or (nib_offset (from_hex pre) match_index) TPanic) (\<lambda>rest.
        and_then (ok_or (nib_offset path match_index) TPanic) (\<lambda>path'.
        and_then (child_insert (Extension (n_data rest) child) path' v) (\<lambda>new_node.
        and_then (ok_or (nib_slice (from_hex pre) 0 match_index) TPanic) (\<lambda>p.
          Inr (Extension (n_data p) (ref_of_node new_node)))))))"

definition extension_remove ::
  "(node \<Rightarrow> Nibbles \<Rightarrow> trie_fail + (bool \<times> bytes option \<times> node)) \<Rightarrow> trie_db \<Rightarrow> bytes \<Rightarrow> noderef
    \<Rightarrow> Nibbles \<Rightarrow> trie_fail + removal" where
  "extension_remove child_remove db pre child path =
     (case skip_prefix path pre of
        (True, path) \<Rightarrow>
          and_then (get_node_mut db child (current path)) (\<lambda>child_node.
            case child_node of
              None \<Rightarrow> Inl (TErr (InconsistentTree ExtensionNodeChildNotFound))
            | Some (child_node, h) \<Rightarrow>
                and_then (child_remove child_node path) (\<lambda>(empty_trie, old_value, child_node).
                  if empty_trie
                  then Inr (None, old_value, Extension pre (clear_hash (RNode child_node h)))
                  else case child_node of
                    Branch _ _ \<Rightarrow>
                      Inr (Some Mutated, old_value, Extension pre (clear_hash (ref_of_node child_node)))
                  | Extension pre' c \<Rightarrow>
                      Inr (Some (New (Extension (pre @ pre') c)), old_value,
                           Extension [] (clear_hash (RNode (Extension [] c) h)))
                  | Leaf partial v \<Rightarrow>
                      Inr (Some (New (Leaf (pre @ partial) v)), old_value,
                           Extension [] (clear_hash (RNode (Leaf [] []) h)))))
      | (False, _) \<Rightarrow> Inr (Some Mutated, None, Extension pre child))"

section \<open>Dispatch\<close>

fun node_get :: "nat \<Rightarrow> trie_db \<Rightarrow> node \<Rightarrow> Nibbles \<Rightarrow> trie_fail + bytes option" where
  "node_get 0 db n path = Inl TLoops"
| "node_get (Suc fuel) db n path =
     (case n of
        Branch choices v \<Rightarrow> branch_get (node_get fuel db) db choices v path
      | Extension pre child \<Rightarrow> extension_get (node_get fuel db) db pre child path
      | Leaf partial v \<Rightarrow> leaf_get partial v path)"

fun node_insert :: "nat \<Rightarrow> trie_db \<Rightarrow> node \<Rightarrow> Nibbles \<Rightarrow> value_or_hash \<Rightarrow> trie_fail + node" where
  "node_insert 0 db n path v = Inl TLoops"
| "node_insert (Suc fuel) db n path v =
     (case n of
        Branch choices self_value \<Rightarrow> branch_insert (node_insert fuel db) db choices self_value path v
      | Extension pre child \<Rightarrow> extension_insert (node_insert fuel db) db pre child path v
      | Leaf partial self_value \<Rightarrow> leaf_insert partial self_value path v)"

definition removal_outcome :: "removal \<Rightarrow> bool \<times> bytes option \<times> node" where
  "removal_outcome = (\<lambda>(new_root, value, self').
     (new_root = None, value, case new_root of Some (New n) \<Rightarrow> n | _ \<Rightarrow> self'))"

fun node_remove :: "nat \<Rightarrow> trie_db \<Rightarrow> node \<Rightarrow> Nibbles \<Rightarrow> trie_fail + (bool \<times> bytes option \<times> node)" where
  "node_remove 0 db n path = Inl TLoops"
| "node_remove (Suc fuel) db n path =
     and_then
       (case n of
          Branch choices v \<Rightarrow> branch_remove (node_remove fuel db) db choices v path
        | Extension pre child \<Rightarrow> extension_remove (node_remove fuel db) db pre child path
        | Leaf partial v \<Rightarrow> leaf_remove partial v path)
       (\<lambda>r. Inr (removal_outcome r))"

section \<open>Proof paths\<close>

definition push_encoded :: "bytes \<Rightarrow> bytes list \<Rightarrow> bytes list" where
  "push_encoded encoded node_path =
     (if length encoded \<ge> 32 then node_path @ [encoded] else node_path)"

definition branch_get_path ::
  "(bytes \<Rightarrow> bytes) \<Rightarrow> (node \<Rightarrow> Nibbles \<Rightarrow> bytes list \<Rightarrow> trie_fail + bytes list) \<Rightarrow> trie_db
    \<Rightarrow> noderef list \<Rightarrow> bytes \<Rightarrow> Nibbles \<Rightarrow> bytes list \<Rightarrow> trie_fail + bytes list" where
  "branch_get_path keccak child_path db choices v path node_path =
     (let node_path = push_encoded (encode_node keccak (Branch choices v)) node_path in
      case next_choice path of
        (Some choice, path) \<Rightarrow>
          let child_ref = choices ! choice in
          if is_valid child_ref then
            and_then (get_node db child_ref (current path)) (\<lambda>child_node.
              and_then (ok_or child_node (TErr (InconsistentTree NodeNotFoundOnBranchNode)))
                (\<lambda>child_node. child_path child_node path node_path))
          else Inr node_path
      | (None, _) \<Rightarrow> Inr node_path)"

definition extension_get_path ::
  "(bytes \<Rightarrow> bytes) \<Rightarrow> (node \<Rightarrow> Nibbles \<Rightarrow> bytes list \<Rightarrow> trie_fail + bytes list) \<Rightarrow> trie_db
    \<Rightarrow> bytes \<Rightarrow> noderef \<Rightarrow> Nibbles \<Rightarrow> bytes list \<Rightarrow> trie_fail + bytes list" where
  "extension_get_path keccak child_path db pre child path node_path =
     (let node_path = push_encoded (encode_node keccak (Extension pre child)) node_path in
      case skip_prefix path pre of
        (True, path) \<Rightarrow>
          and_then (get_node db child (current path)) (\<lambda>child_node.
            and_then (ok_or child_node (TErr (InconsistentTree ExtensionNodeChildNotFound)))
              (\<lambda>child_node. child_path child_node path node_path))
      | (False, _) \<Rightarrow> Inr node_path)"

fun node_get_path ::
  "nat \<Rightarrow> (bytes \<Rightarrow> bytes) \<Rightarrow> trie_db \<Rightarrow> node \<Rightarrow> Nibbles \<Rightarrow> bytes list \<Rightarrow> trie_fail + bytes list" where
  "node_get_path 0 keccak db n path node_path = Inl TLoops"
| "node_get_path (Suc fuel) keccak db n path node_path =
     (case n of
        Branch choices v \<Rightarrow>
          branch_get_path keccak (node_get_path fuel keccak db) db choices v path node_path
      | Extension pre child \<Rightarrow>
          extension_get_path keccak (node_get_path fuel keccak db) db pre child path node_path
      | Leaf partial v \<Rightarrow> Inr (push_encoded (encode_node keccak (Leaf partial v)) node_path))"

section \<open>The trie\<close>

text \<open>
  The hash sets \<open>pending_removal\<close> and \<open>dirty\<close> compare paths by their data; their iteration order,
  which is unspecified, is represented by the order of insertion.  \<open>flat\<close> is the backend's
  \<open>flatkeyvalue_computed\<close>.  One node of a well-formed trie consumes at least one nibble, except the
  second half of a split extension, so two steps beyond the length of the path are enough fuel.
\<close>

record trie =
  root :: noderef
  pending_removal :: "bytes list"
  dirty :: "bytes list"

definition EMPTY_TRIE_HASH :: bytes where
  "EMPTY_TRIE_HASH =
     [0x56, 0xe8, 0x1f, 0x17, 0x1b, 0xcc, 0x55, 0xa6, 0xff, 0x83, 0x45, 0xe6, 0x92, 0xc0, 0xf8, 0x6e,
      0x5b, 0x48, 0xe0, 0x1b, 0x99, 0x6c, 0xad, 0xc0, 0x01, 0x62, 0x2f, 0xb5, 0xe3, 0x63, 0xb4, 0x21]"

definition path_fuel :: "Nibbles \<Rightarrow> nat" where
  "path_fuel path = nib_len path + 2"

definition trie_new :: trie where
  "trie_new = \<lparr> root = RHash default_hash, pending_removal = [], dirty = [] \<rparr>"

definition trie_open :: "bytes \<Rightarrow> trie" where
  "trie_open root_hash =
     \<lparr> root = (if root_hash \<noteq> EMPTY_TRIE_HASH then RHash (Hashed root_hash) else RHash default_hash),
       pending_removal = [], dirty = [] \<rparr>"

definition trie_get :: "trie_db \<Rightarrow> (bytes \<Rightarrow> bool) \<Rightarrow> trie \<Rightarrow> bytes \<Rightarrow> trie_fail + bytes option" where
  "trie_get db flat t pathrlp =
     (let path = from_bytes pathrlp in
      if n_data path \<notin> set (dirty t) \<and> flat (n_data path) then
        and_then (db (n_data path)) (\<lambda>value_rlp.
          Inr (case value_rlp of None \<Rightarrow> None | Some v \<Rightarrow> if v = [] then None else Some v))
      else case root t of
        RNode n _ \<Rightarrow> node_get (path_fuel path) db n path
      | RHash h \<Rightarrow>
          if hash_is_valid h then
            and_then (db []) (\<lambda>rlp.
            and_then (ok_or rlp (TErr (InconsistentTree RootNotFound))) (\<lambda>rlp.
            and_then (map_err of_rlp_fail (decode decode_node rlp)) (\<lambda>n.
              node_get (path_fuel path) db n path)))
          else Inr None)"

definition root_mut :: "trie_db \<Rightarrow> trie \<Rightarrow> trie_fail + (node \<times> nhash option)" where
  "root_mut db t =
     and_then (get_node_mut db (root t) (from_hex [])) (\<lambda>n.
       ok_or n (TErr (InconsistentTree RootNotFoundNoHash)))"

definition trie_insert :: "trie_db \<Rightarrow> trie \<Rightarrow> bytes \<Rightarrow> bytes \<Rightarrow> trie_fail + trie" where
  "trie_insert db t pathrlp v =
     (let path = from_bytes pathrlp;
          t = t \<lparr> pending_removal := removeAll (n_data path) (pending_removal t),
                  dirty := List.insert (n_data path) (dirty t) \<rparr>
      in and_then
           (if is_valid (root t) then
              and_then (root_mut db t) (\<lambda>(n, h).
                and_then (node_insert (path_fuel path) db n path (Value v)) (\<lambda>n. Inr (RNode n h)))
            else Inr (ref_of_node (Leaf (n_data path) v)))
           (\<lambda>r. Inr (t \<lparr> root := clear_hash r \<rparr>)))"

definition trie_remove :: "trie_db \<Rightarrow> trie \<Rightarrow> bytes \<Rightarrow> trie_fail + (bytes option \<times> trie)" where
  "trie_remove db t pathrlp =
     (let path = from_bytes pathrlp;
          t = t \<lparr> dirty := List.insert (n_data path) (dirty t) \<rparr>
      in if \<not> is_valid (root t) then Inr (None, t)
         else
           let t = t \<lparr> pending_removal := List.insert (n_data path) (pending_removal t) \<rparr> in
           and_then (root_mut db t) (\<lambda>(n, h).
           and_then (node_remove (path_fuel path) db n path) (\<lambda>(is_trie_empty, v, n).
             Inr (v, t \<lparr> root := if is_trie_empty then RHash default_hash
                                 else clear_hash (RNode n h) \<rparr>))))"

definition hash_no_commit :: "(bytes \<Rightarrow> bytes) \<Rightarrow> trie \<Rightarrow> bytes \<times> trie" where
  "hash_no_commit keccak t =
     (if is_valid (root t)
      then (finalize keccak (compute_hash keccak (root t)),
            t \<lparr> root := memoize_hashes keccak (root t) \<rparr>)
      else (EMPTY_TRIE_HASH, t))"

definition commit_without_storing ::
  "(bytes \<Rightarrow> bytes) \<Rightarrow> trie \<Rightarrow> trie_node_entry list \<times> trie" where
  "commit_without_storing keccak t =
     (let (r, acc) = (if is_valid (root t)
                      then (let (_, r, acc) = commit keccak (root t) [] [] in (r, acc))
                      else (root t, []));
          acc = (if compute_hash keccak r = Hashed EMPTY_TRIE_HASH then acc @ [([], [RLP_NULL])]
                 else acc);
          acc = acc @ map (\<lambda>nib. (nib, [])) (pending_removal t)
      in (acc, t \<lparr> root := r, pending_removal := [] \<rparr>))"

definition collect_changes_since_last_hash ::
  "(bytes \<Rightarrow> bytes) \<Rightarrow> trie \<Rightarrow> bytes \<times> trie_node_entry list \<times> trie" where
  "collect_changes_since_last_hash keccak t =
     (let (updates, t) = commit_without_storing keccak t;
          (ret_hash, t) = hash_no_commit keccak t
      in (ret_hash, updates, t))"

text \<open>The in-memory backend: \<open>InMemoryTrieDB\<close> without a key prefix.\<close>

type_synonym node_map = "bytes \<rightharpoonup> bytes"

definition mem_get :: "node_map \<Rightarrow> trie_db" where
  "mem_get m key = Inr (m key)"

primrec mem_put_batch :: "node_map \<Rightarrow> trie_node_entry list \<Rightarrow> node_map" where
  "mem_put_batch m [] = m"
| "mem_put_batch m (kv # kvs) = mem_put_batch (m(fst kv \<mapsto> snd kv)) kvs"

definition trie_commit :: "(bytes \<Rightarrow> bytes) \<Rightarrow> node_map \<Rightarrow> trie \<Rightarrow> node_map \<times> trie" where
  "trie_commit keccak m t =
     (let (acc, t) = commit_without_storing keccak t in (mem_put_batch m acc, t))"

definition trie_hash :: "(bytes \<Rightarrow> bytes) \<Rightarrow> node_map \<Rightarrow> trie \<Rightarrow> bytes \<times> node_map \<times> trie" where
  "trie_hash keccak m t =
     (let (m, t) = trie_commit keccak m t; (h, t) = hash_no_commit keccak t in (h, m, t))"

definition get_proof :: "(bytes \<Rightarrow> bytes) \<Rightarrow> trie_db \<Rightarrow> trie \<Rightarrow> bytes \<Rightarrow> trie_fail + bytes list" where
  "get_proof keccak db t pathrlp =
     (if is_valid (root t) then
        let node_path = (case compute_hash keccak (root t) of Inline bs \<Rightarrow> [bs] | Hashed _ \<Rightarrow> []) in
        and_then (get_node_checked keccak db (root t) (from_hex [])) (\<lambda>r.
          case r of
            None \<Rightarrow> Inr []
          | Some n \<Rightarrow>
              let path = from_bytes pathrlp in
              node_get_path (path_fuel path) keccak db n path node_path)
      else Inr [])"

end
