(* ===== verification/Trie_Spec.thy ===== *)
theory Trie_Spec
  imports Nibbles "HOL-Library.Multiset"
begin

text \<open>
  The specification of the trie: fully resolved trees without hashes, references or database
  (\<open>ptree\<close>), their well-formedness, and lookup, insertion and removal on them.  The lemmas show
  that insertion and removal act on the contents of a well-formed tree as update and deletion of a
  finite map, keep the tree well formed, and that a well-formed tree is determined by its contents.
\<close>

datatype ptree = PLeaf bytes bytes | PExt bytes ptree | PBranch "ptree option list" bytes

section \<open>Operations\<close>

fun t_get :: "ptree \<Rightarrow> bytes \<Rightarrow> bytes option" where
  "t_get (PLeaf k v) key = (if k = key then Some v else None)"
| "t_get (PExt p t) key =
     (if take (length p) key = p then t_get t (drop (length p) key) else None)"
| "t_get (PBranch cs v) [] = (if v = [] then None else Some v)"
| "t_get (PBranch cs v) (x # xs) =
     (if x < 16 then (case cs ! unat x of None \<Rightarrow> None | Some t \<Rightarrow> t_get t xs)
      else if v = [] then None else Some v)"

abbreviation no_children :: "ptree option list" where
  "no_children \<equiv> replicate 16 None"

definition t_put :: "ptree option list \<Rightarrow> bytes \<Rightarrow> bytes \<Rightarrow> bytes \<Rightarrow> ptree" where
  "t_put cs w key v =
     (case key of [] \<Rightarrow> PBranch cs v
      | x # xs \<Rightarrow> if x < 16 then PBranch (cs[unat x := Some (PLeaf xs v)]) w else PBranch cs v)"

definition t_ext :: "bytes \<Rightarrow> ptree \<Rightarrow> ptree" where
  "t_ext p t = (if p = [] then t else PExt p t)"

text \<open>
  Insertion.  A leaf or an extension that differs from the key splits at the first difference
  into a branch, below an extension for the common part.
\<close>

fun t_insert :: "ptree \<Rightarrow> bytes \<Rightarrow> bytes \<Rightarrow> ptree" where
  "t_insert (PLeaf k w) key v =
     (if k = key then PLeaf k v
      else let m = count_prefix key k in
        t_ext (take m key)
          (if k ! m = 16 then t_put no_children w (drop m key) v
           else t_put (no_children[unat (k ! m) := Some (PLeaf (drop (Suc m) k) w)]) [] (drop m key) v))"
| "t_insert (PExt p t) key v =
     (let m = count_prefix key p in
      if m = length p then PExt p (t_insert t (drop m key) v)
      else t_ext (take m p)
             (t_put (no_children[unat (p ! m) := Some (t_ext (drop (Suc m) p) t)]) [] (drop m key) v))"
| "t_insert (PBranch cs w) [] v = PBranch cs v"
| "t_insert (PBranch cs w) (x # xs) v =
     (if x < 16 then
        PBranch (cs[unat x := Some (case cs ! unat x of None \<Rightarrow> PLeaf xs v | Some t \<Rightarrow> t_insert t xs v)]) w
      else PBranch cs v)"

text \<open>Prepending nibbles to a tree, merging them into its own prefix.\<close>

fun t_prepend :: "bytes \<Rightarrow> ptree \<Rightarrow> ptree" where
  "t_prepend p (PLeaf k v) = PLeaf (p @ k) v"
| "t_prepend p (PExt q t) = PExt (p @ q) t"
| "t_prepend p (PBranch cs v) = PExt p (PBranch cs v)"

definition children :: "ptree option list \<Rightarrow> (nat \<times> ptree) list" where
  "children cs = map (\<lambda>(i, c). (i, the c)) (filter (\<lambda>(i, c). c \<noteq> None) (enumerate 0 cs))"

text \<open>A branch that is left with only a value, or with one child and no value, collapses.\<close>

definition t_collapse :: "ptree option list \<Rightarrow> bytes \<Rightarrow> ptree" where
  "t_collapse cs v =
     (case children cs of
        [] \<Rightarrow> if v \<noteq> [] then PLeaf [16] v else PBranch cs v
      | [(i, t)] \<Rightarrow> if v = [] then t_prepend [word_of_nat i] t else PBranch cs v
      | _ \<Rightarrow> PBranch cs v)"

text \<open>Removal; \<open>None\<close> is the empty tree.\<close>

fun t_remove :: "ptree \<Rightarrow> bytes \<Rightarrow> ptree option" where
  "t_remove (PLeaf k v) key = (if k = key then None else Some (PLeaf k v))"
| "t_remove (PExt p t) key =
     (if take (length p) key = p then map_option (t_prepend p) (t_remove t (drop (length p) key))
      else Some (PExt p t))"
| "t_remove (PBranch cs v) [] = Some (t_collapse cs [])"
| "t_remove (PBranch cs v) (x # xs) =
     (if x < 16 then
        case cs ! unat x of
          None \<Rightarrow> Some (t_collapse cs v)
        | Some t \<Rightarrow> Some (t_collapse (cs[unat x := t_remove t xs]) v)
      else Some (t_collapse cs []))"

section \<open>Well-formedness\<close>

definition is_branch :: "ptree \<Rightarrow> bool" where
  "is_branch t \<longleftrightarrow> (case t of PBranch _ _ \<Rightarrow> True | _ \<Rightarrow> False)"

definition occupied :: "ptree option list \<Rightarrow> nat" where
  "occupied cs = length (filter (\<lambda>c. c \<noteq> None) cs)"

fun wf_ptree :: "ptree \<Rightarrow> bool" where
  "wf_ptree (PLeaf k v) \<longleftrightarrow> valid_key k \<and> v \<noteq> []"
| "wf_ptree (PExt p t) \<longleftrightarrow> p \<noteq> [] \<and> nibble_list p \<and> is_branch t \<and> wf_ptree t"
| "wf_ptree (PBranch cs v) \<longleftrightarrow>
     length cs = 16 \<and> list_all (pred_option wf_ptree) cs \<and>
     (if v = [] then 2 else 1) \<le> occupied cs"

section \<open>Common prefixes of paths\<close>

lemma count_prefix_Nil [simp]: "count_prefix [] b = 0" "count_prefix a [] = 0"
  by (simp_all add: count_prefix_def count_common_prefix_def count_common_prefix_scalar_def)

lemma count_prefix_Cons [simp]:
  "count_prefix (x # a) (y # b) = (if x = y then Suc (count_prefix a b) else 0)"
  by (simp add: count_prefix_def count_common_prefix_def count_common_prefix_scalar_def)

lemma count_prefix_take: "take (count_prefix a b) a = take (count_prefix a b) b"
  by (induction a arbitrary: b; case_tac b) auto

lemma count_prefix_le: "count_prefix a b \<le> length a" "count_prefix a b \<le> length b"
  by (induction a arbitrary: b; case_tac b; auto)+

lemma count_prefix_differ:
  "count_prefix a b < length a \<Longrightarrow> count_prefix a b < length b \<Longrightarrow>
     a ! count_prefix a b \<noteq> b ! count_prefix a b"
  by (induction a arbitrary: b; case_tac b) auto

lemma count_prefix_valid_keys:
  "valid_key a \<Longrightarrow> valid_key b \<Longrightarrow> a \<noteq> b \<Longrightarrow>
     count_prefix a b < length a \<and> count_prefix a b < length b"
  by (induction a arbitrary: b; case_tac b) (auto simp: valid_key_Cons valid_key_def [of "[]"])

lemma count_prefix_nibbles:
  "valid_key a \<Longrightarrow> nibble_list p \<Longrightarrow> count_prefix a p < length a"
  by (induction a arbitrary: p; case_tac p) (auto simp: valid_key_Cons valid_key_def [of "[]"])

lemma valid_key_drop:
  "valid_key k \<Longrightarrow> m < length k \<Longrightarrow> valid_key (drop m k) \<and> nibble_list (take m k)"
proof (induction m arbitrary: k)
  case (Suc m)
  then obtain x xs where "k = x # xs" by (cases k) auto
  with Suc show ?case by (auto simp: valid_key_Cons)
qed simp

lemma valid_key_drop_prefix:
  "valid_key k \<Longrightarrow> nibble_list p \<Longrightarrow> take (length p) k = p \<Longrightarrow> valid_key (drop (length p) k)"
  by (induction p arbitrary: k; case_tac k) (auto simp: valid_key_Cons)

lemma valid_key_append: "nibble_list p \<Longrightarrow> valid_key (p @ k) \<longleftrightarrow> valid_key k"
  by (induction p) (auto simp: valid_key_Cons)

lemma valid_key_not_nibbles: "valid_key k \<Longrightarrow> \<not> nibble_list k"
  by (erule valid_keyE) simp

lemma valid_key_longer: "valid_key k \<Longrightarrow> nibble_list (take m k) \<Longrightarrow> m < length k"
  using valid_key_not_nibbles [of k] by (cases "m < length k") auto

lemma nibble_index: "x < 16 \<Longrightarrow> unat (x :: byte) < 16"
  by (simp add: word_less_nat_alt)

lemma nibble_index_inj: "(unat (x :: byte) = unat y) = (x = y)"
  by (simp add: word_unat_eq_iff)

lemma take_append_iff:
  "take (length p + length q) k = p @ q \<longleftrightarrow>
     take (length p) k = p \<and> take (length q) (drop (length p) k) = q"
  by (induction p arbitrary: k; case_tac k) auto

section \<open>Contents\<close>

lemma t_get_ext:
  "t_get (t_ext p t) k = (if take (length p) k = p then t_get t (drop (length p) k) else None)"
  by (simp add: t_ext_def)

lemma t_get_prepend:
  "p \<noteq> [] \<Longrightarrow> t_get (t_prepend p t) k =
     (if take (length p) k = p then t_get t (drop (length p) k) else None)"
proof (cases t)
  case (PLeaf k' v)
  have "(p @ k' = k) = (take (length p) k = p \<and> k' = drop (length p) k)"
    by (metis append_eq_conv_conj)
  then show ?thesis by (auto simp: PLeaf)
next
  case (PExt q t')
  show ?thesis by (simp add: PExt take_append_iff add.commute)
next
  case (PBranch cs v)
  then show ?thesis by simp
qed


lemma t_get_branch_16 [simp]: "t_get (PBranch cs v) [16] = (if v = [] then None else Some v)"
  by simp

text \<open>Putting a key into an empty slot of a branch.\<close>

lemma t_get_put:
  assumes "length cs = 16" "valid_key key" "valid_key k" "v \<noteq> []"
    and "\<And>x xs. key = x # xs \<Longrightarrow> x < 16 \<Longrightarrow> cs ! unat x = None"
    and "key = [16] \<Longrightarrow> w = []"
  shows "t_get (t_put cs w key v) k = (if k = key then Some v else t_get (PBranch cs w) k)"
proof -
  obtain x xs where key: "key = x # xs" using assms(2) by (cases key) (auto simp: valid_key_def)
  obtain y ys where k: "k = y # ys" using assms(3) by (cases k) (auto simp: valid_key_def)
  show ?thesis
  proof (cases "x < 16")
    case True
    then have "unat x < 16" by (rule nibble_index)
    with True assms(1) assms(5) [OF key True] show ?thesis
      by (auto simp: t_put_def key k nth_list_update nibble_index_inj)
  next
    case False
    with assms(2) key have "key = [16]" by (simp add: valid_key_Cons)
    moreover from assms(3) k have "y = 16 \<Longrightarrow> ys = []" "\<not> y < 16 \<Longrightarrow> y = 16"
      by (auto simp: valid_key_Cons)
    ultimately show ?thesis using assms(4,6) by (auto simp: t_put_def k)
  qed
qed

lemma split_key:
  assumes "m \<le> length k'" "take m k' = p" "length p = m"
  shows "k = k' \<longleftrightarrow> take m k = p \<and> drop m k = drop m k'"
  using assms by (metis append_take_drop_id)

lemma drop_nth_Cons: "m < length k \<Longrightarrow> drop m k = k ! m # drop (Suc m) k"
  by (simp add: Cons_nth_drop_Suc)

lemma t_get_insert_leaf:
  assumes "valid_key k0" "valid_key key" "valid_key k" "w \<noteq> []" "v \<noteq> []"
  shows "t_get (t_insert (PLeaf k0 w) key v) k = (if k = key then Some v else t_get (PLeaf k0 w) k)"
proof (cases "k0 = key")
  case True
  then show ?thesis by auto
next
  case False
  define m where "m = count_prefix key k0"
  have m: "m < length key" "m < length k0" "key ! m \<noteq> k0 ! m" "take m key = take m k0"
    using count_prefix_valid_keys [of key k0] count_prefix_differ [of key k0]
      count_prefix_take [of key k0] assms(1,2) False by (auto simp: m_def)
  have K: "valid_key (drop m key)" "valid_key (drop m k0)" "nibble_list (take m key)"
    using valid_key_drop assms(1,2) m by auto
  define br where "br = (if k0 ! m = 16 then PBranch no_children w
    else PBranch (no_children[unat (k0 ! m) := Some (PLeaf (drop (Suc m) k0) w)]) [])"
  have a: "k0 ! m = 16 \<or> k0 ! m < 16"
    using K(2) m(2) by (auto simp: drop_nth_Cons valid_key_Cons)
  have br: "t_get br D = (if D = drop m k0 then Some w else None)" if D: "valid_key D" for D
  proof -
    obtain y ys where y: "D = y # ys" using D by (cases D) (auto simp: valid_key_def)
    with D have "y = 16 \<and> ys = [] \<or> y < 16" by (auto simp: valid_key_Cons)
    moreover have "k0 ! m = 16 \<Longrightarrow> drop (Suc m) k0 = []"
      using K(2) m(2) by (auto simp: drop_nth_Cons valid_key_Cons)
    ultimately show ?thesis using a assms(4) m(2)
      by (auto simp: br_def y drop_nth_Cons nth_list_update nibble_index nibble_index_inj)
  qed
  have put: "t_insert (PLeaf k0 w) key v =
      t_ext (take m key) (case br of PBranch cs w' \<Rightarrow> t_put cs w' (drop m key) v)"
    using False by (simp add: br_def m_def Let_def)
  have get: "t_get (case br of PBranch cs w' \<Rightarrow> t_put cs w' (drop m key) v) D =
      (if D = drop m key then Some v else t_get br D)" if D: "valid_key D" for D
  proof -
    have e: "\<And>x xs. drop m key = x # xs \<Longrightarrow> x = key ! m"
      using m(1) by (simp add: drop_nth_Cons)
    show ?thesis
    proof (cases "k0 ! m = 16")
      case True
      have "t_get (t_put no_children w (drop m key) v) D =
          (if D = drop m key then Some v else t_get (PBranch no_children w) D)"
        by (rule t_get_put) (use K D assms True e m(3) in \<open>auto simp: nibble_index\<close>)
      with True show ?thesis by (simp add: br_def)
    next
      case False
      let ?cs = "no_children[unat (k0 ! m) := Some (PLeaf (drop (Suc m) k0) w)]"
      have "t_get (t_put ?cs [] (drop m key) v) D =
          (if D = drop m key then Some v else t_get (PBranch ?cs []) D)"
        by (rule t_get_put)
          (use K D assms e m(3) a in \<open>auto simp: nth_list_update nibble_index nibble_index_inj\<close>)
      with False show ?thesis by (simp add: br_def)
    qed
  qed
  show ?thesis
  proof (cases "take m k = take m key")
    case True
    then have "m < length k" using assms(3) K(3) by (simp add: valid_key_longer)
    then have D: "valid_key (drop m k)" using valid_key_drop assms(3) by blast
    show ?thesis
      unfolding put t_get_ext
      using True get [OF D] br [OF D] m split_key [of m key "take m key" k]
        split_key [of m k0 "take m key" k]
      by auto
  next
    case False
    then show ?thesis unfolding put t_get_ext using m by auto
  qed
qed


lemma t_get_single_child:
  assumes "x < 16" "valid_key D"
  shows "t_get (PBranch (no_children[unat x := Some t]) []) D =
    (if take 1 D = [x] then t_get t (drop 1 D) else None)"
proof -
  obtain y ys where "D = y # ys" using assms(2) by (cases D) (auto simp: valid_key_def)
  with assms show ?thesis
    by (auto simp: nth_list_update nibble_index nibble_index_inj valid_key_Cons)
qed

lemma t_get_insert_split:
  assumes "nibble_list p" "valid_key key" "valid_key k" "v \<noteq> []"
    and m: "m = count_prefix key p" "m < length p"
  shows "t_get (t_ext (take m p)
            (t_put (no_children[unat (p ! m) := Some (t_ext (drop (Suc m) p) t)]) [] (drop m key) v)) k =
         (if k = key then Some v else t_get (PExt p t) k)"
proof -
  let ?cs = "no_children[unat (p ! m) := Some (t_ext (drop (Suc m) p) t)]"
  have lt: "m < length key" using count_prefix_nibbles [OF assms(2,1)] m(1) by simp
  have diff: "key ! m \<noteq> p ! m" and pre: "take m key = take m p"
    using count_prefix_differ [of key p] count_prefix_take [of key p] lt m by auto
  have K: "valid_key (drop m key)" using valid_key_drop [OF assms(2) lt] by simp
  have x: "p ! m < 16" using assms(1) m(2) by (simp add: list_all_length)
  have np: "nibble_list (take m p)" using assms(1) by (auto simp: list_all_iff dest: in_set_takeD)
  have p: "p = take m p @ [p ! m] @ drop (Suc m) p" using m(2) by (simp add: id_take_nth_drop)
  have ext: "t_get (PExt p t) k = (if take m k = take m p \<and> take 1 (drop m k) = [p ! m]
      then t_get (t_ext (drop (Suc m) p) t) (drop 1 (drop m k)) else None)"
  proof -
    have l: "Suc (length p - Suc 0) = length p" using m(2) by simp
    have "take (length p) k = p \<longleftrightarrow> take m k = take m p \<and> take 1 (drop m k) = [p ! m] \<and>
        take (length p - Suc m) (drop 1 (drop m k)) = drop (Suc m) p"
      using take_append_iff [of "take m p" "[p ! m] @ drop (Suc m) p" k]
        take_append_iff [of "[p ! m]" "drop (Suc m) p" "drop m k"] m(2) p by (simp add: l)
    then show ?thesis using m(2) by (auto simp: t_get_ext add.commute l)
  qed
  show ?thesis
  proof (cases "take m k = take m p")
    case True
    then have "m < length k" using assms(3) np by (simp add: valid_key_longer)
    then have D: "valid_key (drop m k)" using valid_key_drop assms(3) by blast
    have "t_get (t_put ?cs [] (drop m key) v) (drop m k) =
        (if drop m k = drop m key then Some v else t_get (PBranch ?cs []) (drop m k))"
      by (rule t_get_put) (use K D assms diff lt x in \<open>auto simp: drop_nth_Cons nth_list_update
        nibble_index nibble_index_inj\<close>)
    with True split_key [of m key "take m p" k] lt m pre t_get_single_child [OF x D] show ?thesis
      unfolding t_get_ext [of "take m p"] ext by auto
  next
    case False
    then have "k \<noteq> key" using pre by auto
    with False m show ?thesis unfolding t_get_ext [of "take m p"] ext by auto
  qed
qed

lemma t_get_insert:
  "wf_ptree t \<Longrightarrow> valid_key key \<Longrightarrow> valid_key k \<Longrightarrow> v \<noteq> [] \<Longrightarrow>
     t_get (t_insert t key v) k = (if k = key then Some v else t_get t k)"
proof (induction t key v arbitrary: k rule: t_insert.induct)
  case (1 k0 w key v)
  then show ?case by (intro t_get_insert_leaf) simp_all
next
  case (2 p t key v)
  define m where "m = count_prefix key p"
  show ?case
  proof (cases "m = length p")
    case True
    have pre: "take (length p) key = p" using count_prefix_take [of key p] True by (simp add: m_def)
    then have K: "valid_key (drop (length p) key)" and le: "length p \<le> length key"
      using 2 count_prefix_le(1) [of key p] True by (auto simp: m_def intro: valid_key_drop_prefix)
    show ?thesis
    proof (cases "take (length p) k = p")
      case kp: True
      then have "valid_key (drop (length p) k)" using 2 by (auto intro: valid_key_drop_prefix)
      with 2 True K kp pre le split_key [of "length p" key p k] show ?thesis
        by (auto simp: m_def Let_def)
    next
      case False
      with True pre show ?thesis by (auto simp: m_def Let_def)
    qed
  next
    case False
    then have "m < length p" using count_prefix_le(2) [of key p] by (simp add: m_def)
    with t_get_insert_split [of p key k v m t] 2 False show ?thesis by (simp add: m_def Let_def)
  qed
next
  case (3 cs w v)
  then show ?case by (simp add: valid_key_def)
next
  case (4 cs w x xs v)
  obtain y ys where k: "k = y # ys" using 4 by (cases k) (auto simp: valid_key_def)
  show ?case
  proof (cases "x < 16")
    case True
    then have i: "unat x < length cs" using 4 by (simp add: nibble_index)
    have xs: "valid_key xs" using 4 True by (auto simp: valid_key_Cons)
    have ys: "y < 16 \<Longrightarrow> valid_key ys" using 4 k by (auto simp: valid_key_Cons)
    show ?thesis
    proof (cases "cs ! unat x")
      case None
      with True i k show ?thesis by (auto simp: nth_list_update nibble_index_inj)
    next
      case (Some t)
      then have "wf_ptree t" using 4 i by (fastforce simp: list_all_length)
      with 4 True Some i k xs ys show ?thesis
        by (auto simp: nth_list_update nibble_index_inj)
    qed
  next
    case False
    with 4 k show ?thesis by (auto simp: valid_key_Cons)
  qed
qed

section \<open>Insertion keeps trees well formed\<close>

lemma occupied_update:
  "i < length cs \<Longrightarrow> occupied (cs[i := Some t]) = occupied cs + (if cs ! i = None then 1 else 0)"
  unfolding occupied_def by (induction cs arbitrary: i; case_tac i) auto

lemma occupied_clear:
  "i < length cs \<Longrightarrow> occupied (cs[i := None]) + (if cs ! i = None then 0 else 1) = occupied cs"
  unfolding occupied_def by (induction cs arbitrary: i; case_tac i) auto

lemma occupied_replicate [simp]: "occupied (replicate n None) = 0"
  by (simp add: occupied_def)

lemma list_all_update: "list_all P cs \<Longrightarrow> P x \<Longrightarrow> list_all P (cs[i := x])"
  by (auto simp: list_all_iff dest: set_update_subset_insert [THEN subsetD])

lemma wf_child: "wf_ptree (PBranch cs v) \<Longrightarrow> (x :: byte) < 16 \<Longrightarrow> cs ! unat x = Some t \<Longrightarrow> wf_ptree t"
  using nibble_index [of x] by (fastforce simp: list_all_length)

lemma wf_ext: "nibble_list p \<Longrightarrow> is_branch t \<Longrightarrow> wf_ptree t \<Longrightarrow> wf_ptree (t_ext p t)"
  by (simp add: t_ext_def)

lemma is_branch_put: "is_branch (t_put cs w key v)"
  by (simp add: t_put_def is_branch_def split: list.split)

lemma wf_put:
  assumes "length cs = 16" "list_all (pred_option wf_ptree) cs" "valid_key key" "v \<noteq> []"
    and "w = [] \<Longrightarrow> 1 \<le> occupied cs" "key = [16] \<Longrightarrow> w = []"
    and "\<And>x xs. key = x # xs \<Longrightarrow> x < 16 \<Longrightarrow> cs ! unat x = None"
  shows "wf_ptree (t_put cs w key v)"
proof -
  obtain x xs where key: "key = x # xs" using assms(3) by (cases key) (auto simp: valid_key_def)
  show ?thesis
  proof (cases "x < 16")
    case True
    then have "valid_key xs" using assms(3) key by (auto simp: valid_key_Cons)
    with True assms key show ?thesis
      by (auto simp: t_put_def occupied_update nibble_index list_all_update)
  next
    case False
    with assms key show ?thesis by (auto simp: t_put_def valid_key_Cons)
  qed
qed

lemma is_branch_insert: "is_branch t \<Longrightarrow> is_branch (t_insert t key v)"
  by (cases "(t, key, v)" rule: t_insert.cases) (auto simp: is_branch_def)

lemma wf_insert_leaf:
  assumes "valid_key k0" "valid_key key" "w \<noteq> []" "v \<noteq> []"
  shows "wf_ptree (t_insert (PLeaf k0 w) key v)"
proof (cases "k0 = key")
  case True
  with assms show ?thesis by simp
next
  case False
  define m where "m = count_prefix key k0"
  have m: "m < length key" "m < length k0" "key ! m \<noteq> k0 ! m"
    using count_prefix_valid_keys [of key k0] count_prefix_differ [of key k0] assms(1,2) False
    by (auto simp: m_def)
  have K: "valid_key (drop m key)" "valid_key (drop m k0)" "nibble_list (take m key)"
    using valid_key_drop assms(1,2) m by auto
  have e: "\<And>x xs. drop m key = x # xs \<Longrightarrow> x = key ! m" using m(1) by (simp add: drop_nth_Cons)
  have a: "k0 ! m \<noteq> 16 \<Longrightarrow> k0 ! m < 16 \<and> valid_key (drop (Suc m) k0)"
    using K(2) m(2) by (auto simp: drop_nth_Cons valid_key_Cons)
  have "wf_ptree (t_put no_children w (drop m key) v)" if "k0 ! m = 16"
    by (rule wf_put) (use K assms that e m(3) in \<open>auto simp: nibble_index list_all_iff\<close>)
  moreover have "wf_ptree (t_put (no_children[unat (k0 ! m) := Some (PLeaf (drop (Suc m) k0) w)]) []
      (drop m key) v)" if "k0 ! m \<noteq> 16"
    by (rule wf_put)
      (use K assms a [OF that] e m(3) in \<open>auto simp: nibble_index nibble_index_inj nth_list_update
        occupied_update list_all_update list_all_iff [of _ "replicate _ _"]\<close>)
  ultimately show ?thesis using False K by (simp add: m_def [symmetric] Let_def wf_ext is_branch_put)
qed

lemma wf_insert_split:
  assumes "nibble_list p" "valid_key key" "v \<noteq> []" "is_branch t" "wf_ptree t"
    and m: "m = count_prefix key p" "m < length p"
  shows "wf_ptree (t_ext (take m p)
            (t_put (no_children[unat (p ! m) := Some (t_ext (drop (Suc m) p) t)]) [] (drop m key) v))"
proof -
  have lt: "m < length key" using count_prefix_nibbles [OF assms(2,1)] m(1) by simp
  have diff: "key ! m \<noteq> p ! m" using count_prefix_differ [of key p] lt m by auto
  have K: "valid_key (drop m key)" using valid_key_drop [OF assms(2) lt] by simp
  have x: "p ! m < 16" using assms(1) m(2) by (simp add: list_all_length)
  have np: "nibble_list (take m p)" "nibble_list (drop (Suc m) p)"
    using assms(1) by (auto simp: list_all_iff dest: in_set_takeD in_set_dropD)
  have "wf_ptree (t_ext (drop (Suc m) p) t)" using np assms by (simp add: wf_ext)
  then have "wf_ptree (t_put (no_children[unat (p ! m) := Some (t_ext (drop (Suc m) p) t)]) []
      (drop m key) v)"
    by (intro wf_put)
      (use K assms lt diff x in \<open>auto simp: drop_nth_Cons nibble_index nibble_index_inj nth_list_update
        occupied_update list_all_update list_all_iff [of _ "replicate _ _"]\<close>)
  then show ?thesis using np by (simp add: wf_ext is_branch_put)
qed

lemma wf_insert: "wf_ptree t \<Longrightarrow> valid_key key \<Longrightarrow> v \<noteq> [] \<Longrightarrow> wf_ptree (t_insert t key v)"
proof (induction t key v rule: t_insert.induct)
  case (1 k0 w key v)
  then show ?case by (intro wf_insert_leaf) simp_all
next
  case (2 p t key v)
  define m where "m = count_prefix key p"
  show ?case
  proof (cases "m = length p")
    case True
    have "take (length p) key = p" using count_prefix_take [of key p] True by (simp add: m_def)
    then have "valid_key (drop (length p) key)" using 2 by (auto intro: valid_key_drop_prefix)
    with 2 True show ?thesis by (auto simp: m_def [symmetric] Let_def is_branch_insert)
  next
    case False
    then have "m < length p" using count_prefix_le(2) [of key p] by (simp add: m_def)
    with wf_insert_split [of p key v t m] 2 False show ?thesis by (simp add: m_def Let_def)
  qed
next
  case (3 cs w v)
  then show ?case by (simp add: valid_key_def)
next
  case (4 cs w x xs v)
  show ?case
  proof (cases "x < 16")
    case True
    then have i: "unat x < length cs" and xs: "valid_key xs" using 4 by (auto simp: nibble_index valid_key_Cons)
    show ?thesis
    proof (cases "cs ! unat x")
      case None
      with 4 True i xs show ?thesis by (auto simp: occupied_update list_all_update split: if_splits)
    next
      case (Some t)
      with 4 True have "wf_ptree (t_insert t xs v)" using wf_child [of cs w x t] xs by simp
      with 4 True Some i show ?thesis by (auto simp: occupied_update list_all_update split: if_splits)
    qed
  next
    case False
    with 4 show ?thesis by (auto split: if_splits)
  qed
qed

section \<open>Removal\<close>

lemma in_children: "(i, t) \<in> set (children cs) \<longleftrightarrow> i < length cs \<and> cs ! i = Some t"
  by (force simp: children_def in_set_enumerate_eq image_iff)

lemma length_children: "length (children cs) = occupied cs"
proof -
  have "length (filter (\<lambda>(i, c). c \<noteq> None) (enumerate n cs)) = length (filter (\<lambda>c. c \<noteq> None) cs)" for n
    by (induction cs arbitrary: n) auto
  then show ?thesis by (simp add: children_def occupied_def)
qed

lemma distinct_children: "distinct (map fst (children cs))"
proof -
  have "map fst (children cs) = map fst (filter (\<lambda>(i, c). c \<noteq> None) (enumerate 0 cs))"
    by (simp add: children_def case_prod_unfold comp_def)
  then show ?thesis by (simp add: distinct_map_filter distinct_enumerate)
qed

lemma no_childrenD: "children cs = [] \<Longrightarrow> i < length cs \<Longrightarrow> cs ! i = None"
  using in_children [of i "the (cs ! i)" cs] by (cases "cs ! i") auto

lemma one_childD:
  assumes "children cs = [(i, t)]"
  shows "i < length cs" "cs ! i = Some t" "\<And>j. j < length cs \<Longrightarrow> j \<noteq> i \<Longrightarrow> cs ! j = None"
proof -
  show "i < length cs" "cs ! i = Some t" using in_children [of i t cs] assms by auto
  show "cs ! j = None" if "j < length cs" "j \<noteq> i" for j
    using in_children [of j "the (cs ! j)" cs] assms that by (cases "cs ! j") auto
qed

lemma wf_prepend: "p \<noteq> [] \<Longrightarrow> nibble_list p \<Longrightarrow> wf_ptree t \<Longrightarrow> wf_ptree (t_prepend p t)"
  by (cases t) (auto simp: valid_key_append is_branch_def)

lemma nibble_of_nat: "i < 16 \<Longrightarrow> (word_of_nat i :: byte) < 16 \<and> unat (word_of_nat i :: byte) = i"
  by (simp add: word_less_nat_alt unat_of_nat)

lemma t_get_collapse:
  assumes "length cs = 16" "valid_key k"
  shows "t_get (t_collapse cs v) k = t_get (PBranch cs v) k"
proof -
  obtain y ys where k: "k = y # ys" using assms(2) by (cases k) (auto simp: valid_key_def)
  have y: "\<not> y < 16 \<Longrightarrow> y = 16 \<and> ys = []" using assms(2) k by (auto simp: valid_key_Cons)
  consider "children cs = []" "v \<noteq> []" | i t where "children cs = [(i, t)]" "v = []"
    | "t_collapse cs v = PBranch cs v"
  proof (cases "children cs")
    case Nil
    with that show ?thesis by (cases "v = []") (auto simp: t_collapse_def)
  next
    case (Cons a l)
    with that show ?thesis by (cases a; cases l; cases "v = []") (auto simp: t_collapse_def)
  qed
  then show ?thesis
  proof cases
    case 1
    then show ?thesis
      using assms(1) y no_childrenD [OF 1(1)] by (auto simp: t_collapse_def k nibble_index)
  next
    case 2
    note one = one_childD [OF 2(1)]
    have i: "(word_of_nat i :: byte) < 16" "unat (word_of_nat i :: byte) = i"
      using nibble_of_nat [of i] one(1) assms(1) by auto
    have "cs ! unat y = (if y = word_of_nat i then Some t else None)" if "y < 16"
      using one(2) one(3) [of "unat y"] i nibble_index [OF that] assms(1)
      by (auto simp: word_unat_eq_iff)
    with y i show ?thesis by (auto simp: t_collapse_def 2 t_get_prepend k)
  next
    case 3
    then show ?thesis by simp
  qed
qed

lemma wf_collapse:
  assumes "length cs = 16" "list_all (pred_option wf_ptree) cs" "v = [] \<Longrightarrow> 1 \<le> occupied cs"
  shows "wf_ptree (t_collapse cs v)"
proof -
  have cl: "length (children cs) = occupied cs" by (rule length_children)
  consider "children cs = []" | i t where "children cs = [(i, t)]"
    | a b c where "children cs = a # b # c"
    by (metis list.exhaust surj_pair)
  then show ?thesis
  proof cases
    case 1
    with assms cl show ?thesis by (auto simp: t_collapse_def valid_key_def)
  next
    case 2
    note one = one_childD [OF 2]
    then have "wf_ptree t" using assms(2) by (metis list_all_length option.pred_inject(2))
    then have "wf_ptree (t_prepend [word_of_nat i] t)"
      using nibble_of_nat [of i] one(1) assms(1) by (intro wf_prepend) auto
    with 2 assms cl show ?thesis by (auto simp: t_collapse_def)
  next
    case 3
    with assms cl show ?thesis by (auto simp: t_collapse_def)
  qed
qed

lemma t_remove_branch: "is_branch t \<Longrightarrow> t_remove t key \<noteq> None"
  by (cases "(t, key)" rule: t_remove.cases) (auto simp: is_branch_def split: option.splits)

lemma wf_remove: "wf_ptree t \<Longrightarrow> valid_key key \<Longrightarrow> pred_option wf_ptree (t_remove t key)"
proof (induction t key rule: t_remove.induct)
  case (1 k v key)
  then show ?case by auto
next
  case (2 p t key)
  show ?case
  proof (cases "take (length p) key = p")
    case True
    then have "valid_key (drop (length p) key)" using 2 by (auto intro: valid_key_drop_prefix)
    with 2 True show ?thesis
      by (cases "t_remove t (drop (length p) key)") (auto simp: wf_prepend)
  next
    case False
    with 2 show ?thesis by auto
  qed
next
  case (3 cs v)
  then show ?case by (simp add: valid_key_def)
next
  case (4 cs v x xs)
  show ?case
  proof (cases "x < 16")
    case True
    then have i: "unat x < length cs" and xs: "valid_key xs"
      using 4 by (auto simp: nibble_index valid_key_Cons)
    show ?thesis
    proof (cases "cs ! unat x")
      case None
      with True 4 show ?thesis by (auto intro!: wf_collapse split: if_splits)
    next
      case (Some t)
      then have "pred_option wf_ptree (t_remove t xs)"
        using 4 True xs wf_child [of cs v x t] by simp
      moreover have "1 \<le> occupied (cs[unat x := t_remove t xs])" if "v = []"
        using that 4 i Some occupied_update [OF i] occupied_clear [OF i]
        by (cases "t_remove t xs") auto
      ultimately show ?thesis using True Some 4 by (auto intro!: wf_collapse list_all_update)
    qed
  next
    case False
    with 4 show ?thesis by (auto intro!: wf_collapse split: if_splits)
  qed
qed

lemma t_get_remove:
  "wf_ptree t \<Longrightarrow> valid_key key \<Longrightarrow> valid_key k \<Longrightarrow>
     Option.bind (t_remove t key) (\<lambda>t'. t_get t' k) = (if k = key then None else t_get t k)"
proof (induction t key arbitrary: k rule: t_remove.induct)
  case (1 k0 v key)
  then show ?case by auto
next
  case (2 p t key)
  show ?case
  proof (cases "take (length p) key = p")
    case True
    then have K: "valid_key (drop (length p) key)" and le: "length p \<le> length key"
      using 2 by (auto intro: valid_key_drop_prefix) (metis length_take min.absorb_iff2 min.commute)
    show ?thesis
    proof (cases "take (length p) k = p")
      case kp: True
      then have "valid_key (drop (length p) k)" using 2 by (auto intro: valid_key_drop_prefix)
      from 2(1) [OF True _ K this] 2(2) split_key [OF le True refl, of k] kp True show ?thesis
        by (cases "t_remove t (drop (length p) key)") (auto simp: t_get_prepend)
    next
      case False
      with 2 True show ?thesis
        by (cases "t_remove t (drop (length p) key)") (auto simp: t_get_prepend)
    qed
  next
    case False
    with 2 show ?thesis by auto
  qed
next
  case (3 cs v)
  then show ?case by (simp add: valid_key_def)
next
  case (4 cs v x xs)
  obtain y ys where k: "k = y # ys" using 4 by (cases k) (auto simp: valid_key_def)
  have len: "length cs = 16" using 4 by simp
  have y: "\<not> y < 16 \<Longrightarrow> y = 16 \<and> ys = []" "y < 16 \<Longrightarrow> valid_key ys"
    using 4 k by (auto simp: valid_key_Cons)
  show ?case
  proof (cases "x < 16")
    case True
    then have i: "unat x < length cs" and xs: "valid_key xs"
      using 4 by (auto simp: nibble_index valid_key_Cons)
    show ?thesis
    proof (cases "cs ! unat x")
      case None
      with True 4(4) k len show ?thesis by (auto simp: t_get_collapse)
    next
      case (Some t)
      then have wf: "wf_ptree t" using 4 True wf_child [of cs v x t] by simp
      have "Option.bind (t_remove t xs) (\<lambda>t'. t_get t' ys) = (if ys = xs then None else t_get t ys)"
        if "y = x" using 4(1) [OF True Some wf xs] y that True by simp
      with True Some 4(4) k len i y show ?thesis
        by (cases "t_remove t xs") (auto simp: t_get_collapse nth_list_update nibble_index_inj)
    qed
  next
    case False
    with 4(3,4) k len y show ?thesis by (auto simp: t_get_collapse valid_key_Cons)
  qed
qed

section \<open>A tree is determined by its contents\<close>

definition same_contents :: "ptree \<Rightarrow> ptree \<Rightarrow> bool" where
  "same_contents t u \<longleftrightarrow> (\<forall>k. valid_key k \<longrightarrow> t_get t k = t_get u k)"

lemma t_get_PExt_append: "t_get (PExt p t) (p @ k) = t_get t k"
  by simp

lemma same_contentsD:
  "same_contents t u \<Longrightarrow> nibble_list p \<Longrightarrow> valid_key k \<Longrightarrow> t_get t (p @ k) = t_get u (p @ k)"
  by (simp add: same_contents_def valid_key_append)

lemma some_occupied: "1 \<le> occupied cs \<Longrightarrow> \<exists>i t. i < length cs \<and> cs ! i = Some t"
proof -
  assume "1 \<le> occupied cs"
  then obtain a where "a \<in> set (children cs)" by (metis length_children length_greater_0_conv list.set_sel(1) not_one_le_zero order_less_le_trans zero_less_one)
  then show ?thesis using in_children [of "fst a" "snd a" cs] by auto
qed

lemma two_occupied:
  assumes "2 \<le> occupied cs"
  shows "\<exists>i j t u. i < length cs \<and> j < length cs \<and> i \<noteq> j \<and> cs ! i = Some t \<and> cs ! j = Some u"
proof -
  obtain a b l where c: "children cs = a # b # l"
    using assms length_children [of cs] by (cases "children cs"; cases "tl (children cs)") auto
  then have "fst a \<noteq> fst b" using distinct_children [of cs] by auto
  moreover have "(fst a, snd a) \<in> set (children cs)" "(fst b, snd b) \<in> set (children cs)"
    using c by auto
  ultimately show ?thesis unfolding in_children by blast
qed

lemma wf_has_key: "wf_ptree t \<Longrightarrow> \<exists>k. valid_key k \<and> t_get t k \<noteq> None"
proof (induction t)
  case (PLeaf k v)
  then show ?case by auto
next
  case (PExt p t)
  then obtain k where "valid_key k" "t_get t k \<noteq> None" by auto
  with PExt.prems show ?case by (intro exI [of _ "p @ k"]) (simp add: valid_key_append)
next
  case (PBranch cs v)
  then have "1 \<le> occupied cs" by (auto split: if_splits)
  from some_occupied [OF this] obtain i t where i: "i < length cs" "cs ! i = Some t" by blast
  then have "wf_ptree t" using PBranch.prems by (fastforce simp: list_all_length)
  moreover have "Some t \<in> set cs" using i by (metis nth_mem)
  ultimately obtain k where "valid_key k" "t_get t k \<noteq> None" using PBranch.IH [of "Some t" t] by auto
  with i PBranch.prems nibble_of_nat [of i] show ?case
    by (intro exI [of _ "word_of_nat i # k"]) (auto simp: valid_key_Cons)
qed

text \<open>A branch holds two keys with different first symbols.\<close>

lemma wf_branch_two_keys:
  assumes "wf_ptree (PBranch cs v)"
  obtains x xs y ys where "x \<noteq> y" "valid_key (x # xs)" "valid_key (y # ys)"
    "t_get (PBranch cs v) (x # xs) \<noteq> None" "t_get (PBranch cs v) (y # ys) \<noteq> None"
proof -
  have child: "\<exists>xs. valid_key (word_of_nat i # xs) \<and> t_get (PBranch cs v) (word_of_nat i # xs) \<noteq> None"
    if "i < length cs" "cs ! i = Some t" for i t
  proof -
    have "wf_ptree t" using that assms by (fastforce simp: list_all_length)
    from wf_has_key [OF this] obtain k where "valid_key k" "t_get t k \<noteq> None" by blast
    with that assms nibble_of_nat [of i] show ?thesis by (intro exI [of _ k]) (auto simp: valid_key_Cons)
  qed
  show ?thesis
  proof (cases "v = []")
    case True
    then obtain i j t u where ij: "i < length cs" "j < length cs" "i \<noteq> j" "cs ! i = Some t" "cs ! j = Some u"
      using two_occupied [of cs] assms by auto
    then have "(word_of_nat i :: byte) \<noteq> word_of_nat j"
      using nibble_of_nat [of i] nibble_of_nat [of j] assms by (metis wf_ptree.simps(3))
    with child [OF ij(1,4)] child [OF ij(2,5)] that show ?thesis by blast
  next
    case False
    then obtain i t where i: "i < length cs" "cs ! i = Some t"
      using some_occupied [of cs] assms by auto
    then have "(word_of_nat i :: byte) \<noteq> 16" using nibble_of_nat [of i] assms by auto
    moreover have "valid_key [16]" "t_get (PBranch cs v) [16] \<noteq> None" using False by (simp_all add: valid_key_def)
    ultimately show ?thesis using child [OF i] that by blast
  qed
qed

lemma wf_branch_form: "is_branch t \<longleftrightarrow> (\<exists>cs v. t = PBranch cs v)"
  by (auto simp: is_branch_def split: ptree.splits)

lemma ext_prefix_unique:
  assumes "wf_ptree (PExt p t)" "wf_ptree (PExt q u)" "same_contents (PExt p t) (PExt q u)"
  shows "length q \<le> length p"
proof (rule ccontr)
  assume "\<not> ?thesis"
  then have lt: "length p < length q" by simp
  obtain cs v where t: "t = PBranch cs v" "wf_ptree (PBranch cs v)"
    using assms(1) by (auto simp: wf_branch_form)
  have p: "nibble_list p" using assms(1) by simp
  have q: "z = q ! length p" if "valid_key (z # zs)" "t_get t (z # zs) \<noteq> None" for z zs
  proof -
    have "t_get (PExt q u) (p @ z # zs) \<noteq> None"
      using same_contentsD [OF assms(3) p that(1)] that(2) unfolding t_get_PExt_append by simp
    then have "take (length q) (p @ z # zs) = q" by (simp split: if_splits)
    then have "(p @ z # zs) ! length p = q ! length p" using lt by (metis nth_take)
    then show ?thesis by simp
  qed
  obtain x xs y ys where "x \<noteq> y" "valid_key (x # xs)" "valid_key (y # ys)"
    "t_get t (x # xs) \<noteq> None" "t_get t (y # ys) \<noteq> None"
    using wf_branch_two_keys [OF t(2)] unfolding t(1) by metis
  with q show False by blast
qed

lemma same_contents_sym: "same_contents t u \<Longrightarrow> same_contents u t"
  by (simp add: same_contents_def)

lemma leaf_not_branching:
  assumes "wf_ptree (PBranch cs v)" "nibble_list p"
    and "\<And>k. valid_key k \<Longrightarrow> t_get (PBranch cs v) k \<noteq> None \<Longrightarrow> p @ k = k0"
  shows False
proof -
  obtain x xs y ys where "x \<noteq> y" "valid_key (x # xs)" "valid_key (y # ys)"
    "t_get (PBranch cs v) (x # xs) \<noteq> None" "t_get (PBranch cs v) (y # ys) \<noteq> None"
    using wf_branch_two_keys [OF assms(1)] by metis
  with assms(3) [of "x # xs"] assms(3) [of "y # ys"] show False by auto
qed

lemma ptree_unique: "wf_ptree t \<Longrightarrow> wf_ptree u \<Longrightarrow> same_contents t u \<Longrightarrow> t = u"
proof (induction t arbitrary: u)
  case (PLeaf k v)
  have only: "k' = k" if "valid_key k'" "t_get u k' \<noteq> None" for k'
    using that PLeaf.prems(3) by (auto simp: same_contents_def split: if_splits)
  show ?case
  proof (cases u)
    case (PLeaf k' v')
    with PLeaf.prems only [of k'] show ?thesis by (auto simp: same_contents_def)
  next
    case (PExt p u')
    then obtain cs w where u': "u' = PBranch cs w" "wf_ptree (PBranch cs w)" "nibble_list p"
      using PLeaf.prems by (auto simp: wf_branch_form)
    have "p @ k' = k" if "valid_key k'" "t_get (PBranch cs w) k' \<noteq> None" for k'
      using only [of "p @ k'"] that u' by (simp add: PExt valid_key_append)
    then show ?thesis using leaf_not_branching [OF u'(2,3)] by blast
  next
    case (PBranch cs w)
    with PLeaf.prems have "wf_ptree (PBranch cs w)" by simp
    then show ?thesis using leaf_not_branching [of cs w "[]" k] only PBranch by simp
  qed
next
  case (PExt p t)
  then obtain cs v where t: "t = PBranch cs v" "wf_ptree (PBranch cs v)" "nibble_list p" "p \<noteq> []"
    by (auto simp: wf_branch_form)
  show ?case
  proof (cases u)
    case (PLeaf k w)
    have "p @ k' = k" if "valid_key k'" "t_get (PBranch cs v) k' \<noteq> None" for k'
    proof -
      have "t_get u (p @ k') \<noteq> None" using PExt.prems(3) that t
        by (metis append_eq_conv_conj same_contents_def t_get.simps(2) valid_key_append)
      then show ?thesis by (auto simp: PLeaf split: if_splits)
    qed
    then show ?thesis using leaf_not_branching [OF t(2,3)] by blast
  next
    case u: (PExt q u')
    have len: "length p = length q"
      using ext_prefix_unique [of p t q u'] ext_prefix_unique [of q u' p t] PExt.prems u
        same_contents_sym by (metis le_antisym)
    from wf_has_key [OF t(2)] obtain k where k: "valid_key k" "t_get t k \<noteq> None" using t(1) by auto
    have "t_get (PExt q u') (p @ k) \<noteq> None"
      using same_contentsD [OF PExt.prems(3) t(3) k(1)] k(2) unfolding t_get_PExt_append u by simp
    then have pq: "p = q" using len by (auto split: if_splits)
    have "same_contents t u'"
      unfolding same_contents_def
    proof (intro allI impI)
      fix k assume "valid_key k"
      then have "t_get (PExt p t) (p @ k) = t_get (PExt q u') (p @ k)"
        using PExt.prems(3) u t(3) unfolding same_contents_def by (metis valid_key_append)
      then show "t_get t k = t_get u' k" by (simp add: pq)
    qed
    with PExt.IH [of u'] PExt.prems u pq show ?thesis by simp
  next
    case (PBranch cs' w)
    obtain x xs y ys where xy: "x \<noteq> y" "valid_key (x # xs)" "valid_key (y # ys)"
      "t_get u (x # xs) \<noteq> None" "t_get u (y # ys) \<noteq> None"
      using wf_branch_two_keys [of cs' w] PExt.prems(2) unfolding PBranch by metis
    have "z = hd p" if "valid_key (z # zs)" "t_get u (z # zs) \<noteq> None" for z zs
    proof -
      have "t_get (PExt p t) (z # zs) \<noteq> None" using PExt.prems(3) that by (simp add: same_contents_def)
      then show ?thesis using t(4) by (cases p) (auto split: if_splits)
    qed
    with xy show ?thesis by metis
  qed
next
  case (PBranch cs v)
  show ?case
  proof (cases u)
    case (PLeaf k w)
    have "k' = k" if "valid_key k'" "t_get (PBranch cs v) k' \<noteq> None" for k'
    proof -
      have "t_get u k' \<noteq> None" using that PBranch.prems(3) by (simp add: same_contents_def)
      then show ?thesis by (auto simp: PLeaf split: if_splits)
    qed
    then show ?thesis using leaf_not_branching [OF PBranch.prems(1), of "[]" k] by simp
  next
    case (PExt p u')
    obtain x xs y ys where xy: "x \<noteq> y" "valid_key (x # xs)" "valid_key (y # ys)"
      "t_get (PBranch cs v) (x # xs) \<noteq> None" "t_get (PBranch cs v) (y # ys) \<noteq> None"
      using wf_branch_two_keys [OF PBranch.prems(1)] by metis
    have "z = hd p" if "valid_key (z # zs)" "t_get (PBranch cs v) (z # zs) \<noteq> None" for z zs
    proof -
      have "t_get (PExt p u') (z # zs) \<noteq> None"
        using PBranch.prems(3) that unfolding PExt same_contents_def by metis
      then show ?thesis using PBranch.prems(2) PExt by (cases p) (auto split: if_splits)
    qed
    with xy show ?thesis by metis
  next
    case u: (PBranch ds w)
    have "valid_key [16]" by (simp add: valid_key_def)
    then have "t_get (PBranch cs v) [16] = t_get (PBranch ds w) [16]"
      using PBranch.prems(3) unfolding u same_contents_def by blast
    then have vw: "v = w" by (simp split: if_splits)
    have len: "length cs = 16" "length ds = 16" using PBranch.prems u by auto
    have "cs ! i = ds ! i" if "i < 16" for i
    proof -
      note i = nibble_of_nat [OF that]
      have get: "Option.bind (cs ! i) (\<lambda>t. t_get t k) = Option.bind (ds ! i) (\<lambda>t. t_get t k)"
        if k: "valid_key k" for k
      proof -
        have "t_get (PBranch cs v) (word_of_nat i # k) = t_get (PBranch ds w) (word_of_nat i # k)"
          using PBranch.prems(3) u k i by (auto simp: same_contents_def valid_key_Cons simp del: t_get.simps)
        then show ?thesis using i by (auto split: option.splits)
      qed
      have wf: "wf_ptree t" if "cs ! i = Some t \<or> ds ! i = Some t" for t
        using that len PBranch.prems u \<open>i < 16\<close> by (fastforce simp: list_all_length)
      show ?thesis
      proof (cases "cs ! i"; cases "ds ! i")
        fix t assume "cs ! i = None" "ds ! i = Some t"
        with wf [of t] wf_has_key [of t] get show ?thesis by force
      next
        fix t assume "cs ! i = Some t" "ds ! i = None"
        with wf [of t] wf_has_key [of t] get show ?thesis by force
      next
        fix t t' assume a: "cs ! i = Some t" "ds ! i = Some t'"
        then have "Some t \<in> set cs" using len that by (metis nth_mem)
        moreover have "same_contents t t'" using get a by (simp add: same_contents_def)
        ultimately show ?thesis using PBranch.IH [of "Some t" t t'] a wf by simp
      qed simp
    qed
    then have "cs = ds" using len by (intro nth_equalityI) auto
    with u vw show ?thesis by simp
  qed
qed


section \<open>The trie as a canonical map\<close>

text \<open>
  The interface of a map from keys to values, and of a map whose representation is canonical: two
  states with the same contents are equal.  Over a canonical map operations on different keys
  commute, and building a map from a list of entries with distinct keys does not depend on their
  order.
\<close>

locale key_map =
  fixes empty :: 's
    and lookup :: "'s \<Rightarrow> 'k \<Rightarrow> 'v option"
    and update :: "'s \<Rightarrow> 'k \<Rightarrow> 'v \<Rightarrow> 's"
    and delete :: "'s \<Rightarrow> 'k \<Rightarrow> 's"
    and inv :: "'s \<Rightarrow> bool"
    and valid_k :: "'k \<Rightarrow> bool"
    and valid_v :: "'v \<Rightarrow> bool"
  assumes inv_empty: "inv empty"
    and lookup_empty: "lookup empty k = None"
    and inv_update: "inv s \<Longrightarrow> valid_k k \<Longrightarrow> valid_v v \<Longrightarrow> inv (update s k v)"
    and lookup_update: "inv s \<Longrightarrow> valid_k k \<Longrightarrow> valid_k k' \<Longrightarrow> valid_v v \<Longrightarrow>
          lookup (update s k v) k' = (if k' = k then Some v else lookup s k')"
    and inv_delete: "inv s \<Longrightarrow> valid_k k \<Longrightarrow> inv (delete s k)"
    and lookup_delete: "inv s \<Longrightarrow> valid_k k \<Longrightarrow> valid_k k' \<Longrightarrow>
          lookup (delete s k) k' = (if k' = k then None else lookup s k')"
begin

definition put_all :: "('k \<times> 'v) list \<Rightarrow> 's \<Rightarrow> 's" where
  "put_all kvs s = foldl (\<lambda>s (k, v). update s k v) s kvs"

lemma put_all_Nil [simp]: "put_all [] s = s"
  by (simp add: put_all_def)

lemma put_all_Cons [simp]: "put_all ((k, v) # kvs) s = put_all kvs (update s k v)"
  by (simp add: put_all_def)

lemma put_all_inv:
  "inv s \<Longrightarrow> \<forall>(k, v) \<in> set kvs. valid_k k \<and> valid_v v \<Longrightarrow> inv (put_all kvs s)"
  by (induction kvs arbitrary: s) (auto simp: inv_update)

lemma lookup_put_all:
  "inv s \<Longrightarrow> \<forall>(k, v) \<in> set kvs. valid_k k \<and> valid_v v \<Longrightarrow> distinct (map fst kvs) \<Longrightarrow> valid_k k' \<Longrightarrow>
     lookup (put_all kvs s) k' = (case map_of kvs k' of Some v \<Rightarrow> Some v | None \<Rightarrow> lookup s k')"
proof (induction kvs arbitrary: s)
  case (Cons kv kvs)
  obtain k v where kv: "kv = (k, v)" by (cases kv)
  with Cons have "lookup (put_all kvs (update s k v)) k' =
      (case map_of kvs k' of Some v \<Rightarrow> Some v | None \<Rightarrow> lookup (update s k v) k')"
    by (intro Cons.IH inv_update) auto
  moreover have "k' = k \<Longrightarrow> map_of kvs k' = None"
    using Cons.prems kv by (auto simp: map_of_eq_None_iff)
  ultimately show ?case using Cons.prems kv by (auto simp: lookup_update split: option.splits)
qed simp

end

locale canonical_map = key_map +
  assumes extensional: "inv s \<Longrightarrow> inv t \<Longrightarrow> (\<And>k. valid_k k \<Longrightarrow> lookup s k = lookup t k) \<Longrightarrow> s = t"
begin

lemma update_commute:
  "inv s \<Longrightarrow> valid_k k \<Longrightarrow> valid_k k' \<Longrightarrow> valid_v v \<Longrightarrow> valid_v v' \<Longrightarrow> k \<noteq> k' \<Longrightarrow>
     update (update s k v) k' v' = update (update s k' v') k v"
  by (rule extensional) (auto simp: inv_update lookup_update)

lemma delete_update: "inv s \<Longrightarrow> valid_k k \<Longrightarrow> valid_v v \<Longrightarrow> lookup s k = None \<Longrightarrow> delete (update s k v) k = s"
  by (rule extensional) (auto simp: inv_update inv_delete lookup_update lookup_delete)

lemma delete_absent: "inv s \<Longrightarrow> valid_k k \<Longrightarrow> lookup s k = None \<Longrightarrow> delete s k = s"
  by (rule extensional) (auto simp: inv_delete lookup_delete)

lemma update_same: "inv s \<Longrightarrow> valid_k k \<Longrightarrow> valid_v v \<Longrightarrow> lookup s k = Some v \<Longrightarrow> update s k v = s"
  by (rule extensional) (auto simp: inv_update lookup_update)

lemma put_all_order:
  assumes "inv s" "\<forall>(k, v) \<in> set kvs. valid_k k \<and> valid_v v" "distinct (map fst kvs)" "mset kvs = mset kvs'"
  shows "put_all kvs s = put_all kvs' s"
proof (rule extensional)
  have set: "set kvs' = set kvs" using assms(4) by (metis mset_eq_setD)
  have dist: "distinct (map fst kvs')" using assms(3,4) by (metis mset_map mset_eq_imp_distinct_iff)
  show "inv (put_all kvs s)" "inv (put_all kvs' s)" using assms set by (simp_all add: put_all_inv)
  show "lookup (put_all kvs s) k = lookup (put_all kvs' s) k" if "valid_k k" for k
    using assms set dist that lookup_put_all [of s kvs k] lookup_put_all [of s kvs' k]
      map_of_inject_set [OF assms(3) dist] by simp
qed

end

text \<open>A possibly empty tree and its operations.\<close>

definition o_get :: "ptree option \<Rightarrow> bytes \<Rightarrow> bytes option" where
  "o_get s k = Option.bind s (\<lambda>t. t_get t k)"

definition o_insert :: "ptree option \<Rightarrow> bytes \<Rightarrow> bytes \<Rightarrow> ptree option" where
  "o_insert s k v = (case s of None \<Rightarrow> Some (PLeaf k v) | Some t \<Rightarrow> Some (t_insert t k v))"

definition o_remove :: "ptree option \<Rightarrow> bytes \<Rightarrow> ptree option" where
  "o_remove s k = Option.bind s (\<lambda>t. t_remove t k)"

interpretation ptree_map: key_map None o_get o_insert o_remove "pred_option wf_ptree" valid_key
  "\<lambda>v. v \<noteq> []"
proof (unfold_locales, goal_cases)
  case 1
  then show ?case by simp
next
  case (2 k)
  then show ?case by (simp add: o_get_def)
next
  case (3 s k v)
  then show ?case by (cases s) (auto simp: o_insert_def wf_insert)
next
  case (4 s k k' v)
  then show ?case by (cases s) (auto simp: o_insert_def o_get_def t_get_insert)
next
  case (5 s k)
  then show ?case by (cases s) (auto simp: o_remove_def wf_remove)
next
  case (6 s k k')
  then show ?case using t_get_remove [of _ k k'] by (cases s) (auto simp: o_remove_def o_get_def)
qed

interpretation ptree_map: canonical_map None o_get o_insert o_remove "pred_option wf_ptree" valid_key
  "\<lambda>v. v \<noteq> []"
proof (unfold_locales, goal_cases)
  case (1 s t)
  have "t' = u'" if "s = Some t'" "t = Some u'" for t' u'
    using 1 that ptree_unique [of t' u'] by (simp add: o_get_def same_contents_def)
  moreover have "s = None \<longleftrightarrow> t = None"
  proof -
    have "\<exists>k. valid_key k \<and> o_get x k \<noteq> None" if "pred_option wf_ptree x" "x \<noteq> None" for x
      using that wf_has_key by (auto simp: o_get_def)
    then show ?thesis using 1 by (metis ptree_map.lookup_empty)
  qed
  ultimately show ?case by (cases s; cases t) auto
qed

end
