(* ===== verification/Trie_Refine.thy ===== *)
theory Trie_Refine
  imports Trie_Ops Trie_Spec
begin

text \<open>
  The operations of \<open>Trie_Ops\<close> implement those of \<open>Trie_Spec\<close>.  \<open>rep_node keccak db c n t\<close> says
  that the node \<open>n\<close>, placed at the path \<open>c\<close> of the trie, stands for the tree \<open>t\<close>: following its
  references, through the database where they are hashes, yields \<open>t\<close>, and every hash on the way,
  stored or memoised, is the hash of the subtree it stands for.  All operations keep the relation,
  so no stale memo survives an update and the root hash is a function of the contents.
\<close>

section \<open>Hashes of trees\<close>

fun t_encode :: "(bytes \<Rightarrow> bytes) \<Rightarrow> ptree \<Rightarrow> bytes" where
  "t_encode keccak (PLeaf k v) = encode_leaf k v"
| "t_encode keccak (PExt p t) = encode_extension p (from_encoded keccak (t_encode keccak t))"
| "t_encode keccak (PBranch cs v) =
     encode_branch (map (\<lambda>c. case c of None \<Rightarrow> default_hash
       | Some t \<Rightarrow> from_encoded keccak (t_encode keccak t)) cs) v"

definition t_hash :: "(bytes \<Rightarrow> bytes) \<Rightarrow> ptree \<Rightarrow> nhash" where
  "t_hash keccak t = from_encoded keccak (t_encode keccak t)"

definition memo :: "noderef \<Rightarrow> nhash option" where
  "memo r = (case r of RNode _ h \<Rightarrow> h | RHash h \<Rightarrow> Some h)"

inductive rep_node :: "(bytes \<Rightarrow> bytes) \<Rightarrow> trie_db \<Rightarrow> bytes \<Rightarrow> node \<Rightarrow> ptree \<Rightarrow> bool"
  and rep_ref :: "(bytes \<Rightarrow> bytes) \<Rightarrow> trie_db \<Rightarrow> bytes \<Rightarrow> noderef \<Rightarrow> ptree \<Rightarrow> bool"
  for keccak db where
  rep_leaf: "rep_node keccak db c (Leaf k v) (PLeaf k v)"
| rep_ext: "rep_ref keccak db (c @ p) r t \<Longrightarrow> rep_node keccak db c (Extension p r) (PExt p t)"
| rep_branch: "length rs = 16 \<Longrightarrow> length ts = 16 \<Longrightarrow>
    \<forall>i < 16. ts ! i = None \<longrightarrow> rs ! i = RHash default_hash \<Longrightarrow>
    \<forall>i < 16. \<forall>t. ts ! i = Some t \<longrightarrow>
      is_valid (rs ! i) \<and> rep_ref keccak db (c @ [word_of_nat i]) (rs ! i) t \<Longrightarrow>
    rep_node keccak db c (Branch rs v) (PBranch ts v)"
| rep_refI: "get_node db r (from_hex c) = Inr (Some n) \<Longrightarrow> rep_node keccak db c n t \<Longrightarrow>
    \<forall>h. memo r = Some h \<longrightarrow> h = t_hash keccak t \<Longrightarrow> rep_ref keccak db c r t"

inductive_cases rep_leafE: "rep_node keccak db c (Leaf k v) t"
inductive_cases rep_extE: "rep_node keccak db c (Extension p r) t"
inductive_cases rep_branchE: "rep_node keccak db c (Branch rs v) t"
inductive_cases rep_refE: "rep_ref keccak db c r t"
inductive_cases rep_PLeafE: "rep_node keccak db c n (PLeaf k v)"
inductive_cases rep_PExtE: "rep_node keccak db c n (PExt p t)"
inductive_cases rep_PBranchE: "rep_node keccak db c n (PBranch ts v)"

lemma get_node_path: "n_data path = c \<Longrightarrow> get_node db r path = get_node db r (from_hex c)"
  by (simp add: get_node_def stored_node_def from_hex_def split: noderef.split nhash.split)

lemma get_node_mut_eq:
  "get_node db r (from_hex c) = Inr (Some n) \<Longrightarrow> n_data path = c \<Longrightarrow>
     get_node_mut db r path = Inr (Some (n, memo r))"
  by (auto simp: get_node_def get_node_mut_def stored_node_def from_hex_def memo_def
      split: noderef.splits nhash.splits option.splits)

lemma rep_refD:
  assumes "rep_ref keccak db c r t" "n_data path = c"
  obtains n where "get_node db r path = Inr (Some n)"
    "get_node_mut db r path = Inr (Some (n, memo r))" "rep_node keccak db c n t"
    "\<forall>h. memo r = Some h \<longrightarrow> h = t_hash keccak t"
  using assms get_node_path get_node_mut_eq by (metis rep_refE)

lemma rep_ref_node:
  "rep_node keccak db c n t \<Longrightarrow> \<forall>h'. h = Some h' \<longrightarrow> h' = t_hash keccak t \<Longrightarrow>
     rep_ref keccak db c (RNode n h) t"
  by (rule rep_refI) (auto simp: get_node_def memo_def)

lemma rep_ref_of_node: "rep_node keccak db c n t \<Longrightarrow> rep_ref keccak db c (ref_of_node n) t"
  by (simp add: ref_of_node_def rep_ref_node)

lemma rep_hash:
  "rep_node keccak db c n t \<Longrightarrow> encode_node keccak n = t_encode keccak t"
  "rep_ref keccak db c r t \<Longrightarrow> compute_hash keccak r = t_hash keccak t"
proof (induction rule: rep_node_rep_ref.inducts)
  case (rep_branch rs ts c v)
  have "map (compute_hash keccak) rs =
      map (\<lambda>c. case c of None \<Rightarrow> default_hash | Some t \<Rightarrow> from_encoded keccak (t_encode keccak t)) ts"
  proof (rule nth_equalityI)
    fix i assume "i < length (map (compute_hash keccak) rs)"
    then have i: "i < 16" using rep_branch by simp
    show "map (compute_hash keccak) rs ! i = map (\<lambda>c. case c of None \<Rightarrow> default_hash
        | Some t \<Rightarrow> from_encoded keccak (t_encode keccak t)) ts ! i"
      using rep_branch i by (cases "ts ! i") (auto simp: t_hash_def)
  qed (use rep_branch in simp)
  then show ?case by simp
next
  case (rep_refI r c n t)
  then show ?case
    by (cases r; cases "memo r") (auto simp: memo_def get_node_def t_hash_def)
qed (simp_all add: t_hash_def)

section \<open>Lookup\<close>

lemma next_choice_Cons:
  "next_choice \<lparr> n_data = x # xs, n_consumed = c \<rparr> =
     (if x < 16 then Some (unat x) else None, \<lparr> n_data = xs, n_consumed = c @ [x] \<rparr>)"
  by (simp add: next_choice_def nib_next_def)

lemma next_choice_Nil:
  "next_choice \<lparr> n_data = [], n_consumed = c \<rparr> = (None, \<lparr> n_data = [], n_consumed = c \<rparr>)"
  by (simp add: next_choice_def nib_next_def)

lemma skip_prefix_conv:
  "skip_prefix \<lparr> n_data = p, n_consumed = c \<rparr> q =
     (if take (length q) p = q then (True, \<lparr> n_data = drop (length q) p, n_consumed = c @ q \<rparr>)
      else (False, \<lparr> n_data = p, n_consumed = c \<rparr>))"
proof -
  have "length q \<le> length p" if "take (length q) p = q"
    using that by (metis length_take min.absorb_iff2 min.commute)
  then show ?thesis by (auto simp: skip_prefix_def nib_len_def)
qed

lemma n_data_current [simp]: "n_data (current path) = n_consumed path"
  by (simp add: current_def)

lemma not_valid_default [simp]: "\<not> is_valid (RHash default_hash)"
  by (simp add: is_valid_def hash_is_valid_def default_hash_def)

lemma node_get_refines:
  "rep_node keccak db c n t \<Longrightarrow> wf_ptree t \<Longrightarrow> length p < fuel \<Longrightarrow>
     node_get fuel db n \<lparr> n_data = p, n_consumed = c \<rparr> = Inr (t_get t p)"
proof (induction fuel arbitrary: c n t p)
  case (Suc fuel)
  show ?case
  proof (cases n)
    case (Leaf k v)
    then show ?thesis using Suc.prems by (auto simp: leaf_get_def elim: rep_leafE)
  next
    case (Extension q r)
    then obtain t' where t: "t = PExt q t'" and r: "rep_ref keccak db (c @ q) r t'"
      using Suc.prems(1) by (auto elim: rep_extE)
    have q: "q \<noteq> []" "wf_ptree t'" using Suc.prems(2) t by auto
    show ?thesis
    proof (cases "take (length q) p = q")
      case True
      then have len: "length (drop (length q) p) < fuel"
        using q Suc.prems(3) by (cases q; cases p) auto
      let ?path = "\<lparr> n_data = drop (length q) p, n_consumed = c @ q \<rparr>"
      obtain n' where n': "get_node db r (current ?path) = Inr (Some n')" "rep_node keccak db (c @ q) n' t'"
        using rep_refD [OF r, of "current ?path"] by auto
      with Suc.IH [OF n'(2) q(2) len] True t Extension show ?thesis
        by (simp add: extension_get_def skip_prefix_conv)
    next
      case False
      then show ?thesis using t Extension by (simp add: extension_get_def skip_prefix_conv)
    qed
  next
    case (Branch rs v)
    then obtain ts where t: "t = PBranch ts v" and
      none: "\<And>i. i < 16 \<Longrightarrow> ts ! i = None \<Longrightarrow> rs ! i = RHash default_hash" and
      some: "\<And>i t. i < 16 \<Longrightarrow> ts ! i = Some t \<Longrightarrow>
        is_valid (rs ! i) \<and> rep_ref keccak db (c @ [word_of_nat i]) (rs ! i) t"
      using Suc.prems(1) by (auto elim: rep_branchE)
    show ?thesis
    proof (cases p)
      case Nil
      then show ?thesis using t Branch by (simp add: branch_get_def next_choice_Nil)
    next
      case (Cons x xs)
      show ?thesis
      proof (cases "x < 16")
        case True
        note i = nibble_index [OF True]
        let ?path = "\<lparr> n_data = xs, n_consumed = c @ [x] \<rparr>"
        show ?thesis
        proof (cases "ts ! unat x")
          case None
          with none [OF i] True t Branch Cons show ?thesis by (simp add: branch_get_def next_choice_Cons)
        next
          case (Some t')
          with some [OF i] have v: "is_valid (rs ! unat x)" and r: "rep_ref keccak db (c @ [x]) (rs ! unat x) t'"
            by auto
          obtain n' where n': "get_node db (rs ! unat x) (current ?path) = Inr (Some n')"
            "rep_node keccak db (c @ [x]) n' t'"
            using rep_refD [OF r, of "current ?path"] by auto
          have "wf_ptree t'" using Suc.prems(2) t True Some wf_child by metis
          with Suc.IH [OF n'(2), of xs] n' v True t Branch Cons Some Suc.prems(3) show ?thesis
            by (simp add: branch_get_def next_choice_Cons)
        qed
      next
        case False
        then show ?thesis using t Branch Cons by (simp add: branch_get_def next_choice_Cons)
      qed
    qed
  qed
qed simp

section \<open>Insertion\<close>

lemma rep_branch_update:
  assumes "rep_node keccak db c (Branch rs w) (PBranch ts w)" "i < 16" "is_valid r"
    "rep_ref keccak db (c @ [word_of_nat i]) r t"
  shows "rep_node keccak db c (Branch (rs[i := r]) w) (PBranch (ts[i := Some t]) w)"
  using assms by (auto elim!: rep_branchE intro!: rep_branch simp: nth_list_update)

lemma rep_branch_value:
  "rep_node keccak db c (Branch rs w) (PBranch ts w) \<Longrightarrow> rep_node keccak db c (Branch rs v) (PBranch ts v)"
  by (auto elim!: rep_branchE intro!: rep_branch)

lemma rep_no_children: "rep_node keccak db c (Branch EMPTY_CHOICES w) (PBranch no_children w)"
  by (rule rep_branch) (auto simp: EMPTY_CHOICES_def default_hash_def)

lemma rep_branch_slot:
  assumes "rep_node keccak db c (Branch rs w) (PBranch ts w)" "i < 16"
  shows "is_valid (rs ! i) \<longleftrightarrow> ts ! i \<noteq> None" "length rs = 16" "length ts = 16"
  using assms by (auto elim!: rep_branchE)

lemma is_valid_node [simp]: "is_valid (RNode n h)" "is_valid (ref_of_node n)"
  by (simp_all add: is_valid_def ref_of_node_def)

lemma rep_leaf_ref: "rep_ref keccak db c (ref_of_node (Leaf k v)) (PLeaf k v)"
  by (intro rep_ref_of_node rep_leaf)

text \<open>Putting a value into an empty slot, or the value, of a branch.\<close>

lemma branch_insert_put:
  assumes rep: "rep_node keccak db c (Branch rs w) (PBranch ts w)" and key: "valid_key p"
    and empty: "\<And>x xs. p = x # xs \<Longrightarrow> x < 16 \<Longrightarrow> ts ! unat x = None"
  shows "\<exists>n'. branch_insert f db rs w \<lparr> n_data = p, n_consumed = c \<rparr> (Value v) = Inr n' \<and>
    rep_node keccak db c n' (t_put ts w p v)"
proof -
  obtain x xs where p: "p = x # xs" using key by (cases p) (auto simp: valid_key_def)
  show ?thesis
  proof (cases "x < 16")
    case True
    note i = nibble_index [OF True]
    have "\<not> is_valid (rs ! unat x)" using rep_branch_slot(1) [OF rep i] empty [OF p True] by simp
    moreover have "rep_node keccak db c (Branch (rs[unat x := ref_of_node (Leaf xs v)]) w)
        (PBranch (ts[unat x := Some (PLeaf xs v)]) w)"
      using rep i by (rule rep_branch_update) (simp_all add: rep_leaf_ref)
    ultimately show ?thesis using True by (simp add: branch_insert_def next_choice_Cons p t_put_def)
  next
    case False
    then show ?thesis using rep_branch_value [OF rep]
      by (simp add: branch_insert_def next_choice_Cons p t_put_def)
  qed
qed

text \<open>The branch a leaf with path \<open>k\<close> splits into when \<open>p\<close> departs from it after \<open>m\<close> nibbles.\<close>

definition split_branch :: "bytes \<Rightarrow> bytes \<Rightarrow> nat \<Rightarrow> bytes \<Rightarrow> bytes \<Rightarrow> node" where
  "split_branch k p m w v =
     (let old = ref_of_node (Leaf (drop (Suc m) k) w); new = ref_of_node (Leaf (drop (Suc m) p) v) in
      if k ! m = 16 then Branch (EMPTY_CHOICES[unat (p ! m) := new]) w
      else if p ! m = 16 then Branch (EMPTY_CHOICES[unat (k ! m) := old]) v
      else Branch (EMPTY_CHOICES[unat (p ! m) := new, unat (k ! m) := old]) [])"

lemma rep_split_branch:
  assumes "k ! m = 16 \<or> k ! m < 16" "p ! m = 16 \<or> p ! m < 16" "p ! m \<noteq> k ! m" "m < length p"
  shows "rep_node keccak db c (split_branch k p m w v)
    (if k ! m = 16 then t_put no_children w (drop m p) v
     else t_put (no_children[unat (k ! m) := Some (PLeaf (drop (Suc m) k) w)]) [] (drop m p) v)"
proof -
  let ?leaf = "ref_of_node (Leaf (drop (Suc m) k) w)"
  note dp = drop_nth_Cons [OF assms(4)]
  show ?thesis
  proof (cases "k ! m = 16")
    case True
    with assms nibble_index have "unat (p ! m) < 16" "p ! m < 16" by auto
    with True rep_branch_update [OF rep_no_children _ is_valid_node(2) rep_leaf_ref]
    show ?thesis by (simp add: split_branch_def t_put_def dp)
  next
    case k16: False
    with assms have k: "k ! m < 16" by simp
    note r1 = rep_branch_update [OF rep_no_children nibble_index [OF k] is_valid_node(2) rep_leaf_ref]
    show ?thesis
    proof (cases "p ! m = 16")
      case True
      with k16 rep_branch_value [OF r1] show ?thesis by (simp add: split_branch_def t_put_def dp)
    next
      case False
      with assms have p: "p ! m < 16" by simp
      have "unat (p ! m) \<noteq> unat (k ! m)" using assms by (simp add: nibble_index_inj)
      then have sw: "EMPTY_CHOICES[unat (p ! m) := x, unat (k ! m) := ?leaf] =
          EMPTY_CHOICES[unat (k ! m) := ?leaf, unat (p ! m) := x]" for x
        by (simp add: list_update_swap)
      show ?thesis
        using rep_branch_update [OF r1 nibble_index [OF p] is_valid_node(2) rep_leaf_ref] k16 False p sw
        by (simp add: split_branch_def t_put_def dp)
    qed
  qed
qed

lemma leaf_insert_split:
  assumes "k \<noteq> p" "m = count_prefix p k" "m < length p" "m < length k" "p ! m \<noteq> k ! m"
    and "k ! m = 16 \<or> k ! m < 16" "p ! m = 16 \<or> p ! m < 16"
  shows "leaf_insert k w \<lparr> n_data = p, n_consumed = c \<rparr> (Value v) =
    Inr (if m = 0 then split_branch k p m w v
         else Extension (take m p) (ref_of_node (split_branch k p m w v)))"
proof -
  have u: "unat x = 16 \<longleftrightarrow> x = 16" for x :: byte by (simp add: word_unat_eq_iff)
  have lt: "k ! m \<noteq> 16 \<Longrightarrow> unat (k ! m) < 16" "p ! m \<noteq> 16 \<Longrightarrow> unat (p ! m) < 16"
    using assms(6,7) nibble_index by auto
  note defs = leaf_insert_def Let_def nib_at_def nib_len_def from_hex_def nib_offset_def nib_slice_def
    slice_range_def new_child_def split_branch_def u assms(2) [symmetric] Suc_le_eq
  show ?thesis
  proof (cases "k ! m = 16")
    case True
    with assms(5) have "p ! m \<noteq> 16" by simp
    with True lt(2) assms(1,3,4) show ?thesis
      by (cases "m = 0") (simp_all add: defs)
  next
    case False
    note k = this lt(1) [OF this]
    show ?thesis
    proof (cases "p ! m = 16")
      case True
      with k assms(1,3,4) show ?thesis by (cases "m = 0") (simp_all add: defs)
    next
      case False
      with k lt(2) assms(1,3,4) show ?thesis by (cases "m = 0") (simp_all add: defs)
    qed
  qed
qed

lemma leaf_insert_refines:
  assumes "valid_key k" "valid_key p"
  shows "\<exists>n'. leaf_insert k w \<lparr> n_data = p, n_consumed = c \<rparr> (Value v) = Inr n' \<and>
    rep_node keccak db c n' (t_insert (PLeaf k w) p v)"
proof (cases "k = p")
  case True
  then show ?thesis by (auto simp: leaf_insert_def intro: rep_leaf)
next
  case False
  define m where "m = count_prefix p k"
  have m: "m < length p" "m < length k"
    using count_prefix_valid_keys [OF assms(2,1)] False by (auto simp: m_def)
  have ne: "p ! m \<noteq> k ! m" using count_prefix_differ [of p k] m by (simp add: m_def)
  have "valid_key (drop m p)" "valid_key (drop m k)"
    using valid_key_drop assms m by auto
  then have km: "k ! m = 16 \<or> k ! m < 16" "p ! m = 16 \<or> p ! m < 16"
    using drop_nth_Cons [OF m(2)] drop_nth_Cons [OF m(1)] by (auto simp: valid_key_Cons)
  have t: "t_insert (PLeaf k w) p v = t_ext (take m p)
      (if k ! m = 16 then t_put no_children w (drop m p) v
       else t_put (no_children[unat (k ! m) := Some (PLeaf (drop (Suc m) k) w)]) [] (drop m p) v)"
    using False by (simp add: m_def Let_def)
  show ?thesis
    unfolding leaf_insert_split [OF False m_def m ne km] t
    using rep_split_branch [OF km ne m(1)] m
    by (cases "m = 0") (auto simp: t_ext_def intro!: rep_ext rep_ref_of_node)
qed

text \<open>Insertion into the node behind a reference; the memo of the reference is dropped.\<close>

lemma child_insert_refines:
  assumes "rep_ref keccak db c r t" "n_consumed path = c"
    and "\<And>n. rep_node keccak db c n t \<Longrightarrow>
      \<exists>n'. ins n path v = Inr n' \<and> rep_node keccak db c n' t'"
  shows "\<exists>n h n'. get_node_mut db r (current path) = Inr (Some (n, h)) \<and> ins n path v = Inr n' \<and>
    rep_ref keccak db c (clear_hash (RNode n' h)) t'"
proof -
  obtain n where n: "get_node_mut db r (current path) = Inr (Some (n, memo r))" "rep_node keccak db c n t"
    using rep_refD [OF assms(1), of "current path"] assms(2) by auto
  with assms(3) obtain n' where "ins n path v = Inr n'" "rep_node keccak db c n' t'" by blast
  with n show ?thesis by (auto simp: clear_hash_def intro!: rep_ref_node)
qed

lemma t_insert_partial:
  assumes "m = count_prefix p q" "0 < m" "m < length q"
  shows "t_insert (PExt q t) p v = PExt (take m q) (t_insert (PExt (drop m q) t) (drop m p) v)"
    "count_prefix (drop m p) (drop m q) = 0"
proof -
  show 0: "count_prefix (drop m p) (drop m q) = 0"
    unfolding assms(1) by (induction p arbitrary: q; case_tac q) auto
  show "t_insert (PExt q t) p v = PExt (take m q) (t_insert (PExt (drop m q) t) (drop m p) v)"
    using assms 0 by (auto simp: Let_def t_ext_def)
qed

lemma extension_split_refines:
  assumes r: "rep_ref keccak db (c @ q) r t" and q: "q \<noteq> []" "nibble_list q"
    and p: "valid_key p" "count_prefix p q = 0" and valid: "is_valid r"
  shows "\<exists>n'. extension_insert f db q r \<lparr> n_data = p, n_consumed = c \<rparr> (Value v) = Inr n' \<and>
    rep_node keccak db c n' (t_insert (PExt q t) p v)"
proof -
  obtain y ys where qy: "q = y # ys" and y: "y < 16" using q by (cases q) auto
  obtain x xs where px: "p = x # xs" using p by (cases p) (auto simp: valid_key_def)
  have xy: "x \<noteq> y" using p(2) px qy by (auto split: if_splits)
  note i = nibble_index [OF y]
  define new where "new = (if ys = [] then r else ref_of_node (Extension ys r))"
  have "rep_ref keccak db (c @ [y]) new (t_ext ys t)"
    using r rep_ext [of keccak db "c @ [y]" ys r t]
    by (auto simp: new_def t_ext_def qy intro!: rep_ref_of_node)
  then have rep: "rep_node keccak db c (Branch (EMPTY_CHOICES[unat y := new]) [])
      (PBranch (no_children[unat y := Some (t_ext ys t)]) [])"
    by (intro rep_branch_update [OF rep_no_children i]) (use valid in \<open>simp_all add: new_def\<close>)
  have "\<exists>n'. branch_insert f db (EMPTY_CHOICES[unat y := new]) [] \<lparr> n_data = p, n_consumed = c \<rparr> (Value v)
      = Inr n' \<and> rep_node keccak db c n' (t_put (no_children[unat y := Some (t_ext ys t)]) [] p v)"
    by (rule branch_insert_put [OF rep p(1)])
      (use xy px in \<open>auto simp: nth_list_update nibble_index_inj nibble_index\<close>)
  moreover have "unat y \<noteq> 16" using i by simp
  ultimately show ?thesis using i p(2)
    by (cases ys) (auto simp: extension_insert_def qy nib_at_def nib_len_def from_hex_def nib_offset_def
        new_def t_ext_def)
qed

lemma rep_ref_valid: "rep_ref keccak db c r t \<Longrightarrow> is_valid r"
  by (erule rep_refE) (auto simp: get_node_def is_valid_def hash_is_valid_def decode_def decode_node_def
      Decoder_new_def decode_rlp_item_def split: noderef.splits nhash.splits)

lemma extension_insert_refines:
  assumes r: "rep_ref keccak db (c @ q) r t" and q: "q \<noteq> []" "nibble_list q" and p: "valid_key p"
    and child: "\<And>n. count_prefix p q = length q \<Longrightarrow> rep_node keccak db (c @ q) n t \<Longrightarrow>
      \<exists>n'. f n \<lparr> n_data = drop (length q) p, n_consumed = c @ q \<rparr> (Value v) = Inr n' \<and>
        rep_node keccak db (c @ q) n' (t_insert t (drop (length q) p) v)"
    and rest: "\<And>m. 0 < m \<Longrightarrow> m < length q \<Longrightarrow> m = count_prefix p q \<Longrightarrow>
      \<exists>n'. f (Extension (drop m q) r) \<lparr> n_data = drop m p, n_consumed = c @ take m p \<rparr> (Value v) = Inr n' \<and>
        rep_node keccak db (c @ take m p) n' (t_insert (PExt (drop m q) t) (drop m p) v)"
  shows "\<exists>n'. extension_insert f db q r \<lparr> n_data = p, n_consumed = c \<rparr> (Value v) = Inr n' \<and>
    rep_node keccak db c n' (t_insert (PExt q t) p v)"
proof -
  define m where "m = count_prefix p q"
  have le: "m \<le> length p" "m \<le> length q" by (simp_all add: m_def count_prefix_le)
  have tk: "take m p = take m q" unfolding m_def by (rule count_prefix_take)
  consider "m = length q" | "m = 0" "m < length q" | "0 < m" "m < length q" using le(2) by linarith
  then show ?thesis
  proof cases
    case 1
    let ?path = "\<lparr> n_data = drop m p, n_consumed = c @ q \<rparr>"
    have "\<exists>n h n'. get_node_mut db r (current ?path) = Inr (Some (n, h)) \<and> f n ?path (Value v) = Inr n' \<and>
      rep_ref keccak db (c @ q) (clear_hash (RNode n' h)) (t_insert t (drop m p) v)"
      using child 1 by (intro child_insert_refines [OF r]) (simp_all add: m_def)
    with 1 le tk show ?thesis
      by (fastforce simp: extension_insert_def m_def [symmetric] nib_offset_def nib_len_def Let_def
          intro: rep_ext)
  next
    case 2
    then show ?thesis
      using extension_split_refines [OF r q p _ rep_ref_valid [OF r]] by (simp add: m_def)
  next
    case 3
    from rest [OF 3 m_def] obtain n' where
      "f (Extension (drop m q) r) \<lparr> n_data = drop m p, n_consumed = c @ take m p \<rparr> (Value v) = Inr n'"
      "rep_node keccak db (c @ take m p) n' (t_insert (PExt (drop m q) t) (drop m p) v)" by blast
    with 3 le tk t_insert_partial(1) [OF m_def 3] show ?thesis
      by (auto simp: extension_insert_def m_def [symmetric] nib_offset_def nib_slice_def nib_len_def
          from_hex_def slice_range_def Let_def simp del: t_insert.simps intro!: rep_ext rep_ref_of_node)
  qed
qed

lemma branch_insert_refines:
  assumes rep: "rep_node keccak db c (Branch rs w) (PBranch ts w)" and p: "valid_key p"
    and child: "\<And>n x xs t. p = x # xs \<Longrightarrow> x < 16 \<Longrightarrow> ts ! unat x = Some t \<Longrightarrow>
      rep_node keccak db (c @ [x]) n t \<Longrightarrow>
      \<exists>n'. f n \<lparr> n_data = xs, n_consumed = c @ [x] \<rparr> (Value v) = Inr n' \<and>
        rep_node keccak db (c @ [x]) n' (t_insert t xs v)"
  shows "\<exists>n'. branch_insert f db rs w \<lparr> n_data = p, n_consumed = c \<rparr> (Value v) = Inr n' \<and>
    rep_node keccak db c n' (t_insert (PBranch ts w) p v)"
proof -
  obtain x xs where px: "p = x # xs" using p by (cases p) (auto simp: valid_key_def)
  show ?thesis
  proof (cases "x < 16 \<and> ts ! unat x \<noteq> None")
    case True
    then obtain t where x: "x < 16" and t: "ts ! unat x = Some t" by auto
    note i = nibble_index [OF x]
    have r: "rep_ref keccak db (c @ [x]) (rs ! unat x) t" and v: "is_valid (rs ! unat x)"
      using rep i t by (auto elim!: rep_branchE)
    let ?path = "\<lparr> n_data = xs, n_consumed = c @ [x] \<rparr>"
    obtain n h n' where n: "get_node_mut db (rs ! unat x) (current ?path) = Inr (Some (n, h))"
      "f n ?path (Value v) = Inr n'" "rep_ref keccak db (c @ [x]) (clear_hash (RNode n' h)) (t_insert t xs v)"
      using child_insert_refines [OF r, of ?path f "Value v" "t_insert t xs v"] child [OF px x t] by auto
    have "rep_node keccak db c (Branch (rs[unat x := clear_hash (RNode n' h)]) w)
        (PBranch (ts[unat x := Some (t_insert t xs v)]) w)"
      using n(3) by (intro rep_branch_update [OF rep i]) (simp_all add: rep_ref_valid)
    with n v x t show ?thesis
      by (simp add: branch_insert_def insert_into_child_def next_choice_Cons px)
  next
    case False
    then have "t_insert (PBranch ts w) p v = t_put ts w p v" by (auto simp: px t_put_def)
    then show ?thesis using branch_insert_put [OF rep p] False px by auto
  qed
qed

lemma node_insert_refines:
  "rep_node keccak db c n t \<Longrightarrow> wf_ptree t \<Longrightarrow> valid_key p \<Longrightarrow> length p < fuel \<Longrightarrow>
     \<exists>n'. node_insert fuel db n \<lparr> n_data = p, n_consumed = c \<rparr> (Value v) = Inr n' \<and>
       rep_node keccak db c n' (t_insert t p v)"
proof (induction fuel arbitrary: c n t p)
  case (Suc fuel)
  show ?case
  proof (cases n)
    case (Leaf k w)
    with Suc.prems have "t = PLeaf k w" "valid_key k" by (auto elim: rep_leafE)
    with leaf_insert_refines [OF this(2) Suc.prems(3)] Leaf show ?thesis by simp
  next
    case (Extension q r)
    then obtain t' where t: "t = PExt q t'" and r: "rep_ref keccak db (c @ q) r t'"
      using Suc.prems(1) by (auto elim: rep_extE)
    have q: "q \<noteq> []" "nibble_list q" "is_branch t'" "wf_ptree t'" using Suc.prems(2) t by auto
    show ?thesis unfolding Extension t node_insert.simps node.case
    proof (rule extension_insert_refines [OF r q(1,2) Suc.prems(3)], goal_cases)
      case (1 n)
      have "valid_key (drop (length q) p)" "length (drop (length q) p) < fuel"
        using 1(1) Suc.prems(3,4) valid_key_drop count_prefix_nibbles [OF Suc.prems(3) q(2)] q(1)
        by (auto simp: length_greater_0_conv [symmetric] simp del: length_greater_0_conv)
      then show ?case using 1(2) q(4) Suc.IH by blast
    next
      case (2 m)
      have m: "m < length p" using 2(3) count_prefix_nibbles [OF Suc.prems(3) q(2)] by simp
      have "rep_node keccak db (c @ take m p) (Extension (drop m q) r) (PExt (drop m q) t')"
        using r 2 count_prefix_take [of p q] by (intro rep_ext) simp
      moreover have "wf_ptree (PExt (drop m q) t')" using q 2 by (auto simp: list_all_iff dest: in_set_dropD)
      moreover have "valid_key (drop m p)" using valid_key_drop Suc.prems(3) m by blast
      ultimately show ?case using 2 m Suc.prems(4) by (intro Suc.IH) auto
    qed
  next
    case (Branch rs w)
    then obtain ts where t: "t = PBranch ts w" using Suc.prems(1) by (auto elim: rep_branchE)
    have rep: "rep_node keccak db c (Branch rs w) (PBranch ts w)" using Suc.prems(1) Branch t by simp
    show ?thesis unfolding Branch t node_insert.simps node.case
    proof (rule branch_insert_refines [OF rep Suc.prems(3)], goal_cases)
      case (1 n x xs t')
      have "wf_ptree t'" using Suc.prems(2) t 1 wf_child by blast
      moreover have "valid_key xs" "length xs < fuel" using Suc.prems 1 by (auto simp: valid_key_Cons)
      ultimately show ?case using 1(4) Suc.IH by blast
    qed
  qed
qed simp

end
