(* ===== verification/Trie_Remove.thy ===== *)
theory Trie_Remove
  imports Trie_Refine
begin

text \<open>
  Removal refines \<open>t_remove\<close>: the node and the restructuring of branches and extensions that are
  left with a single child agree with the collapse of the specification.
\<close>

section \<open>Children of a branch\<close>

lemma filter_enumerate_fst:
  "list_all2 (\<lambda>r t. is_valid r \<longleftrightarrow> t \<noteq> None) rs ts \<Longrightarrow>
     map fst (filter (\<lambda>(_, c). is_valid c) (enumerate n rs)) =
     map fst (filter (\<lambda>(_, c). c \<noteq> None) (enumerate n ts))"
  by (induction arbitrary: n rule: list_all2_induct) auto

lemma valid_children_fst:
  assumes "rep_node keccak db c (Branch rs v) (PBranch ts v)"
  shows "map fst (valid_children rs) = map fst (children ts)"
proof -
  have "list_all2 (\<lambda>r t. is_valid r \<longleftrightarrow> t \<noteq> None) rs ts"
    using rep_branch_slot(1) [OF assms] rep_branch_slot(2,3) [OF assms, of 0]
    by (simp add: list_all2_conv_all_nth)
  from filter_enumerate_fst [OF this, of 0] show ?thesis
    by (simp add: valid_children_def children_def case_prod_unfold comp_def)
qed

lemma valid_children_one:
  assumes "rep_node keccak db c (Branch rs v) (PBranch ts v)" "children ts = [(i, t)]"
  shows "valid_children rs = [(i, rs ! i)]"
proof -
  obtain r where r: "valid_children rs = [(i, r)]"
    using valid_children_fst [OF assms(1)] assms(2) by (auto simp: map_eq_Cons_conv)
  then have "(i, r) \<in> set (filter (\<lambda>(_, c). is_valid c) (enumerate 0 rs))"
    by (simp add: valid_children_def)
  with r show ?thesis by (simp add: in_set_enumerate_eq)
qed

lemma branch_restructure_refines:
  assumes rep: "rep_node keccak db c (Branch rs v) (PBranch ts v)"
  shows "\<exists>r self. branch_restructure db rs v \<lparr> n_data = p, n_consumed = c \<rparr> old = Inr (Some r, old, self) \<and>
    rep_node keccak db c (case r of New n \<Rightarrow> n | Mutated \<Rightarrow> self) (t_collapse ts v)"
proof -
  let ?path = "\<lparr> n_data = p, n_consumed = c \<rparr>"
  have len: "length (valid_children rs) = length (children ts)"
    using valid_children_fst [OF rep] by (metis length_map)
  consider "children ts = []" "v \<noteq> []" | i t where "children ts = [(i, t)]" "v = []"
    | "t_collapse ts v = PBranch ts v" "\<not> (children ts = [] \<and> v \<noteq> [])" "\<not> (length (children ts) = 1 \<and> v = [])"
    by (cases "children ts" rule: list.exhaust; cases "tl (children ts)"; cases "v = []")
       (auto simp: t_collapse_def)
  then show ?thesis
  proof cases
    case 1
    with len show ?thesis by (auto simp: branch_restructure_def t_collapse_def intro: rep_leaf)
  next
    case 2
    note one = one_childD [OF 2(1)]
    have ts: "length ts = 16" using rep by (auto elim: rep_branchE)
    then have "rep_ref keccak db (c @ [word_of_nat i]) (rs ! i) t" using rep one by (auto elim!: rep_branchE)
    then obtain n where n: "get_node_mut db (rs ! i) (append_new (current ?path) (word_of_nat i)) = Inr (Some (n, memo (rs ! i)))"
      "rep_node keccak db (c @ [word_of_nat i]) n t" "\<forall>h. memo (rs ! i) = Some h \<longrightarrow> h = t_hash keccak t"
      by (rule rep_refD [where path = "append_new (current ?path) (word_of_nat i)"]) (auto simp: append_new_def)
    have "rep_node keccak db c (case n of Branch _ _ \<Rightarrow> Extension [word_of_nat i] (RNode n (memo (rs ! i)))
        | Extension pre c \<Rightarrow> Extension (word_of_nat i # pre) c
        | Leaf partial v \<Rightarrow> Leaf (word_of_nat i # partial) v) (t_prepend [word_of_nat i] t)"
      using n(2,3) rep_ref_node [OF n(2), of "memo (rs ! i)"]
      by (cases n) (auto elim!: rep_leafE rep_extE rep_branchE intro!: rep_leaf rep_ext)
    with 2 n valid_children_one [OF rep 2(1)] show ?thesis
      by (simp add: branch_restructure_def t_collapse_def Let_def)
  next
    case 3
    then have "branch_restructure db rs v ?path old = Inr (Some Mutated, old, Branch rs v)"
      using len by (auto simp: branch_restructure_def Let_def)
    with 3 rep show ?thesis by (intro exI [of _ Mutated] exI [of _ "Branch rs v"]) simp
  qed
qed

section \<open>The three kinds of node\<close>

text \<open>What a removal must yield for the tree \<open>t\<close> at path \<open>c\<close> and key \<open>p\<close>.\<close>

definition removes :: "(bytes \<Rightarrow> bytes) \<Rightarrow> trie_db \<Rightarrow> bytes \<Rightarrow> ptree \<Rightarrow> bytes
    \<Rightarrow> trie_fail + (bool \<times> bytes option \<times> node) \<Rightarrow> bool" where
  "removes keccak db c t p res \<longleftrightarrow> (\<exists>e n'. res = Inr (e, t_get t p, n') \<and>
     (case t_remove t p of None \<Rightarrow> e | Some t' \<Rightarrow> \<not> e \<and> rep_node keccak db c n' t'))"

lemma leaf_remove_refines:
  "removes keccak db c (PLeaf k v) p
     (and_then (leaf_remove k v \<lparr> n_data = p, n_consumed = c \<rparr>) (\<lambda>r. Inr (removal_outcome r)))"
  by (auto simp: removes_def leaf_remove_def removal_outcome_def intro: rep_leaf)

lemma extension_remove_refines:
  assumes r: "rep_ref keccak db (c @ q) r t" and b: "is_branch t"
    and child: "\<And>n. take (length q) p = q \<Longrightarrow> rep_node keccak db (c @ q) n t \<Longrightarrow>
      removes keccak db (c @ q) t (drop (length q) p) (f n \<lparr> n_data = drop (length q) p, n_consumed = c @ q \<rparr>)"
  shows "removes keccak db c (PExt q t) p
    (and_then (extension_remove f db q r \<lparr> n_data = p, n_consumed = c \<rparr>) (\<lambda>r. Inr (removal_outcome r)))"
proof (cases "take (length q) p = q")
  case True
  let ?p = "drop (length q) p" and ?path = "\<lparr> n_data = drop (length q) p, n_consumed = c @ q \<rparr>"
  obtain t' where t': "t_remove t ?p = Some t'" using t_remove_branch [OF b] by blast
  obtain n where n: "get_node_mut db r (current ?path) = Inr (Some (n, memo r))" "rep_node keccak db (c @ q) n t"
    using rep_refD [OF r, of "current ?path"] by auto
  obtain n' where n': "f n ?path = Inr (False, t_get t ?p, n')" "rep_node keccak db (c @ q) n' t'"
    using child [OF True n(2)] t' by (auto simp: removes_def)
  show ?thesis
    using True n n' t'
    by (cases n') (auto simp: removes_def extension_remove_def skip_prefix_conv removal_outcome_def
        clear_hash_def ref_of_node_def elim!: rep_leafE rep_extE rep_branchE
        intro!: rep_leaf rep_ext rep_ref_node rep_branch)
next
  case False
  with r show ?thesis
    by (auto simp: removes_def extension_remove_def skip_prefix_conv removal_outcome_def intro: rep_ext)
qed

lemma branch_remove_refines:
  assumes rep: "rep_node keccak db c (Branch rs v) (PBranch ts v)" and p: "p = x # xs"
    and child: "\<And>n t. x < 16 \<Longrightarrow> ts ! unat x = Some t \<Longrightarrow> rep_node keccak db (c @ [x]) n t \<Longrightarrow>
      removes keccak db (c @ [x]) t xs (f n \<lparr> n_data = xs, n_consumed = c @ [x] \<rparr>)"
  shows "removes keccak db c (PBranch ts v) p
    (and_then (branch_remove f db rs v \<lparr> n_data = p, n_consumed = c \<rparr>) (\<lambda>r. Inr (removal_outcome r)))"
proof -
  let ?base = "\<lparr> n_data = p, n_consumed = c \<rparr>"
  have fin: "\<exists>n'. and_then (branch_restructure db rs' v' ?base old) (\<lambda>r. Inr (removal_outcome r)) = Inr (False, old, n') \<and>
      rep_node keccak db c n' (t_collapse ts' v')"
    if rep': "rep_node keccak db c (Branch rs' v') (PBranch ts' v')" for rs' ts' v' old
  proof -
    obtain r self where "branch_restructure db rs' v' ?base old = Inr (Some r, old, self)"
      "rep_node keccak db c (case r of New n \<Rightarrow> n | Mutated \<Rightarrow> self) (t_collapse ts' v')"
      using branch_restructure_refines [OF rep'] by blast
    then show ?thesis by (cases r) (simp_all add: removal_outcome_def)
  qed
  show ?thesis
  proof (cases "x < 16")
    case True
    note i = nibble_index [OF True]
    let ?path = "\<lparr> n_data = xs, n_consumed = c @ [x] \<rparr>"
    show ?thesis
    proof (cases "ts ! unat x")
      case None
      with rep_branch_slot(1) [OF rep i] fin [OF rep, of None] True show ?thesis
        by (auto simp: removes_def branch_remove_def next_choice_Cons p)
    next
      case (Some t)
      then have r: "rep_ref keccak db (c @ [x]) (rs ! unat x) t" and va: "is_valid (rs ! unat x)"
        using rep i by (auto elim!: rep_branchE)
      obtain n where n: "get_node_mut db (rs ! unat x) (current ?path) = Inr (Some (n, memo (rs ! unat x)))"
        "rep_node keccak db (c @ [x]) n t" using rep_refD [OF r, of "current ?path"] by auto
      obtain e n' where n': "f n ?path = Inr (e, t_get t xs, n')"
        "case t_remove t xs of None \<Rightarrow> e | Some t' \<Rightarrow> \<not> e \<and> rep_node keccak db (c @ [x]) n' t'"
        using child [OF True Some n(2)] by (auto simp: removes_def)
      let ?r = "clear_hash (if e then RHash default_hash else RNode n' (memo (rs ! unat x)))"
      have "rep_node keccak db c (Branch (rs[unat x := ?r]) v) (PBranch (ts[unat x := t_remove t xs]) v)"
      proof (cases "t_remove t xs")
        case None
        with n'(2) rep i show ?thesis
          by (auto simp: clear_hash_def nth_list_update elim!: rep_branchE intro!: rep_branch)
      next
        case (Some t')
        with n'(2) have "rep_ref keccak db (c @ [word_of_nat (unat x)]) ?r t'"
          by (simp add: clear_hash_def rep_ref_node)
        with Some show ?thesis using rep_branch_update [OF rep i rep_ref_valid] by simp
      qed
      from fin [OF this, of "t_get t xs"] n n' True Some va show ?thesis
        by (auto simp: removes_def branch_remove_def next_choice_Cons p)
    qed
  next
    case False
    from fin [OF rep_branch_value [OF rep, of "[]"], of "if v = [] then None else Some v"] False show ?thesis
      by (auto simp: removes_def branch_remove_def next_choice_Cons p split: if_splits)
  qed
qed

lemma node_remove_refines:
  "rep_node keccak db c n t \<Longrightarrow> wf_ptree t \<Longrightarrow> valid_key p \<Longrightarrow> length p < fuel \<Longrightarrow>
     removes keccak db c t p (node_remove fuel db n \<lparr> n_data = p, n_consumed = c \<rparr>)"
proof (induction fuel arbitrary: c n t p)
  case (Suc fuel)
  show ?case
  proof (cases n)
    case (Leaf k w)
    with Suc.prems have "t = PLeaf k w" by (auto elim: rep_leafE)
    with leaf_remove_refines Leaf show ?thesis by simp
  next
    case (Extension q r)
    then obtain t' where t: "t = PExt q t'" and r: "rep_ref keccak db (c @ q) r t'"
      using Suc.prems(1) by (auto elim: rep_extE)
    have q: "q \<noteq> []" "nibble_list q" "is_branch t'" "wf_ptree t'" using Suc.prems(2) t by auto
    show ?thesis unfolding Extension t node_remove.simps node.case
    proof (rule extension_remove_refines [OF r q(3)])
      fix n assume "take (length q) p = q" "rep_node keccak db (c @ q) n t'"
      moreover from this have "valid_key (drop (length q) p)" "length (drop (length q) p) < fuel"
        using valid_key_drop_prefix [OF Suc.prems(3) q(2)] Suc.prems(4) q(1)
          valid_key_nonempty [OF Suc.prems(3)]
        by (simp_all add: length_greater_0_conv [symmetric] del: length_greater_0_conv)
      ultimately show "removes keccak db (c @ q) t' (drop (length q) p)
          (node_remove fuel db n \<lparr> n_data = drop (length q) p, n_consumed = c @ q \<rparr>)"
        using q(4) by (intro Suc.IH)
    qed
  next
    case (Branch rs w)
    then obtain ts where t: "t = PBranch ts w" using Suc.prems(1) by (auto elim: rep_branchE)
    obtain x xs where p: "p = x # xs" using Suc.prems(3) by (cases p) (auto simp: valid_key_def)
    have rep: "rep_node keccak db c (Branch rs w) (PBranch ts w)" using Suc.prems(1) Branch t by simp
    show ?thesis unfolding Branch t node_remove.simps node.case
    proof (rule branch_remove_refines [OF rep p])
      fix n t' assume x: "x < 16" "ts ! unat x = Some t'" "rep_node keccak db (c @ [x]) n t'"
      have "wf_ptree t'" using Suc.prems(2) t x wf_child by blast
      moreover have "valid_key xs" "length xs < fuel" using Suc.prems p x by (auto simp: valid_key_Cons)
      ultimately show "removes keccak db (c @ [x]) t' xs
          (node_remove fuel db n \<lparr> n_data = xs, n_consumed = c @ [x] \<rparr>)"
        using x(3) by (intro Suc.IH)
    qed
  qed
qed (simp add: removes_def)

end
