(* ===== verification/Trie_Laws.thy ===== *)
theory Trie_Laws
  imports Trie_Remove
begin

text \<open>
  The trie as a map.  \<open>trie_inv keccak db flat t m\<close> says that the trie \<open>t\<close> over the database \<open>db\<close>
  holds exactly the entries of the map \<open>m\<close>: its root represents a well-formed tree with those
  entries, and the flat key-value table the backend may serve lookups from agrees with \<open>m\<close> on every
  key that was not written since.  Every operation of \<open>Trie\<close> keeps the invariant with the
  corresponding update of \<open>m\<close>, none of them fails, and the root hash is a function of \<open>m\<close> alone.
\<close>

definition key_of :: "bytes \<Rightarrow> bytes" where
  "key_of b = n_data (from_bytes b)"

definition holds :: "ptree option \<Rightarrow> (bytes \<rightharpoonup> bytes) \<Rightarrow> bool" where
  "holds s m \<longleftrightarrow> (\<forall>b. o_get s (key_of b) = m b) \<and>
     (\<forall>k. valid_key k \<longrightarrow> o_get s k \<noteq> None \<longrightarrow> k \<in> range key_of)"

definition rep_root :: "(bytes \<Rightarrow> bytes) \<Rightarrow> trie_db \<Rightarrow> noderef \<Rightarrow> ptree option \<Rightarrow> bool" where
  "rep_root keccak db r s \<longleftrightarrow>
     (case s of None \<Rightarrow> r = RHash default_hash
      | Some t \<Rightarrow> rep_ref keccak db [] r t \<and> (\<forall>bs. r \<noteq> RHash (Inline bs)))"

definition flat_value :: "bytes option \<Rightarrow> bytes option" where
  "flat_value r = (case r of None \<Rightarrow> None | Some v \<Rightarrow> if v = [] then None else Some v)"

definition flat_ok :: "trie_db \<Rightarrow> (bytes \<Rightarrow> bool) \<Rightarrow> trie \<Rightarrow> (bytes \<rightharpoonup> bytes) \<Rightarrow> bool" where
  "flat_ok db flat t m \<longleftrightarrow> (\<forall>b. flat (key_of b) \<longrightarrow> key_of b \<notin> set (dirty t) \<longrightarrow>
     (\<exists>r. db (key_of b) = Inr r \<and> flat_value r = m b))"

definition trie_inv ::
  "(bytes \<Rightarrow> bytes) \<Rightarrow> trie_db \<Rightarrow> (bytes \<Rightarrow> bool) \<Rightarrow> trie \<Rightarrow> (bytes \<rightharpoonup> bytes) \<Rightarrow> bool" where
  "trie_inv keccak db flat t m \<longleftrightarrow> flat_ok db flat t m \<and>
     (\<exists>s. rep_root keccak db (root t) s \<and> pred_option wf_ptree s \<and> holds s m)"

lemma key_of_valid: "valid_key (key_of b)"
  by (simp add: key_of_def from_bytes_valid)

lemma key_of_conv: "key_of b = expand_bytes_to_nibbles_scalar b @ [16]"
  by (simp add: key_of_def from_bytes_def from_raw_def expand_bytes_to_nibbles_def)

lemma key_of_inj: "key_of a = key_of b \<longleftrightarrow> a = b"
  by (metis append_same_eq key_of_conv pack_expand)

lemma from_bytes_conv: "from_bytes b = \<lparr> n_data = key_of b, n_consumed = [] \<rparr>"
  by (simp add: key_of_def from_bytes_def from_raw_def)

lemma path_fuel_key: "length (key_of b) < path_fuel (from_bytes b)"
  by (simp add: path_fuel_def nib_len_def from_bytes_conv)

section \<open>Contents\<close>

lemma holds_empty: "holds None Map.empty"
  by (simp add: holds_def o_get_def)

lemma holds_insert:
  assumes "holds s m" "pred_option wf_ptree s" "v \<noteq> []"
  shows "holds (o_insert s (key_of b) v) (m(b \<mapsto> v))"
  using assms ptree_map.lookup_update [OF assms(2) key_of_valid key_of_valid assms(3)]
    ptree_map.lookup_update [OF assms(2) key_of_valid _ assms(3)]
  by (auto simp: holds_def key_of_inj)

lemma holds_remove:
  assumes "holds s m" "pred_option wf_ptree s"
  shows "holds (o_remove s (key_of b)) (m(b := None))"
  using assms ptree_map.lookup_delete [OF assms(2) key_of_valid key_of_valid]
    ptree_map.lookup_delete [OF assms(2) key_of_valid]
  by (auto simp: holds_def key_of_inj)

lemma holds_unique:
  assumes "holds s m" "holds s' m" "pred_option wf_ptree s" "pred_option wf_ptree s'"
  shows "s = s'"
proof (rule ptree_map.extensional [OF assms(3,4)])
  fix k assume k: "valid_key k"
  show "o_get s k = o_get s' k"
  proof (cases "k \<in> range key_of")
    case True
    with assms(1,2) show ?thesis by (auto simp: holds_def)
  next
    case False
    with assms(1,2) k have "o_get s k = None" "o_get s' k = None" by (auto simp: holds_def)
    then show ?thesis by simp
  qed
qed

section \<open>Operations\<close>

lemma rep_root_valid: "rep_root keccak db r s \<Longrightarrow> is_valid r \<longleftrightarrow> s \<noteq> None"
  by (cases s) (auto simp: rep_root_def rep_ref_valid)

lemma rep_root_mut:
  assumes "rep_root keccak db (root t) (Some u)"
  obtains n where "root_mut db t = Inr (n, memo (root t))" "rep_node keccak db [] n u"
proof -
  have "rep_ref keccak db [] (root t) u" using assms by (simp add: rep_root_def)
  then obtain n where "get_node_mut db (root t) (from_hex []) = Inr (Some (n, memo (root t)))"
    "rep_node keccak db [] n u" by (rule rep_refD [where path = "from_hex []"]) (auto simp: from_hex_def)
  with that show ?thesis by (simp add: root_mut_def ok_or_def)
qed

lemma rep_root_node: "rep_node keccak db [] n u \<Longrightarrow> rep_root keccak db (RNode n None) (Some u)"
  by (simp add: rep_root_def rep_ref_node)

lemma get_walk:
  assumes "rep_root keccak db (root t) (Some u)" "wf_ptree u"
  shows "(case root t of RNode n _ \<Rightarrow> node_get (path_fuel (from_bytes b)) db n (from_bytes b)
      | RHash h \<Rightarrow> if hash_is_valid h then
            and_then (db []) (\<lambda>rlp.
            and_then (ok_or rlp (TErr (InconsistentTree RootNotFound))) (\<lambda>rlp.
            and_then (map_err of_rlp_fail (decode decode_node rlp)) (\<lambda>n.
              node_get (path_fuel (from_bytes b)) db n (from_bytes b))))
          else Inr None) = Inr (t_get u (key_of b))"
proof -
  have r: "rep_ref keccak db [] (root t) u" and ni: "root t \<noteq> RHash (Inline bs)" for bs
    using assms(1) by (auto simp: rep_root_def)
  obtain n where n: "get_node db (root t) (from_hex []) = Inr (Some n)" "rep_node keccak db [] n u"
    using rep_refD [OF r, of "from_hex []"] by (auto simp: from_hex_def)
  have g: "node_get (path_fuel (from_bytes b)) db n (from_bytes b) = Inr (t_get u (key_of b))"
    using node_get_refines [OF n(2) assms(2) path_fuel_key] by (simp add: from_bytes_conv)
  show ?thesis
  proof (cases "root t")
    case (RNode n' h)
    with n g show ?thesis by (simp add: get_node_def)
  next
    case (RHash h)
    with ni obtain x where h: "h = Hashed x" by (cases h) auto
    with RHash n(1) g show ?thesis
      by (auto simp: get_node_def stored_node_def from_hex_def hash_is_valid_def ok_or_def
          split: option.splits if_splits)
  qed
qed

lemma trie_get_inv:
  assumes "trie_inv keccak db flat t m"
  shows "trie_get db flat t b = Inr (m b)"
proof -
  obtain s where s: "rep_root keccak db (root t) s" "pred_option wf_ptree s" "holds s m" "flat_ok db flat t m"
    using assms by (auto simp: trie_inv_def)
  show ?thesis
  proof (cases "key_of b \<notin> set (dirty t) \<and> flat (key_of b)")
    case True
    with s(4) show ?thesis
      by (auto simp: trie_get_def flat_ok_def from_bytes_conv flat_value_def)
  next
    case False
    have o: "o_get s (key_of b) = m b" using s(3) by (simp add: holds_def)
    show ?thesis
    proof (cases s)
      case None
      with s(1) o False show ?thesis
        by (auto simp: trie_get_def from_bytes_conv rep_root_def o_get_def hash_is_valid_def default_hash_def)
    next
      case (Some u)
      with get_walk [of keccak db t u b] s(1,2) o have w: "(case root t of RNode n _ \<Rightarrow> node_get (path_fuel (from_bytes b)) db n (from_bytes b)
      | RHash h \<Rightarrow> if hash_is_valid h then
            and_then (db []) (\<lambda>rlp.
            and_then (ok_or rlp (TErr (InconsistentTree RootNotFound))) (\<lambda>rlp.
            and_then (map_err of_rlp_fail (decode decode_node rlp)) (\<lambda>n.
              node_get (path_fuel (from_bytes b)) db n (from_bytes b))))
          else Inr None) = Inr (m b)" by (simp add: o_get_def)
      have "\<not> (n_data (from_bytes b) \<notin> set (dirty t) \<and> flat (n_data (from_bytes b)))"
        using False by (simp add: from_bytes_conv)
      then show ?thesis unfolding trie_get_def Let_def using w by (simp only: if_False)
    qed
  qed
qed

lemma flat_ok_dirty:
  assumes "flat_ok db flat t m" "set (dirty t') = insert (key_of b) (set (dirty t))"
  shows "flat_ok db flat t' (m(b := x))"
  using assms by (auto simp: flat_ok_def)

lemma trie_inv_dirty:
  assumes "trie_inv keccak db flat t m" "set (dirty t') = insert (key_of b) (set (dirty t))"
    "rep_root keccak db (root t') s" "pred_option wf_ptree s" "holds s (m(b := x))"
  shows "trie_inv keccak db flat t' (m(b := x))"
  using assms flat_ok_dirty by (auto simp: trie_inv_def)

lemma trie_insert_inv:
  assumes inv: "trie_inv keccak db flat t m" and v: "v \<noteq> []"
  shows "\<exists>t'. trie_insert db t b v = Inr t' \<and> trie_inv keccak db flat t' (m(b \<mapsto> v))"
proof -
  obtain s where s: "rep_root keccak db (root t) s" "pred_option wf_ptree s" "holds s m"
    using inv by (auto simp: trie_inv_def)
  let ?s = "o_insert s (key_of b) v"
  define upd where "upd r = t\<lparr> pending_removal := removeAll (key_of b) (pending_removal t),
    dirty := List.insert (key_of b) (dirty t), root := clear_hash r \<rparr>" for r
  have "\<exists>r. trie_insert db t b v = Inr (upd r) \<and> rep_root keccak db (clear_hash r) ?s"
  proof (cases s)
    case None
    then have "trie_insert db t b v = Inr (upd (ref_of_node (Leaf (key_of b) v)))"
      using rep_root_valid [OF s(1)] by (simp add: trie_insert_def from_bytes_conv upd_def)
    with None show ?thesis
      by (auto simp: clear_hash_def ref_of_node_def o_insert_def intro!: rep_root_node rep_leaf)
  next
    case (Some u)
    then obtain n where n: "root_mut db t = Inr (n, memo (root t))" "rep_node keccak db [] n u"
      using rep_root_mut s(1) by blast
    obtain n' where n': "node_insert (path_fuel (from_bytes b)) db n (from_bytes b) (Value v) = Inr n'"
      "rep_node keccak db [] n' (t_insert u (key_of b) v)"
      using node_insert_refines [OF n(2) _ key_of_valid path_fuel_key] s(2) Some
      by (auto simp: from_bytes_conv)
    have "trie_insert db t b v = Inr (upd (RNode n' (memo (root t))))"
      using n n' Some rep_root_valid [OF s(1)]
      by (simp add: trie_insert_def root_mut_def from_bytes_conv upd_def)
    moreover have "rep_root keccak db (clear_hash (RNode n' (memo (root t)))) ?s"
      using n'(2) Some by (simp add: o_insert_def clear_hash_def rep_root_node)
    ultimately show ?thesis by blast
  qed
  then obtain r where r: "trie_insert db t b v = Inr (upd r)" "rep_root keccak db (clear_hash r) ?s"
    by blast
  have "trie_inv keccak db flat (upd r) (m(b \<mapsto> v))"
    using r(2) ptree_map.inv_update [OF s(2) key_of_valid v] holds_insert [OF s(3,2) v]
    by (intro trie_inv_dirty [OF inv, where s = ?s]) (simp_all add: upd_def)
  with r(1) show ?thesis by blast
qed

lemma trie_remove_inv:
  assumes inv: "trie_inv keccak db flat t m"
  shows "\<exists>t'. trie_remove db t b = Inr (m b, t') \<and> trie_inv keccak db flat t' (m(b := None))"
proof -
  obtain s where s: "rep_root keccak db (root t) s" "pred_option wf_ptree s" "holds s m"
    using inv by (auto simp: trie_inv_def)
  let ?s = "o_remove s (key_of b)"
  define upd where "upd p r = t\<lparr> dirty := List.insert (key_of b) (dirty t), pending_removal := p,
    root := r \<rparr>" for p r
  have mb: "m b = o_get s (key_of b)" using s(3) by (simp add: holds_def)
  have "\<exists>p r. trie_remove db t b = Inr (m b, upd p r) \<and> rep_root keccak db r ?s"
  proof (cases s)
    case None
    then have "trie_remove db t b = Inr (None, upd (pending_removal t) (root t))"
      using rep_root_valid [OF s(1)] by (simp add: trie_remove_def from_bytes_conv upd_def)
    with None s(1) mb show ?thesis by (auto simp: o_remove_def o_get_def)
  next
    case (Some u)
    then obtain n where n: "root_mut db t = Inr (n, memo (root t))" "rep_node keccak db [] n u"
      using rep_root_mut s(1) by blast
    have "removes keccak db [] u (key_of b) (node_remove (path_fuel (from_bytes b)) db n (from_bytes b))"
      using node_remove_refines [OF n(2) _ key_of_valid path_fuel_key] s(2) Some
      by (simp add: from_bytes_conv)
    then obtain e n' where n':
      "node_remove (path_fuel (from_bytes b)) db n (from_bytes b) = Inr (e, t_get u (key_of b), n')"
      "case t_remove u (key_of b) of None \<Rightarrow> e | Some t' \<Rightarrow> \<not> e \<and> rep_node keccak db [] n' t'"
      by (auto simp: removes_def)
    let ?r = "if e then RHash default_hash else clear_hash (RNode n' (memo (root t)))"
    have "trie_remove db t b = Inr (m b, upd (List.insert (key_of b) (pending_removal t)) ?r)"
      using n n' Some mb rep_root_valid [OF s(1)]
      by (simp add: trie_remove_def root_mut_def from_bytes_conv upd_def o_get_def)
    moreover have "rep_root keccak db ?r ?s"
      using n'(2) Some
      by (auto simp: o_remove_def clear_hash_def intro: rep_root_node split: option.splits)
         (simp add: rep_root_def)
    ultimately show ?thesis by blast
  qed
  then obtain p r where r: "trie_remove db t b = Inr (m b, upd p r)" "rep_root keccak db r ?s" by blast
  have "trie_inv keccak db flat (upd p r) (m(b := None))"
    using r(2) ptree_map.inv_delete [OF s(2) key_of_valid] holds_remove [OF s(3,2)]
    by (intro trie_inv_dirty [OF inv, where s = ?s]) (simp_all add: upd_def)
  with r(1) show ?thesis by blast
qed

section \<open>Hashing\<close>

lemma is_valid_memoize [simp]: "is_valid (memoize_hashes keccak r) = is_valid r"
  by (cases "(keccak, r)" rule: memoize_hashes.cases) (auto simp: is_valid_def Let_def)

lemma rep_memoize:
  "rep_node keccak db c n t \<Longrightarrow> rep_node keccak db c (node_memoize_hashes keccak n) t"
  "rep_ref keccak db c r t \<Longrightarrow> rep_ref keccak db c (memoize_hashes keccak r) t"
proof (induction rule: rep_node_rep_ref.inducts)
  case (rep_branch rs ts c v)
  then have "\<forall>i < 16. rs ! i = RHash default_hash \<longrightarrow> memoize_hashes keccak (rs ! i) = RHash default_hash"
    by simp
  with rep_branch show ?case by (auto intro!: rep_node_rep_ref.rep_branch)
next
  case (rep_refI r c n t)
  show ?case
  proof (cases r)
    case (RNode n' h)
    then have "n' = n" using rep_refI by (simp add: get_node_def)
    moreover have "node_compute_hash keccak (node_memoize_hashes keccak n) = t_hash keccak t"
      using rep_hash(1) [OF rep_refI(3)] by (simp add: node_compute_hash_def t_hash_def)
    moreover have "rep_ref keccak db c r t"
      using rep_refI by (blast intro: rep_node_rep_ref.rep_refI)
    ultimately show ?thesis
      using RNode rep_refI(3) by (cases h) (auto simp: Let_def intro!: rep_ref_node)
  next
    case (RHash h)
    have "rep_ref keccak db c r t" using rep_refI by (blast intro: rep_node_rep_ref.rep_refI)
    with RHash show ?thesis by simp
  qed
qed (auto intro: rep_leaf rep_ext)

definition spec_hash :: "(bytes \<Rightarrow> bytes) \<Rightarrow> ptree option \<Rightarrow> bytes" where
  "spec_hash keccak s =
     (case s of None \<Rightarrow> EMPTY_TRIE_HASH | Some u \<Rightarrow> finalize keccak (t_hash keccak u))"

lemma hash_no_commit_root:
  assumes "rep_root keccak db (root t) s"
  shows "fst (hash_no_commit keccak t) = spec_hash keccak s"
    "rep_root keccak db (root (snd (hash_no_commit keccak t))) s"
    "dirty (snd (hash_no_commit keccak t)) = dirty t"
proof -
  show "dirty (snd (hash_no_commit keccak t)) = dirty t" by (simp add: hash_no_commit_def)
  show "fst (hash_no_commit keccak t) = spec_hash keccak s"
    using rep_root_valid [OF assms] assms rep_hash(2)
    by (cases s) (auto simp: hash_no_commit_def spec_hash_def rep_root_def)
  show "rep_root keccak db (root (snd (hash_no_commit keccak t))) s"
  proof (cases s)
    case None
    with assms rep_root_valid [OF assms] show ?thesis by (simp add: hash_no_commit_def)
  next
    case (Some u)
    with assms have "rep_ref keccak db [] (memoize_hashes keccak (root t)) u"
      by (simp add: rep_root_def rep_memoize)
    moreover have "memoize_hashes keccak (root t) \<noteq> RHash (Inline bs)" for bs
      using assms Some by (cases "(keccak, root t)" rule: memoize_hashes.cases) (auto simp: rep_root_def Let_def)
    ultimately show ?thesis
      using Some rep_root_valid [OF assms] by (simp add: hash_no_commit_def rep_root_def)
  qed
qed

lemma trie_hash_inv:
  assumes "trie_inv keccak db flat t m"
  shows "trie_inv keccak db flat (snd (hash_no_commit keccak t)) m"
  using assms hash_no_commit_root by (fastforce simp: trie_inv_def flat_ok_def)

section \<open>Runs\<close>

datatype trie_op = TInsert bytes bytes | TRemove bytes | TGet bytes | THash

datatype trie_out = Done | Found "bytes option" | Root bytes

definition trie_step :: "(bytes \<Rightarrow> bytes) \<Rightarrow> trie_db \<Rightarrow> (bytes \<Rightarrow> bool) \<Rightarrow> trie_op \<Rightarrow> trie
    \<Rightarrow> trie_fail + (trie_out \<times> trie)" where
  "trie_step keccak db flat op t =
     (case op of
        TInsert k v \<Rightarrow> and_then (trie_insert db t k v) (\<lambda>t. Inr (Done, t))
      | TRemove k \<Rightarrow> and_then (trie_remove db t k) (\<lambda>(v, t). Inr (Found v, t))
      | TGet k \<Rightarrow> and_then (trie_get db flat t k) (\<lambda>v. Inr (Found v, t))
      | THash \<Rightarrow> (let (h, t) = hash_no_commit keccak t in Inr (Root h, t)))"

fun trie_run :: "(bytes \<Rightarrow> bytes) \<Rightarrow> trie_db \<Rightarrow> (bytes \<Rightarrow> bool) \<Rightarrow> trie_op list \<Rightarrow> trie
    \<Rightarrow> trie_fail + (trie_out list \<times> trie)" where
  "trie_run keccak db flat [] t = Inr ([], t)"
| "trie_run keccak db flat (op # ops) t =
     and_then (trie_step keccak db flat op t) (\<lambda>(r, t).
       and_then (trie_run keccak db flat ops t) (\<lambda>(rs, t). Inr (r # rs, t)))"

definition map_step :: "((bytes \<rightharpoonup> bytes) \<Rightarrow> bytes) \<Rightarrow> trie_op \<Rightarrow> (bytes \<rightharpoonup> bytes)
    \<Rightarrow> trie_out \<times> (bytes \<rightharpoonup> bytes)" where
  "map_step H op m =
     (case op of
        TInsert k v \<Rightarrow> (Done, m(k \<mapsto> v))
      | TRemove k \<Rightarrow> (Found (m k), m(k := None))
      | TGet k \<Rightarrow> (Found (m k), m)
      | THash \<Rightarrow> (Root (H m), m))"

fun map_run :: "((bytes \<rightharpoonup> bytes) \<Rightarrow> bytes) \<Rightarrow> trie_op list \<Rightarrow> (bytes \<rightharpoonup> bytes)
    \<Rightarrow> trie_out list \<times> (bytes \<rightharpoonup> bytes)" where
  "map_run H [] m = ([], m)"
| "map_run H (op # ops) m =
     (let (r, m) = map_step H op m; (rs, m) = map_run H ops m in (r # rs, m))"

definition op_ok :: "trie_op \<Rightarrow> bool" where
  "op_ok op = (case op of TInsert _ v \<Rightarrow> v \<noteq> [] | _ \<Rightarrow> True)"

lemma trie_step_refines:
  assumes inv: "trie_inv keccak db flat t m" and ok: "op_ok op"
    and H: "\<And>s. pred_option wf_ptree s \<Longrightarrow> holds s m \<Longrightarrow> H m = spec_hash keccak s"
  shows "\<exists>t'. trie_step keccak db flat op t = Inr (fst (map_step H op m), t') \<and>
    trie_inv keccak db flat t' (snd (map_step H op m))"
proof (cases op)
  case (TInsert k v)
  with ok trie_insert_inv [OF inv, of v k] show ?thesis
    by (auto simp: op_ok_def trie_step_def map_step_def)
next
  case (TRemove k)
  with trie_remove_inv [OF inv, of k] show ?thesis by (auto simp: trie_step_def map_step_def)
next
  case (TGet k)
  with trie_get_inv [OF inv] inv show ?thesis by (simp add: trie_step_def map_step_def)
next
  case THash
  obtain s where s: "rep_root keccak db (root t) s" "pred_option wf_ptree s" "holds s m"
    using inv by (auto simp: trie_inv_def)
  with H have "fst (hash_no_commit keccak t) = H m" using hash_no_commit_root(1) by metis
  with THash trie_hash_inv [OF inv] show ?thesis
    by (auto simp: trie_step_def map_step_def case_prod_unfold Let_def)
qed

lemma trie_run_refines:
  assumes H: "\<And>m s. pred_option wf_ptree s \<Longrightarrow> holds s m \<Longrightarrow> H m = spec_hash keccak s"
  shows "trie_inv keccak db flat t m \<Longrightarrow> list_all op_ok ops \<Longrightarrow>
    \<exists>t'. trie_run keccak db flat ops t = Inr (fst (map_run H ops m), t') \<and>
      trie_inv keccak db flat t' (snd (map_run H ops m))"
proof (induction ops arbitrary: t m)
  case (Cons op ops)
  obtain t1 where t1: "trie_step keccak db flat op t = Inr (fst (map_step H op m), t1)"
    "trie_inv keccak db flat t1 (snd (map_step H op m))"
    using trie_step_refines [OF Cons.prems(1), where H = H and op = op] H Cons.prems(2) by auto
  moreover obtain t2 where "trie_run keccak db flat ops t1 = Inr (fst (map_run H ops (snd (map_step H op m))), t2)"
    "trie_inv keccak db flat t2 (snd (map_run H ops (snd (map_step H op m))))"
    using Cons.IH [OF t1(2)] Cons.prems(2) by auto
  ultimately show ?case by (simp add: case_prod_unfold Let_def)
qed simp

lemma contents_hash_exists:
  "\<exists>H. \<forall>m s. pred_option wf_ptree s \<longrightarrow> holds s m \<longrightarrow> H m = spec_hash keccak s"
proof (rule choice, rule allI)
  fix m
  show "\<exists>h. \<forall>s. pred_option wf_ptree s \<longrightarrow> holds s m \<longrightarrow> h = spec_hash keccak s"
  proof (cases "\<exists>s. pred_option wf_ptree s \<and> holds s m")
    case True
    then obtain s where "pred_option wf_ptree s" "holds s m" by blast
    with holds_unique [OF this(2)] show ?thesis by (intro exI [of _ "spec_hash keccak s"]) auto
  qed blast
qed

lemma trie_new_inv: "\<forall>k. \<not> flat k \<Longrightarrow> trie_inv keccak db flat trie_new Map.empty"
  by (auto simp: trie_inv_def flat_ok_def trie_new_def rep_root_def holds_empty intro: exI [of _ None])

text \<open>
  C3: A trie behaves as a finite map and its root hash is a function of the contents.  For every
  hash function there is a function \<open>H\<close> of the contents such that, for every trie that holds the map
  \<open>m\<close> over any database and flat table, every sequence of insertions of non-empty values, removals,
  lookups and root hash computations succeeds, returns exactly what the map and \<open>H\<close> return, and
  ends in a trie that holds the resulting map.
\<close>
theorem trie_runs_as_map:
  "\<exists>H. \<forall>db flat t m ops. trie_inv keccak db flat t m \<longrightarrow> list_all op_ok ops \<longrightarrow>
     (\<exists>t'. trie_run keccak db flat ops t = Inr (fst (map_run H ops m), t') \<and>
       trie_inv keccak db flat t' (snd (map_run H ops m)))"
proof -
  obtain H where "\<forall>m s. pred_option wf_ptree s \<longrightarrow> holds s m \<longrightarrow> H m = spec_hash keccak s"
    using contents_hash_exists by blast
  then show ?thesis using trie_run_refines [of H] by blast
qed

theorem trie_runs_as_map_witness:
  "\<exists>t'. trie_run rev (\<lambda>_. Inr None) (\<lambda>_. False)
      [TInsert [0x12, 0x34] [7], TInsert [0x12, 0x44] [8], TGet [0x12, 0x34], TRemove [0x12, 0x44],
       TGet [0x12, 0x44]] trie_new =
    Inr ([Done, Done, Found (Some [7]), Found (Some [8]), Found None], t')"
proof -
  obtain H where "\<forall>db flat t m ops. trie_inv rev db flat t m \<longrightarrow> list_all op_ok ops \<longrightarrow>
     (\<exists>t'. trie_run rev db flat ops t = Inr (fst (map_run H ops m), t') \<and>
       trie_inv rev db flat t' (snd (map_run H ops m)))"
    using trie_runs_as_map [of rev] by blast
  then have "\<exists>t'. trie_run rev (\<lambda>_. Inr None) (\<lambda>_. False) ops trie_new = Inr (fst (map_run H ops Map.empty), t')"
    if "list_all op_ok ops" for ops
    using trie_new_inv [of "\<lambda>_. False" rev "\<lambda>_. Inr None"] that by blast
  from this [of "[TInsert [0x12, 0x34] [7], TInsert [0x12, 0x44] [8], TGet [0x12, 0x34],
      TRemove [0x12, 0x44], TGet [0x12, 0x44]]"]
  show ?thesis by (simp add: op_ok_def map_step_def)
qed

end
