(* ===== verification/Evm_Base.thy ===== *)
theory Evm_Base
  imports Ethrex_Prelude
begin

text \<open>
  Vocabulary of the virtual machine (\<open>src/crates/vm/levm/src\<close>): the error types of \<open>errors.rs\<close> and
  the shape of its methods.  A method with receiver state \<open>'s\<close> is a function from the state to a
  result and the state it leaves behind, also when it fails, because \<open>REVERT\<close> and the gas accounting
  read the state of a failed frame.  Besides the errors of the code a method can panic, and where the
  code uses an unchecked access outside its bounds the result is \<open>UndefinedBehaviour\<close>; the safety
  theorems show that this value is never produced.
\<close>

section \<open>Errors\<close>

datatype precompile_error =
    ParsingInputError | NotEnoughGas | InvalidPoint | PointNotInSubgroup
  | BLS12381G1PointNotInCurve | BLS12381G2PointNotInCurve | ModExpBaseTooLarge | ModExpExpTooLarge
  | ModExpModulusTooLarge | CoordinateExceedsFieldModulus | ExecuteValidationFailed
  | ExecuteInvalidInput

datatype exceptional_halt =
    StackUnderflow | StackOverflow | InvalidJump | OpcodeNotAllowedInStaticContext
  | InvalidContractPrefix | VeryLargeNumber | InvalidOpcode | AddressAlreadyOccupied
  | ContractOutputTooBig | OutOfBounds | OutOfGas | Precompile precompile_error

datatype database_error = DbCustom string

datatype internal_error =
    Overflow | Underflow | DivisionByZero | TypeConversion | NoCallFrame | Slicing | AccountNotFound
  | InvalidPrecompileAddress | InvalidFork | AccountNotDelegated
  | RecipientNotFoundForPrivilegedTransaction | MemorySizeOverflow | InternalCustom string
  | Database database_error | FakeExponentialErr

type_synonym address = "160 word"
type_synonym h256 = "256 word"

datatype tx_validation_error =
    SenderNotEOA address
  | InsufficientAccountFunds
  | NonceIsMax
  | NonceMismatch nat nat
  | InitcodeSizeExceeded nat nat
  | PriorityGreaterThanMaxFeePerGas u256 u256
  | IntrinsicGasTooLow
  | IntrinsicGasBelowFloorGasCost
  | L1GasReservationTooLow
  | GasAllowanceExceeded nat nat
  | InsufficientMaxFeePerGas
  | InsufficientMaxFeePerBlobGas u256 u256
  | Type3TxPreFork
  | Type3TxZeroBlobs
  | Type3TxInvalidBlobVersionedHash
  | Type3TxBlobCountExceeded nat nat
  | Type3TxContractCreation
  | Type4TxPreFork
  | Type4TxAuthorizationListIsEmpty
  | Type4TxContractCreation
  | FrameTxPreFork
  | GasLimitPriceProductOverflow
  | TxMaxGasLimitExceeded h256 nat
  | InvalidFrameTransaction

datatype vm_error =
    Internal internal_error
  | TxValidation tx_validation_error
  | ExceptionalHalt exceptional_halt
  | RevertOpcode

definition should_propagate :: "vm_error \<Rightarrow> bool" where
  "should_propagate e = (case e of Internal _ \<Rightarrow> True | _ \<Rightarrow> False)"

definition is_revert_opcode :: "vm_error \<Rightarrow> bool" where
  "is_revert_opcode e = (case e of RevertOpcode \<Rightarrow> True | _ \<Rightarrow> False)"

datatype opcode_result = Continue | Halt

datatype tx_result = Success | Revert vm_error

datatype vm_fail = VmErr vm_error | VmPanic | UndefinedBehaviour

abbreviation halt :: "exceptional_halt \<Rightarrow> vm_fail" where
  "halt e \<equiv> VmErr (ExceptionalHalt e)"

abbreviation internal :: "internal_error \<Rightarrow> vm_fail" where
  "internal e \<equiv> VmErr (Internal e)"

section \<open>Methods\<close>

type_synonym ('s, 'a) action = "'s \<Rightarrow> (vm_fail + 'a) \<times> 's"

definition ret :: "'a \<Rightarrow> ('s, 'a) action" where
  "ret x s = (Inr x, s)"

definition err :: "vm_fail \<Rightarrow> ('s, 'a) action" where
  "err e s = (Inl e, s)"

definition bind :: "('s, 'a) action \<Rightarrow> ('a \<Rightarrow> ('s, 'b) action) \<Rightarrow> ('s, 'b) action" where
  "bind m f s = (case m s of (Inl e, s') \<Rightarrow> (Inl e, s') | (Inr x, s') \<Rightarrow> f x s')"

definition lift_result :: "vm_fail + 'a \<Rightarrow> ('s, 'a) action" where
  "lift_result r s = (r, s)"

definition gets :: "('s \<Rightarrow> 'a) \<Rightarrow> ('s, 'a) action" where
  "gets f s = (Inr (f s), s)"

definition modify :: "('s \<Rightarrow> 's) \<Rightarrow> ('s, unit) action" where
  "modify f s = (Inr (), f s)"

text \<open>Running a method of a part of the state, given how to read and how to write the part.\<close>

definition zoom :: "('s \<Rightarrow> 't) \<Rightarrow> ('t \<Rightarrow> 's \<Rightarrow> 's) \<Rightarrow> ('t, 'a) action \<Rightarrow> ('s, 'a) action" where
  "zoom get put m s = (let (r, t) = m (get s) in (r, put t s))"

definition guard_err :: "bool \<Rightarrow> vm_fail \<Rightarrow> ('s, unit) action" where
  "guard_err b e s = (if b then (Inl e, s) else (Inr (), s))"

lemma ret_apply [simp]: "ret x s = (Inr x, s)"
  by (simp add: ret_def)

lemma err_apply [simp]: "err e s = (Inl e, s)"
  by (simp add: err_def)

lemma gets_apply [simp]: "gets f s = (Inr (f s), s)"
  by (simp add: gets_def)

lemma modify_apply [simp]: "modify f s = (Inr (), f s)"
  by (simp add: modify_def)

lemma lift_result_apply [simp]: "lift_result r s = (r, s)"
  by (simp add: lift_result_def)

lemma guard_err_apply [simp]: "guard_err b e s = (if b then (Inl e, s) else (Inr (), s))"
  by (simp add: guard_err_def)

lemma bind_Inr: "m s = (Inr x, s') \<Longrightarrow> bind m f s = f x s'"
  by (simp add: bind_def)

lemma bind_Inl: "m s = (Inl e, s') \<Longrightarrow> bind m f s = (Inl e, s')"
  by (simp add: bind_def)

lemma bind_ret [simp]: "bind (ret x) f = f x"
  by (simp add: bind_def fun_eq_iff)

lemma bind_gets [simp]: "bind (gets g) f s = f (g s) s"
  by (simp add: bind_def)

lemma bind_modify [simp]: "bind (modify g) f s = f () (g s)"
  by (simp add: bind_def)

lemma bind_assoc: "bind (bind m f) g = bind m (\<lambda>x. bind (f x) g)"
  by (simp add: bind_def fun_eq_iff split: prod.split sum.split)

text \<open>An access without bounds check, \<open>get_unchecked\<close>.\<close>

definition get_unchecked :: "'a list \<Rightarrow> nat \<Rightarrow> vm_fail + 'a" where
  "get_unchecked xs i = (if i < length xs then Inr (xs ! i) else Inl UndefinedBehaviour)"

definition safe :: "(vm_fail + 'a) \<times> 's \<Rightarrow> bool" where
  "safe r \<longleftrightarrow> fst r \<noteq> Inl UndefinedBehaviour"

end
