(* ===== verification/Evm_Stack.thy ===== *)
theory Evm_Stack
  imports Evm_Base
begin

text \<open>
  The operand stack, \<open>Stack\<close> of \<open>src/crates/vm/levm/src/call_frame.rs\<close>: an array of 1024 words that
  grows downwards, with unchecked accesses.  It is refined to a list with the top first; on every
  reachable state the array operations do on the array what the list operations do on the list,
  report underflow and overflow in the same cases, and never access the array outside its bounds.
\<close>

section \<open>Code\<close>

definition STACK_LIMIT :: nat where
  "STACK_LIMIT = 1024"

record Stack =
  vals :: "u256 list"
  offset :: nat

definition pop :: "nat \<Rightarrow> (Stack, u256 list) action" where
  "pop n s =
     (if length (vals s) < offset s then (Inl UndefinedBehaviour, s)
      else if length (drop (offset s) (vals s)) < n then (Inl (halt StackUnderflow), s)
      else (Inr (take n (drop (offset s) (vals s))), s \<lparr> offset := wrapping_add (offset s) n \<rparr>))"

definition pop1 :: "(Stack, u256) action" where
  "pop1 s =
     (if offset s < length (vals s)
      then (Inr (vals s ! offset s), s \<lparr> offset := wrapping_add (offset s) 1 \<rparr>)
      else (Inl (halt StackUnderflow), s))"

text \<open>
  A method that returns a mutable reference to the top is the method followed by the update the
  caller makes through the reference.
\<close>

definition top_mut :: "(u256 \<Rightarrow> u256) \<Rightarrow> (Stack, u256) action" where
  "top_mut upd s =
     (if offset s < length (vals s)
      then (Inr (vals s ! offset s), s \<lparr> vals := (vals s)[offset s := upd (vals s ! offset s)] \<rparr>)
      else (Inl (halt StackUnderflow), s))"

definition set_top_unchecked :: "u256 \<Rightarrow> (Stack, unit) action" where
  "set_top_unchecked v s =
     (if offset s < length (vals s)
      then (Inr (), s \<lparr> vals := (vals s)[offset s := v] \<rparr>) else (Inl UndefinedBehaviour, s))"

definition pop1_and_top_mut :: "(u256 \<Rightarrow> u256 \<Rightarrow> u256) \<Rightarrow> (Stack, unit) action" where
  "pop1_and_top_mut upd = bind pop1 (\<lambda>a. bind (top_mut (upd a)) (\<lambda>_. ret ()))"

definition push :: "u256 \<Rightarrow> (Stack, unit) action" where
  "push v s =
     (case checked_sub (offset s) 1 of
        None \<Rightarrow> (Inl (halt StackOverflow), s)
      | Some next_offset \<Rightarrow>
          if next_offset < length (vals s)
          then (Inr (), s \<lparr> vals := (vals s)[next_offset := v], offset := next_offset \<rparr>)
          else (Inl UndefinedBehaviour, s))"

definition push_zero :: "(Stack, unit) action" where
  "push_zero s =
     (case checked_sub (offset s) 1 of
        None \<Rightarrow> (Inl (halt StackOverflow), s)
      | Some next_offset \<Rightarrow>
          if next_offset < length (vals s)
          then (Inr (), s \<lparr> vals := (vals s)[next_offset := 0], offset := next_offset \<rparr>)
          else (Inl UndefinedBehaviour, s))"

definition stack_len :: "Stack \<Rightarrow> nat" where
  "stack_len s = length (vals s) - offset s"

definition stack_is_empty :: "Stack \<Rightarrow> bool" where
  "stack_is_empty s \<longleftrightarrow> offset s = length (vals s)"

text \<open>\<open>assert_unchecked(self.offset < STACK_LIMIT)\<close> is undefined behaviour when it does not hold.\<close>

definition stack_swap :: "nat \<Rightarrow> (Stack, unit) action" where
  "stack_swap n s =
     (let index = offset s + n in
      if index \<ge> length (vals s) then (Inl (halt StackUnderflow), s)
      else if \<not> offset s < STACK_LIMIT then (Inl UndefinedBehaviour, s)
      else (Inr (), s \<lparr> vals := (vals s)[offset s := vals s ! index, index := vals s ! offset s] \<rparr>))"

definition stack_clear :: "Stack \<Rightarrow> Stack" where
  "stack_clear s = s \<lparr> offset := STACK_LIMIT \<rparr>"

definition dup :: "nat \<Rightarrow> (Stack, unit) action" where
  "dup n s =
     (let index = offset s + n in
      if index \<ge> length (vals s) then (Inl (halt StackUnderflow), s)
      else case checked_sub (offset s) 1 of
        None \<Rightarrow> (Inl (halt StackOverflow), s)
      | Some off \<Rightarrow>
          if off < length (vals s)
          then (Inr (), s \<lparr> vals := (vals s)[off := vals s ! index], offset := off \<rparr>)
          else (Inl UndefinedBehaviour, s))"

definition stack_default :: Stack where
  "stack_default = \<lparr> vals = replicate STACK_LIMIT 0, offset = STACK_LIMIT \<rparr>"

section \<open>The list it stands for\<close>

definition stack_ok :: "Stack \<Rightarrow> bool" where
  "stack_ok s \<longleftrightarrow> length (vals s) = STACK_LIMIT \<and> offset s \<le> STACK_LIMIT"

definition items :: "Stack \<Rightarrow> u256 list" where
  "items s = drop (offset s) (vals s)"

text \<open>The operations of the specification, on a list of at most 1024 items.\<close>

definition l_push :: "u256 \<Rightarrow> (u256 list, unit) action" where
  "l_push v xs = (if length xs < STACK_LIMIT then (Inr (), v # xs) else (Inl (halt StackOverflow), xs))"

definition l_pop :: "nat \<Rightarrow> (u256 list, u256 list) action" where
  "l_pop n xs = (if n \<le> length xs then (Inr (take n xs), drop n xs) else (Inl (halt StackUnderflow), xs))"

definition l_top :: "(u256 \<Rightarrow> u256) \<Rightarrow> (u256 list, u256) action" where
  "l_top upd xs = (case xs of [] \<Rightarrow> (Inl (halt StackUnderflow), xs) | x # ys \<Rightarrow> (Inr x, upd x # ys))"

definition l_binop :: "(u256 \<Rightarrow> u256 \<Rightarrow> u256) \<Rightarrow> (u256 list, unit) action" where
  "l_binop upd xs =
     (case xs of [] \<Rightarrow> (Inl (halt StackUnderflow), [])
      | [a] \<Rightarrow> (Inl (halt StackUnderflow), [])
      | a # b # ys \<Rightarrow> (Inr (), upd a b # ys))"

definition l_dup :: "nat \<Rightarrow> (u256 list, unit) action" where
  "l_dup n xs =
     (if n < length xs then l_push (xs ! n) xs else (Inl (halt StackUnderflow), xs))"

definition l_swap :: "nat \<Rightarrow> (u256 list, unit) action" where
  "l_swap n xs =
     (if n < length xs then (Inr (), xs[0 := xs ! n, n := xs ! 0]) else (Inl (halt StackUnderflow), xs))"

text \<open>\<open>simulates m l\<close>: on every well-formed stack, \<open>m\<close> gives the result \<open>l\<close> gives on its items.\<close>

definition simulates :: "(Stack, 'a) action \<Rightarrow> (u256 list, 'a) action \<Rightarrow> bool" where
  "simulates m l \<longleftrightarrow> (\<forall>s. stack_ok s \<longrightarrow>
     stack_ok (snd (m s)) \<and> l (items s) = (fst (m s), items (snd (m s))))"

lemma simulatesD:
  "simulates m l \<Longrightarrow> stack_ok s \<Longrightarrow> m s = (r, s') \<Longrightarrow> stack_ok s' \<and> l (items s) = (r, items s')"
  by (auto simp: simulates_def dest!: spec [of _ s])

lemma simulatesI:
  "(\<And>s. stack_ok s \<Longrightarrow> stack_ok (snd (m s)) \<and> l (items s) = (fst (m s), items (snd (m s)))) \<Longrightarrow> simulates m l"
  by (simp add: simulates_def)

lemma simulates_bind:
  assumes "simulates m l" "\<And>x. simulates (f x) (g x)"
  shows "simulates (bind m f) (bind l g)"
proof (rule simulatesI)
  fix s assume ok: "stack_ok s"
  obtain r s' where m: "m s = (r, s')" by (cases "m s")
  note ms = simulatesD [OF assms(1) ok m]
  show "stack_ok (snd (bind m f s)) \<and> bind l g (items s) = (fst (bind m f s), items (snd (bind m f s)))"
  proof (cases r)
    case (Inl e)
    with m ms show ?thesis by (simp add: bind_def)
  next
    case (Inr x)
    obtain r' s'' where f: "f x s' = (r', s'')" by (cases "f x s'")
    from simulatesD [OF assms(2) _ f] m ms Inr f show ?thesis by (simp add: bind_def)
  qed
qed

lemma simulates_ret: "simulates (ret x) (ret x)"
  by (simp add: simulates_def)

lemma drop_Cons_nth: "i < length xs \<Longrightarrow> drop i xs = xs ! i # drop (Suc i) xs"
  by (simp add: Cons_nth_drop_Suc)

lemma simulates_push: "simulates (push v) (l_push v)"
proof (rule simulatesI)
  fix s assume ok: "stack_ok s"
  show "stack_ok (snd (push v s)) \<and> l_push v (items s) = (fst (push v s), items (snd (push v s)))"
  proof (cases "offset s")
    case 0
    with ok show ?thesis by (simp add: push_def l_push_def items_def stack_ok_def checked_sub_def)
  next
    case (Suc n)
    with ok show ?thesis
      by (simp add: push_def l_push_def items_def stack_ok_def checked_sub_def drop_update_swap
          drop_Cons_nth [of n])
  qed
qed

lemma push_zero_push: "push_zero = push 0"
  by (simp add: fun_eq_iff push_def push_zero_def)

lemma simulates_pop: "n \<le> STACK_LIMIT \<Longrightarrow> simulates (pop n) (l_pop n)"
  by (rule simulatesI)
    (auto simp: pop_def l_pop_def items_def stack_ok_def wrapping_add_def STACK_LIMIT_def add.commute)

lemma simulates_pop1: "simulates pop1 (bind (l_pop 1) (\<lambda>xs. ret (hd xs)))"
  by (rule simulatesI)
    (auto simp: pop1_def l_pop_def bind_def items_def stack_ok_def wrapping_add_def STACK_LIMIT_def
      drop_Cons_nth take_Suc hd_drop_conv_nth)

lemma simulates_top_mut: "simulates (top_mut upd) (l_top upd)"
  by (rule simulatesI)
    (auto simp: top_mut_def l_top_def items_def stack_ok_def drop_Cons_nth split: list.splits)

lemma simulates_dup: "simulates (dup n) (l_dup n)"
proof (rule simulatesI)
  fix s assume ok: "stack_ok s"
  show "stack_ok (snd (dup n s)) \<and> l_dup n (items s) = (fst (dup n s), items (snd (dup n s)))"
  proof (cases "offset s")
    case 0
    with ok show ?thesis by (simp add: dup_def l_dup_def l_push_def items_def stack_ok_def checked_sub_def)
  next
    case (Suc k)
    with ok show ?thesis
      by (auto simp: dup_def l_dup_def l_push_def items_def stack_ok_def checked_sub_def
          drop_Cons_nth [of k] Let_def)
  qed
qed

lemma simulates_swap: "simulates (stack_swap n) (l_swap n)"
  by (rule simulatesI)
    (auto simp: stack_swap_def l_swap_def items_def stack_ok_def Let_def drop_update_swap)

lemma simulates_pop1_and_top_mut: "simulates (pop1_and_top_mut upd) (l_binop upd)"
proof -
  have "bind (bind (l_pop 1) (\<lambda>xs. ret (hd xs))) (\<lambda>a. bind (l_top (upd a)) (\<lambda>_. ret ())) = l_binop upd"
    by (simp add: fun_eq_iff l_binop_def l_pop_def l_top_def bind_def split: list.split)
  moreover have "simulates (pop1_and_top_mut upd)
     (bind (bind (l_pop 1) (\<lambda>xs. ret (hd xs))) (\<lambda>a. bind (l_top (upd a)) (\<lambda>_. ret ())))"
    unfolding pop1_and_top_mut_def
    by (intro simulates_bind simulates_pop1 simulates_top_mut simulates_ret)
  ultimately show ?thesis by simp
qed

lemma set_top_unchecked_after_top_mut:
  "stack_ok s \<Longrightarrow> top_mut (\<lambda>x. x) s = (Inr x, s') \<Longrightarrow>
    set_top_unchecked v s' = (Inr (), s \<lparr> vals := (vals s)[offset s := v] \<rparr>)"
  by (auto simp: top_mut_def set_top_unchecked_def split: if_splits)

section \<open>Programs of stack operations\<close>

datatype stack_op =
    SPush u256 | SPushZero | SPop nat | SPop1 | STop "u256 \<Rightarrow> u256" | SBinop "u256 \<Rightarrow> u256 \<Rightarrow> u256"
  | SDup nat | SSwap nat

text \<open>\<open>pop::<N>\<close> has the compile-time assertion \<open>N \<le> STACK_LIMIT\<close>.\<close>

definition stack_op_ok :: "stack_op \<Rightarrow> bool" where
  "stack_op_ok op = (case op of SPop n \<Rightarrow> n \<le> STACK_LIMIT | _ \<Rightarrow> True)"

definition stack_step :: "stack_op \<Rightarrow> (Stack, u256 list) action" where
  "stack_step op = (case op of
     SPush v \<Rightarrow> bind (push v) (\<lambda>_. ret [])
   | SPushZero \<Rightarrow> bind push_zero (\<lambda>_. ret [])
   | SPop n \<Rightarrow> pop n
   | SPop1 \<Rightarrow> bind pop1 (\<lambda>v. ret [v])
   | STop upd \<Rightarrow> bind (top_mut upd) (\<lambda>v. ret [v])
   | SBinop upd \<Rightarrow> bind (pop1_and_top_mut upd) (\<lambda>_. ret [])
   | SDup n \<Rightarrow> bind (dup n) (\<lambda>_. ret [])
   | SSwap n \<Rightarrow> bind (stack_swap n) (\<lambda>_. ret []))"

definition list_step :: "stack_op \<Rightarrow> (u256 list, u256 list) action" where
  "list_step op = (case op of
     SPush v \<Rightarrow> bind (l_push v) (\<lambda>_. ret [])
   | SPushZero \<Rightarrow> bind (l_push 0) (\<lambda>_. ret [])
   | SPop n \<Rightarrow> l_pop n
   | SPop1 \<Rightarrow> bind (bind (l_pop 1) (\<lambda>xs. ret (hd xs))) (\<lambda>v. ret [v])
   | STop upd \<Rightarrow> bind (l_top upd) (\<lambda>v. ret [v])
   | SBinop upd \<Rightarrow> bind (l_binop upd) (\<lambda>_. ret [])
   | SDup n \<Rightarrow> bind (l_dup n) (\<lambda>_. ret [])
   | SSwap n \<Rightarrow> bind (l_swap n) (\<lambda>_. ret []))"

primrec run_steps :: "('o \<Rightarrow> ('s, 'a) action) \<Rightarrow> 'o list \<Rightarrow> ('s, 'a list) action" where
  "run_steps step [] = ret []"
| "run_steps step (op # ops) = bind (step op) (\<lambda>x. bind (run_steps step ops) (\<lambda>xs. ret (x # xs)))"

lemma simulates_step: "stack_op_ok op \<Longrightarrow> simulates (stack_step op) (list_step op)"
  by (cases op) (simp_all add: stack_step_def list_step_def stack_op_ok_def push_zero_push simulates_bind
      simulates_push simulates_pop simulates_pop1 [simplified] simulates_top_mut simulates_pop1_and_top_mut
      simulates_dup simulates_swap simulates_ret)

lemma simulates_run:
  "list_all stack_op_ok ops \<Longrightarrow> simulates (run_steps stack_step ops) (run_steps list_step ops)"
  by (induction ops) (simp_all add: simulates_ret simulates_bind simulates_step)

definition stack_errors :: "vm_fail set" where
  "stack_errors = {halt StackUnderflow, halt StackOverflow}"

lemma bind_errors:
  assumes "\<And>s. case fst (m s) of Inl e \<Rightarrow> e \<in> E | Inr _ \<Rightarrow> True"
    "\<And>x s. case fst (f x s) of Inl e \<Rightarrow> e \<in> E | Inr _ \<Rightarrow> True"
  shows "case fst (bind m f s) of Inl e \<Rightarrow> e \<in> E | Inr _ \<Rightarrow> True"
proof (cases "m s")
  case (Pair r s')
  with assms(1) [of s] assms(2) [of _ s'] show ?thesis by (cases r) (simp_all add: bind_def)
qed

lemma list_step_errors: "case fst (list_step op xs) of Inl e \<Rightarrow> e \<in> stack_errors | Inr _ \<Rightarrow> True"
  by (cases op) (auto simp: list_step_def bind_def l_push_def l_pop_def l_top_def l_binop_def l_dup_def
      l_swap_def stack_errors_def split: list.splits)

lemma list_run_errors:
  "case fst (run_steps list_step ops xs) of Inl e \<Rightarrow> e \<in> stack_errors | Inr _ \<Rightarrow> True"
  by (induction ops arbitrary: xs) (simp, simp only: run_steps.simps, intro bind_errors list_step_errors, simp_all)

text \<open>
  C5: a program of stack operations gives on the array what it gives on a list of at most 1024 words with
  the top first: the same popped values, the same remaining items and the same error.  The only errors are
  underflow and overflow; in particular no unchecked access leaves the array.
\<close>

theorem stack_refines_list:
  assumes "list_all stack_op_ok ops"
  shows "case run_steps stack_step ops stack_default of (r, s) \<Rightarrow>
    run_steps list_step ops [] = (r, items s) \<and> length (items s) \<le> 1024 \<and>
    (case r of Inl e \<Rightarrow> e \<in> {halt StackUnderflow, halt StackOverflow} | Inr _ \<Rightarrow> True)"
proof -
  obtain r s where rs: "run_steps stack_step ops stack_default = (r, s)"
    by (cases "run_steps stack_step ops stack_default")
  have "stack_ok stack_default" "items stack_default = []"
    by (simp_all add: stack_ok_def stack_default_def items_def)
  with simulatesD [OF simulates_run [OF assms] _ rs]
  have sim: "stack_ok s" "run_steps list_step ops [] = (r, items s)" by simp_all
  moreover have "length (items s) \<le> 1024"
    using sim(1) by (simp add: stack_ok_def items_def STACK_LIMIT_def)
  moreover have "case r of Inl e \<Rightarrow> e \<in> stack_errors | Inr _ \<Rightarrow> True"
    using list_run_errors [of ops "[]"] sim(2) by simp
  then have "case r of Inl e \<Rightarrow> e \<in> {halt StackUnderflow, halt StackOverflow} | Inr _ \<Rightarrow> True"
    unfolding stack_errors_def .
  ultimately show ?thesis by (simp add: rs)
qed

theorem stack_refines_list_witness:
  "case run_steps stack_step [SPush 5, SPush 7, SSwap 1, SBinop (\<lambda>a b. a - b), SDup 0, SPop 3] stack_default of
     (r, s) \<Rightarrow> r = Inl (halt StackUnderflow) \<and> items s = [- 2, - 2]"
proof -
  let ?ops = "[SPush 5, SPush 7, SSwap 1, SBinop (\<lambda>a b. a - b), SDup 0, SPop 3]"
  have "list_all stack_op_ok ?ops" by (simp add: stack_op_ok_def STACK_LIMIT_def)
  from stack_refines_list [OF this] show ?thesis
    by (simp add: list_step_def bind_def l_push_def l_pop_def l_binop_def l_dup_def l_swap_def
        STACK_LIMIT_def split: prod.splits)
qed

end
