(* ===== verification/Evm_U256.thy ===== *)
theory Evm_U256
  imports Evm_Base
begin

text \<open>
  Conversions of \<open>U256\<close>: the limb-wise big-endian conversions of \<open>src/crates/common/utils.rs\<close> and the
  conversions to \<open>usize\<close> of \<open>src/crates/vm/levm/src/utils.rs\<close>.  The limb loops are the usual big-endian
  conversions, inverse to each other, and a converted offset or size is below \<open>2^32\<close>.
\<close>

unbundle bit_operations_syntax

section \<open>Limbs\<close>

text \<open>\<open>U256\<close> is an array of four 64-bit limbs, least significant first.\<close>

definition limb :: "u256 \<Rightarrow> nat \<Rightarrow> nat" where
  "limb v i = unat v div 2 ^ (64 * i) mod 2 ^ 64"

definition of_limbs :: "nat list \<Rightarrow> u256" where
  "of_limbs ls = word_of_nat (foldr (\<lambda>l a. l + 2 ^ 64 * a) ls 0)"

text \<open>One round of the loops: limb \<open>3 - i\<close> is made of the bytes \<open>8 i ..< 8 i + 8\<close>.\<close>

definition limbs_of_padded :: "bytes \<Rightarrow> u256" where
  "limbs_of_padded padded =
     of_limbs (foldl (\<lambda>limbs i. limbs[4 - i - 1 := be_nat (slice_range (8 * i) (8 * i + 8) padded)])
       (replicate 4 0) [0..<4])"

definition u256_from_big_endian :: "bytes \<Rightarrow> vm_fail + u256" where
  "u256_from_big_endian bs =
     (if 32 < length bs then Inl VmPanic
      else Inr (limbs_of_padded (replicate (32 - length bs) 0 @ bs)))"

definition u256_from_big_endian_const :: "bytes \<Rightarrow> u256" where
  "u256_from_big_endian_const bs = limbs_of_padded (replicate (32 - length bs) 0 @ bs)"

definition u256_to_big_endian :: "u256 \<Rightarrow> bytes" where
  "u256_to_big_endian v =
     foldl (\<lambda>bytes i. take (8 * i) bytes @ be_bytes 8 (limb v (4 - i - 1)) @ drop (8 * i + 8) bytes)
       (replicate 32 0) [0..<4]"

section \<open>Conversions to usize\<close>

definition u256_to_usize :: "u256 \<Rightarrow> vm_fail + nat" where
  "u256_to_usize v =
     (if (limb v 1 OR limb v 2 OR limb v 3) \<noteq> 0 \<or> limb v 0 > 2 ^ 32 - 1 then Inl (halt VeryLargeNumber)
      else Inr (limb v 0))"

definition size_offset_to_usize :: "u256 \<Rightarrow> u256 \<Rightarrow> vm_fail + (nat \<times> nat)" where
  "size_offset_to_usize sz off =
     (if sz = 0 then Inr (0, 0)
      else and_then (u256_to_usize sz) (\<lambda>s. and_then (u256_to_usize off) (\<lambda>o'. Inr (s, o'))))"

section \<open>Lemmas\<close>

lemma upt_4: "[0..<4] = [0, 1, 2, 3]"
  by (simp add: upt_rec)

lemma list_update_4:
  "[a, b, c, d][0 := x] = [x, b, c, d]" "[a, b, c, d][1 := x] = [a, x, c, d]"
  "[a, b, c, d][Suc 0 := x] = [a, x, c, d]"
  "[a, b, c, d][2 := x] = [a, b, x, d]" "[a, b, c, d][3 := x] = [a, b, c, x]"
  by (simp_all add: numeral_2_eq_2 numeral_3_eq_3)

lemma replicate_4: "replicate 4 x = [x, x, x, x]"
  by (simp add: numeral_eq_Suc)

lemma unat_u256_less: "unat (v :: u256) < 2 ^ 256"
  using unsigned_less [of v, where ?'a = nat] by simp

lemma be_bytes_append: "be_bytes (m + n) v = be_bytes m (v div 256 ^ n) @ be_bytes n v"
  by (induction n arbitrary: v) (simp_all add: div_mult2_eq)

lemma be_bytes_mod: "be_bytes n (v mod 256 ^ n) = be_bytes n v"
  by (metis be_bytes_be_nat be_nat_be_bytes_mod length_be_bytes)

lemma u256_to_big_endian_eq: "u256_to_big_endian v = be_bytes 32 (unat v)"
proof -
  have 8: "be_bytes 8 (x mod 18446744073709551616) = be_bytes 8 x" for x
    using be_bytes_mod [of 8 x] by simp
  have 32: "be_bytes 32 x = be_bytes 8 (x div 2 ^ 192) @ be_bytes 8 (x div 2 ^ 128) @
      be_bytes 8 (x div 2 ^ 64) @ be_bytes 8 x" for x
    using be_bytes_append [of 24 8 x] be_bytes_append [of 16 8 "x div 256 ^ 8"]
      be_bytes_append [of 8 8 "x div 256 ^ 8 div 256 ^ 8"]
    by (simp add: div_mult2_eq [symmetric])
  show ?thesis
    by (simp add: u256_to_big_endian_def upt_4 limb_def 8 32)
qed

lemma limbs_of_padded_eq:
  assumes "length bs = 32" shows "limbs_of_padded bs = word_of_nat (be_nat bs)"
proof -
  let ?s = "\<lambda>i. slice_range (8 * i) (8 * i + 8) bs"
  have split: "bs = ?s 0 @ ?s 1 @ ?s 2 @ ?s 3"
  proof -
    have "bs = take 8 bs @ take 8 (drop 8 bs) @ take 8 (drop 16 bs) @ drop 24 bs"
      using append_take_drop_id [of 8 bs] append_take_drop_id [of 8 "drop 8 bs"]
        append_take_drop_id [of 8 "drop 16 bs"] by simp
    with assms show ?thesis by (simp add: slice_range_def)
  qed
  have len: "length (?s i) = 8" if "i < 4" for i using that assms by simp
  have "be_nat bs = ((be_nat (?s 0) * 2 ^ 64 + be_nat (?s 1)) * 2 ^ 64 + be_nat (?s 2)) * 2 ^ 64 + be_nat (?s 3)"
    by (subst split, simp only: be_nat_append length_append len) (simp add: algebra_simps)
  then show ?thesis
    by (simp add: limbs_of_padded_def of_limbs_def upt_4 replicate_4 list_update_4 algebra_simps)
qed

lemma be_nat_u256_to_big_endian: "be_nat (u256_to_big_endian v) = unat v"
  using unat_u256_less [of v] by (simp add: u256_to_big_endian_eq be_nat_be_bytes_mod)

lemma length_u256_to_big_endian [simp]: "length (u256_to_big_endian v) = 32"
  by (simp add: u256_to_big_endian_eq)

lemma u256_from_big_endian_const_eq:
  "length bs \<le> 32 \<Longrightarrow> u256_from_big_endian_const bs = word_of_nat (be_nat bs)"
  by (simp add: u256_from_big_endian_const_def limbs_of_padded_eq be_nat_replicate_zero)

lemma u256_roundtrip [simp]: "u256_from_big_endian_const (u256_to_big_endian v) = v"
  by (simp add: u256_from_big_endian_const_eq be_nat_u256_to_big_endian)

lemma u256_to_big_endian_from [simp]:
  "length bs = 32 \<Longrightarrow> u256_to_big_endian (u256_from_big_endian_const bs) = bs"
  by (rule be_nat_inject) (use be_nat_less [of bs] in
    \<open>simp_all add: be_nat_u256_to_big_endian u256_from_big_endian_const_eq unat_of_nat\<close>)

lemma or_nat_eq_0: "(a OR b) = (0 :: nat) \<longleftrightarrow> a = 0 \<and> b = 0"
  by (simp add: or_eq_0_iff)

lemma limbs_sum: "unat v = limb v 0 + 2 ^ 64 * (limb v 1 + 2 ^ 64 * (limb v 2 + 2 ^ 64 * limb v 3))"
proof -
  let ?x = "unat v"
  have div: "?x div 2 ^ 64 div 2 ^ 64 = ?x div 2 ^ 128" "?x div 2 ^ 128 div 2 ^ 64 = ?x div 2 ^ 192"
    by (simp_all add: div_mult2_eq [symmetric])
  have "?x div 2 ^ 192 < 2 ^ 64"
    using unat_u256_less [of v] by (simp add: less_mult_imp_div_less)
  then have l3: "?x div 2 ^ 192 = limb v 3" by (simp add: limb_def)
  have "?x = limb v 0 + 2 ^ 64 * (?x div 2 ^ 64)" by (simp add: limb_def)
  moreover have "?x div 2 ^ 64 = limb v 1 + 2 ^ 64 * (?x div 2 ^ 128)"
    unfolding limb_def div(1) [symmetric] by simp
  moreover have "?x div 2 ^ 128 = limb v 2 + 2 ^ 64 * (?x div 2 ^ 192)"
    unfolding limb_def div(2) [symmetric] by simp
  ultimately show ?thesis using l3 by metis
qed

lemma limb_small:
  "unat v < 2 ^ 64 \<Longrightarrow> limb v 0 = unat v"
  "unat v < 2 ^ 64 \<Longrightarrow> 1 \<le> i \<Longrightarrow> limb v i = 0"
proof -
  assume v: "unat v < 2 ^ 64"
  then show "limb v 0 = unat v" by (simp add: limb_def)
  assume "1 \<le> i"
  then have "(2::nat) ^ 64 \<le> 2 ^ (64 * i)" by (intro power_increasing) simp_all
  with v have "unat v < 2 ^ (64 * i)" by linarith
  then show "limb v i = 0" by (simp add: limb_def)
qed

lemma u256_to_usize_eq:
  "u256_to_usize v = (if unat v < 2 ^ 32 then Inr (unat v) else Inl (halt VeryLargeNumber))"
proof (cases "unat v < 2 ^ 64")
  case True
  then show ?thesis by (auto simp: u256_to_usize_def limb_small)
next
  case False
  then have "\<not> (limb v 1 = 0 \<and> limb v 2 = 0 \<and> limb v 3 = 0)"
  proof (intro notI, elim conjE)
    assume "limb v 1 = 0" "limb v 2 = 0" "limb v 3 = 0"
    with limbs_sum [of v] have "unat v = limb v 0" by simp
    moreover have "limb v 0 < 2 ^ 64" by (simp add: limb_def)
    ultimately show False using False by simp
  qed
  with False show ?thesis by (simp add: u256_to_usize_def or_nat_eq_0)
qed

lemma u256_to_usize_bound: "u256_to_usize v = Inr n \<Longrightarrow> n = unat v \<and> n < 2 ^ 32"
  by (simp add: u256_to_usize_eq split: if_splits)

lemma size_offset_to_usize_bound:
  "size_offset_to_usize s o' = Inr (n, k) \<Longrightarrow> n = unat s \<and> n < 2 ^ 32 \<and> k < 2 ^ 32 \<and> (s \<noteq> 0 \<longrightarrow> k = unat o')"
  by (auto simp: size_offset_to_usize_def dest: u256_to_usize_bound split: if_splits)

end
