(* ===== verification/Evm_Memory.thy ===== *)
theory Evm_Memory
  imports Evm_U256
begin

text \<open>
  Memory of the call frames, \<open>src/crates/vm/levm/src/memory.rs\<close>.  All frames of a transaction share one
  buffer (\<open>Rc<RefCell<Vec<u8>>>\<close>), which is part of the state here; a frame's \<open>Memory\<close> is its base in the
  buffer and its length.  Slices taken without bounds check are undefined behaviour outside the buffer.
  The theorems show that frames sharing the buffer cannot be told apart from frames with separate
  zero-initialised memories, and that memory expansion is charged what the protocol asks.
\<close>

section \<open>Code\<close>

definition WORD_SIZE :: nat where
  "WORD_SIZE = 32"

definition MEMORY_EXPANSION_QUOTIENT :: nat where
  "MEMORY_EXPANSION_QUOTIENT = 512"

record Memory =
  mem_len :: nat
  current_base :: nat

type_synonym mem_state = "bytes \<times> Memory"

text \<open>
  \<open>Vec::resize\<close> panics when the capacity exceeds \<open>isize::MAX\<close>; \<open>next_multiple_of\<close> wraps around in a
  build without overflow checks.
\<close>

definition vec_resize :: "nat \<Rightarrow> 'a \<Rightarrow> 'a list \<Rightarrow> vm_fail + 'a list" where
  "vec_resize n x xs =
     (if n < 2 ^ 63 then Inr (take n xs @ replicate (n - length xs) x) else Inl VmPanic)"

text \<open>The slice \<open>a..b\<close> taken by \<open>get_unchecked\<close>, and writing to it.\<close>

definition read_unchecked :: "nat \<Rightarrow> nat \<Rightarrow> 'a list \<Rightarrow> vm_fail + 'a list" where
  "read_unchecked a b xs =
     (if a \<le> b \<and> b \<le> length xs then Inr (slice_range a b xs) else Inl UndefinedBehaviour)"

definition write_unchecked :: "nat \<Rightarrow> nat \<Rightarrow> 'a list \<Rightarrow> 'a list \<Rightarrow> vm_fail + 'a list" where
  "write_unchecked a b ys xs =
     (if a \<le> b \<and> b \<le> length xs \<and> length ys = b - a then Inr (take a xs @ ys @ drop b xs)
      else Inl UndefinedBehaviour)"

definition fill_unchecked :: "nat \<Rightarrow> nat \<Rightarrow> 'a \<Rightarrow> 'a list \<Rightarrow> vm_fail + 'a list" where
  "fill_unchecked a b x xs = write_unchecked a b (replicate (b - a) x) xs"

text \<open>\<open>copy_within\<close> of slices: panics outside the bounds, and copies as if through a temporary.\<close>

definition slice_copy_within :: "nat \<Rightarrow> nat \<Rightarrow> nat \<Rightarrow> 'a list \<Rightarrow> vm_fail + 'a list" where
  "slice_copy_within a b dest xs =
     (if a \<le> b \<and> b \<le> length xs \<and> dest + (b - a) \<le> length xs
      then Inr (take dest xs @ slice_range a b xs @ drop (dest + (b - a)) xs) else Inl VmPanic)"

definition on_buffer :: "(bytes \<Rightarrow> vm_fail + bytes) \<Rightarrow> (mem_state, unit) action" where
  "on_buffer f = (\<lambda>(buf, m). case f buf of Inl e \<Rightarrow> (Inl e, buf, m) | Inr buf' \<Rightarrow> (Inr (), buf', m))"

definition memory_new :: mem_state where
  "memory_new = ([], \<lparr> mem_len = 0, current_base = 0 \<rparr>)"

definition reset_for_reuse :: "mem_state \<Rightarrow> mem_state" where
  "reset_for_reuse = (\<lambda>(buf, m). ([], m \<lparr> mem_len := 0, current_base := 0 \<rparr>))"

definition next_memory :: "mem_state \<Rightarrow> Memory" where
  "next_memory = (\<lambda>(buf, m). m \<lparr> current_base := length buf, mem_len := 0 \<rparr>)"

definition clean_from_base :: "(mem_state, unit) action" where
  "clean_from_base = (\<lambda>(buf, m).
     on_buffer (fill_unchecked (current_base m) (wrapping_add (current_base m) (mem_len m)) 0) (buf, m))"

definition truncate_to_base :: "(mem_state, unit) action" where
  "truncate_to_base = (\<lambda>(buf, m). (Inr (), take (current_base m) buf, m))"

definition live_bytes :: "mem_state \<Rightarrow> bytes" where
  "live_bytes = (\<lambda>(buf, m).
     if mem_len m = 0 then []
     else let end' = saturating_add (current_base m) (mem_len m) in
       if current_base m \<le> end' \<and> end' \<le> length buf then slice_range (current_base m) end' buf else [])"

text \<open>\<open>resize_prerounded\<close>, also the part of \<open>resize\<close> after the rounding.\<close>

definition resize_prerounded :: "nat \<Rightarrow> (mem_state, unit) action" where
  "resize_prerounded new_memory_size = (\<lambda>(buf, m).
     if new_memory_size = 0 then (Inr (), buf, m)
     else if new_memory_size \<le> mem_len m then (Inr (), buf, m)
     else
       let m' = m \<lparr> mem_len := new_memory_size \<rparr>;
           real_new_memory_size = wrapping_add new_memory_size (current_base m') in
       if real_new_memory_size > length buf
       then on_buffer (vec_resize (next_multiple_of real_new_memory_size 64 mod 2 ^ 64) 0) (buf, m')
       else (Inr (), buf, m'))"

definition resize :: "nat \<Rightarrow> (mem_state, unit) action" where
  "resize new_memory_size =
     (if new_memory_size = 0 then ret ()
      else bind (lift_result (ok_or (checked_next_multiple_of new_memory_size WORD_SIZE) (halt OutOfBounds)))
        resize_prerounded)"

text \<open>\<open>with_range\<close>; \<open>load_range\<close> is the case where the closure copies the slice.\<close>

definition with_range :: "nat \<Rightarrow> nat \<Rightarrow> (bytes \<Rightarrow> 'a) \<Rightarrow> (mem_state, 'a) action" where
  "with_range offset sz f =
     (if sz = 0 then ret (f [])
      else bind (lift_result (ok_or (checked_add offset sz) (halt OutOfBounds))) (\<lambda>new_size.
        bind (resize new_size) (\<lambda>_. \<lambda>(buf, m).
          let true_offset = wrapping_add offset (current_base m) in
          (and_then (read_unchecked true_offset (wrapping_add true_offset sz) buf) (\<lambda>r. Inr (f r)), buf, m))))"

definition load_range :: "nat \<Rightarrow> nat \<Rightarrow> (mem_state, bytes) action" where
  "load_range offset sz =
     (if sz = 0 then ret []
      else bind (lift_result (ok_or (checked_add offset sz) (halt OutOfBounds))) (\<lambda>new_size.
        bind (resize new_size) (\<lambda>_. \<lambda>(buf, m).
          let true_offset = wrapping_add offset (current_base m) in
          (read_unchecked true_offset (wrapping_add true_offset sz) buf, buf, m))))"

definition load_range_const :: "nat \<Rightarrow> nat \<Rightarrow> (mem_state, bytes) action" where
  "load_range_const n offset =
     bind (lift_result (ok_or (checked_add offset n) (halt OutOfBounds))) (\<lambda>new_size.
     bind (resize new_size) (\<lambda>_. \<lambda>(buf, m).
       case checked_add offset (current_base m) of
         None \<Rightarrow> (Inl (halt OutOfBounds), buf, m)
       | Some true_offset \<Rightarrow> (read_unchecked true_offset (wrapping_add true_offset n) buf, buf, m)))"

definition load_word :: "nat \<Rightarrow> (mem_state, u256) action" where
  "load_word offset = bind (load_range_const WORD_SIZE offset) (\<lambda>v. ret (u256_from_big_endian_const v))"

definition store :: "bytes \<Rightarrow> nat \<Rightarrow> nat \<Rightarrow> (mem_state, unit) action" where
  "store data at_offset data_size = (\<lambda>(buf, m).
     if data_size = 0 then (Inr (), buf, m)
     else
       let real_offset = wrapping_add (current_base m) at_offset;
           real_data_size = min data_size (length data) in
       on_buffer (write_unchecked real_offset (wrapping_add real_offset real_data_size)
         (take real_data_size data)) (buf, m))"

definition store_data :: "nat \<Rightarrow> bytes \<Rightarrow> (mem_state, unit) action" where
  "store_data offset data =
     (if data = [] then ret ()
      else bind (lift_result (ok_or (checked_add offset (length data)) (halt OutOfBounds))) (\<lambda>new_size.
        bind (resize new_size) (\<lambda>_. store data offset (length data))))"

definition store_data_zero_padded :: "nat \<Rightarrow> bytes \<Rightarrow> nat \<Rightarrow> (mem_state, unit) action" where
  "store_data_zero_padded offset data total_size =
     (if total_size = 0 then ret ()
      else bind (lift_result (ok_or (checked_add offset total_size) (halt OutOfBounds))) (\<lambda>new_size.
        bind (resize new_size) (\<lambda>_.
        let copy_size = min (length data) total_size in
        bind (if copy_size > 0 then store data offset copy_size else ret ()) (\<lambda>_.
        if copy_size < total_size
        then (\<lambda>(buf, m).
          let zero_offset = wrapping_add offset copy_size;
              zero_size = total_size - copy_size;
              real_offset = wrapping_add (current_base m) zero_offset in
          on_buffer (fill_unchecked real_offset (wrapping_add real_offset zero_size) 0) (buf, m))
        else ret ()))))"

definition store_word :: "nat \<Rightarrow> u256 \<Rightarrow> (mem_state, unit) action" where
  "store_word offset word =
     bind (lift_result (ok_or (checked_add offset WORD_SIZE) (halt OutOfBounds))) (\<lambda>new_size.
     bind (resize new_size) (\<lambda>_. store (u256_to_big_endian word) offset WORD_SIZE))"

definition store_word_prerounded :: "nat \<Rightarrow> u256 \<Rightarrow> nat \<Rightarrow> (mem_state, unit) action" where
  "store_word_prerounded offset word new_memory_size =
     bind (resize_prerounded new_memory_size) (\<lambda>_. store (u256_to_big_endian word) offset WORD_SIZE)"

definition load_word_prerounded :: "nat \<Rightarrow> nat \<Rightarrow> (mem_state, u256) action" where
  "load_word_prerounded offset new_memory_size =
     bind (resize_prerounded new_memory_size) (\<lambda>_. \<lambda>(buf, m).
       case checked_add offset (current_base m) of
         None \<Rightarrow> (Inl (halt OutOfBounds), buf, m)
       | Some true_offset \<Rightarrow>
           (and_then (read_unchecked true_offset (wrapping_add true_offset WORD_SIZE) buf)
              (\<lambda>v. Inr (u256_from_big_endian_const v)), buf, m))"

definition copy_within :: "nat \<Rightarrow> nat \<Rightarrow> nat \<Rightarrow> (mem_state, unit) action" where
  "copy_within from_offset to_offset sz =
     (if sz = 0 then ret ()
      else bind (lift_result (ok_or (checked_add (max to_offset from_offset) sz) (internal Overflow))) (\<lambda>new_size.
        bind (resize new_size) (\<lambda>_. \<lambda>(buf, m).
          case checked_add from_offset (current_base m) of
            None \<Rightarrow> (Inl (halt OutOfBounds), buf, m)
          | Some true_from_offset \<Rightarrow>
            (case checked_add to_offset (current_base m) of
               None \<Rightarrow> (Inl (halt OutOfBounds), buf, m)
             | Some true_to_offset \<Rightarrow>
               (case checked_add true_from_offset sz of
                  None \<Rightarrow> (Inl (internal Overflow), buf, m)
                | Some true_end \<Rightarrow>
                    on_buffer (slice_copy_within true_from_offset true_end true_to_offset) (buf, m))))))"

definition store_zeros :: "nat \<Rightarrow> nat \<Rightarrow> (mem_state, unit) action" where
  "store_zeros offset sz =
     (if sz = 0 then ret ()
      else bind (lift_result (ok_or (checked_add offset sz) (halt OutOfBounds))) (\<lambda>new_size.
        bind (resize new_size) (\<lambda>_. \<lambda>(buf, m).
          let real_offset = wrapping_add (current_base m) offset in
          on_buffer (fill_unchecked real_offset (wrapping_add real_offset sz) 0) (buf, m))))"

text \<open>The gas of memory expansion; the unchecked products and sums wrap around.\<close>

definition memory_cost :: "nat \<Rightarrow> nat" where
  "memory_cost memory_size =
     (let words = div_ceil memory_size WORD_SIZE in
      wrapping_add (wrapping_mul words words div MEMORY_EXPANSION_QUOTIENT) (wrapping_mul 3 words))"

definition expansion_cost :: "nat \<Rightarrow> nat \<Rightarrow> nat" where
  "expansion_cost new_memory_size current_memory_size =
     (if new_memory_size \<le> current_memory_size then 0
      else wrapping_sub (memory_cost new_memory_size) (memory_cost current_memory_size))"

definition calculate_memory_size :: "nat \<Rightarrow> nat \<Rightarrow> vm_fail + nat" where
  "calculate_memory_size offset sz =
     (if sz = 0 then Inr 0
      else ok_or (Option.bind (checked_add offset sz) (\<lambda>sum. checked_next_multiple_of sum WORD_SIZE))
        (halt OutOfBounds))"

section \<open>Separate memories\<close>

text \<open>The specification: each frame has its own memory, a list of bytes that reads as zero beyond its end.\<close>

definition m_expand :: "nat \<Rightarrow> bytes \<Rightarrow> bytes" where
  "m_expand n xs = xs @ replicate (next_multiple_of n 32 - length xs) 0"

definition overwrite :: "nat \<Rightarrow> 'a list \<Rightarrow> 'a list \<Rightarrow> 'a list" where
  "overwrite off data xs = take off xs @ data @ drop (off + length data) xs"

definition m_load :: "nat \<Rightarrow> nat \<Rightarrow> bytes \<Rightarrow> bytes \<times> bytes" where
  "m_load off sz xs =
     (if sz = 0 then ([], xs)
      else let ys = m_expand (off + sz) xs in (slice_range off (off + sz) ys, ys))"

definition m_store :: "nat \<Rightarrow> bytes \<Rightarrow> bytes \<Rightarrow> bytes" where
  "m_store off data xs = (if data = [] then xs else overwrite off data (m_expand (off + length data) xs))"

definition m_copy :: "nat \<Rightarrow> nat \<Rightarrow> nat \<Rightarrow> bytes \<Rightarrow> bytes" where
  "m_copy from to sz xs =
     (if sz = 0 then xs
      else let ys = m_expand (max to from + sz) xs in overwrite to (slice_range from (from + sz) ys) ys)"

text \<open>
  A frame's memory in the buffer: what other frames own below its base, then its bytes, then zeros.
\<close>

definition mem_rel :: "bytes \<Rightarrow> bytes \<Rightarrow> mem_state \<Rightarrow> bool" where
  "mem_rel pre xs = (\<lambda>(buf, m). current_base m = length pre \<and> mem_len m = length xs \<and>
     32 dvd length xs \<and> (\<exists>k. buf = pre @ xs @ replicate k 0))"

lemma mem_relI:
  "current_base m = length pre \<Longrightarrow> mem_len m = length xs \<Longrightarrow> 32 dvd length xs \<Longrightarrow>
    buf = pre @ xs @ replicate k 0 \<Longrightarrow> mem_rel pre xs (buf, m)"
  by (auto simp: mem_rel_def)

lemma mem_relE:
  assumes "mem_rel pre xs (buf, m)"
  obtains k where "current_base m = length pre" "mem_len m = length xs" "32 dvd length xs"
    "buf = pre @ xs @ replicate k 0"
  using assms by (auto simp: mem_rel_def)

lemma length_m_expand: "length (m_expand n xs) = max (length xs) (next_multiple_of n 32)"
  by (simp add: m_expand_def)

lemma m_expand_0 [simp]: "m_expand 0 xs = xs"
  by (simp add: m_expand_def)

lemma m_expand_dvd: "32 dvd length xs \<Longrightarrow> 32 dvd length (m_expand n xs)"
  by (simp add: length_m_expand max_def next_multiple_of_dvd)

lemma m_expand_ge: "n \<le> length (m_expand n xs)"
  using next_multiple_of_ge [of n 32] by (simp add: length_m_expand)

lemma length_overwrite [simp]: "off + length data \<le> length xs \<Longrightarrow> length (overwrite off data xs) = length xs"
  by (simp add: overwrite_def)

lemma wrapping_add_small [simp]: "a + b < 2 ^ 64 \<Longrightarrow> wrapping_add a b = a + b"
  by (simp add: wrapping_add_def)

lemma resize_prerounded_refines:
  assumes rel: "mem_rel pre xs (buf, m)" and n: "32 dvd n" "length pre + n + 64 \<le> 2 ^ 63"
  shows "\<exists>s. resize_prerounded n (buf, m) = (Inr (), s) \<and> mem_rel pre (m_expand n xs) s \<and>
    length (fst s) \<le> max (length buf) (length pre + n + 64)"
proof -
  from rel obtain k where m: "current_base m = length pre" "mem_len m = length xs" "32 dvd length xs"
    and buf: "buf = pre @ xs @ replicate k 0" by (rule mem_relE)
  have nn: "next_multiple_of n 32 = n" using n(1) by (simp add: next_multiple_of_eqI)
  show ?thesis
  proof (cases "n \<le> length xs")
    case True
    then have "m_expand n xs = xs" by (simp add: m_expand_def nn)
    with True rel m show ?thesis by (auto simp: resize_prerounded_def)
  next
    case False
    let ?m = "m \<lparr> mem_len := n \<rparr>"
    have len: "length (m_expand n xs) = n" using False by (simp add: length_m_expand nn)
    have real: "wrapping_add n (length pre) = n + length pre" using n by simp
    let ?N = "next_multiple_of (n + length pre) 64"
    have N: "n + length pre \<le> ?N" "?N < n + length pre + 64"
      using next_multiple_of_ge next_multiple_of_less by simp_all
    show ?thesis
    proof (cases "n + length pre > length buf")
      case True
      have "buf @ replicate (?N - length buf) 0
          = pre @ m_expand n xs @ replicate (?N - (length pre + n)) 0"
        using True False N buf
        by (simp add: m_expand_def nn replicate_add [symmetric])
      then have "mem_rel pre (m_expand n xs) (buf @ replicate (?N - length buf) 0, ?m)"
        using m len n by (intro mem_relI) simp_all
      moreover have "resize_prerounded n (buf, m) = (Inr (), buf @ replicate (?N - length buf) 0, ?m)"
        using False True m N n real
        by (simp add: resize_prerounded_def on_buffer_def vec_resize_def Let_def)
      ultimately show ?thesis using N True by auto
    next
      case small: False
      have "buf = pre @ m_expand n xs @ replicate (length buf - (length pre + n)) 0"
        using small False buf by (simp add: m_expand_def nn replicate_add [symmetric])
      then have "mem_rel pre (m_expand n xs) (buf, ?m)"
        using m len n by (intro mem_relI) simp_all
      moreover have "resize_prerounded n (buf, m) = (Inr (), buf, ?m)"
        using False small m real by (simp add: resize_prerounded_def Let_def)
      ultimately show ?thesis by auto
    qed
  qed
qed

lemma resize_refines:
  assumes rel: "mem_rel pre xs (buf, m)" and n: "length pre + n + 96 \<le> 2 ^ 63"
  shows "\<exists>s. resize n (buf, m) = (Inr (), s) \<and> mem_rel pre (m_expand n xs) s \<and>
    length (fst s) \<le> max (length buf) (length pre + n + 96)"
proof (cases "n = 0")
  case True
  with rel show ?thesis by (auto simp: resize_def)
next
  case False
  let ?n = "next_multiple_of n 32"
  have lt: "?n < n + 32" by (simp add: next_multiple_of_less)
  have dvd: "32 dvd ?n" by (simp add: next_multiple_of_dvd)
  have "checked_next_multiple_of n 32 = Some ?n"
    using lt n by (simp add: checked_next_multiple_of_def)
  moreover obtain s where "resize_prerounded ?n (buf, m) = (Inr (), s)" "mem_rel pre (m_expand ?n xs) s"
      "length (fst s) \<le> max (length buf) (length pre + ?n + 64)"
    using resize_prerounded_refines [OF rel dvd] lt n by auto
  moreover have "m_expand ?n xs = m_expand n xs"
    by (simp add: m_expand_def next_multiple_of_eqI [OF _ dvd])
  ultimately show ?thesis using False lt
    by (intro exI [of _ s]) (simp add: resize_def bind_def WORD_SIZE_def)
qed

lemma slice_range_middle:
  "off + sz \<le> length ys \<Longrightarrow>
    slice_range (off + length pre) (off + length pre + sz) (pre @ ys @ zs) = slice_range off (off + sz) ys"
  by (simp add: slice_range_def)

lemma read_view:
  "mem_rel pre ys (buf, m) \<Longrightarrow> off + sz \<le> length ys \<Longrightarrow>
    read_unchecked (off + length pre) (off + length pre + sz) buf = Inr (slice_range off (off + sz) ys)"
  by (auto elim!: mem_relE simp: read_unchecked_def slice_range_middle)

lemma write_view:
  assumes rel: "mem_rel pre ys (buf, m)" and off: "off + length data \<le> length ys"
  shows "\<exists>buf'. write_unchecked (length pre + off) (length pre + off + length data) data buf = Inr buf' \<and>
    mem_rel pre (overwrite off data ys) (buf', m) \<and> length buf' = length buf"
proof -
  from rel obtain k where m: "current_base m = length pre" "mem_len m = length ys" "32 dvd length ys"
    and buf: "buf = pre @ ys @ replicate k 0" by (rule mem_relE)
  let ?b = "pre @ overwrite off data ys @ replicate k 0"
  have "write_unchecked (length pre + off) (length pre + off + length data) data buf = Inr ?b"
    using off by (simp add: buf write_unchecked_def overwrite_def)
  moreover have "mem_rel pre (overwrite off data ys) (?b, m)"
    using m off by (intro mem_relI) simp_all
  moreover have "length ?b = length buf" using off by (simp add: buf)
  ultimately show ?thesis by blast
qed

text \<open>What the operations start with: room for the bytes \<open>off ..< off + sz\<close>.\<close>

lemma expand_refines:
  assumes "mem_rel pre xs (buf, m)" "length pre + off + sz + 96 \<le> 2 ^ 63"
  obtains buf' m' where "resize (off + sz) (buf, m) = (Inr (), buf', m')"
    "mem_rel pre (m_expand (off + sz) xs) (buf', m')" "current_base m' = length pre"
    "off + sz \<le> length (m_expand (off + sz) xs)"
    "length buf' \<le> max (length buf) (length pre + off + sz + 96)"
proof -
  obtain s where "resize (off + sz) (buf, m) = (Inr (), s)" "mem_rel pre (m_expand (off + sz) xs) s"
    "length (fst s) \<le> max (length buf) (length pre + (off + sz) + 96)"
    using resize_refines [OF assms(1), of "off + sz"] assms(2) by (auto simp: add.assoc)
  with that [of "fst s" "snd s"] m_expand_ge show ?thesis
    by (cases s) (auto simp: add.assoc elim: mem_relE)
qed

abbreviation grown :: "bytes \<Rightarrow> bytes \<Rightarrow> nat \<Rightarrow> bytes \<Rightarrow> bool" where
  "grown pre buf n buf' \<equiv> length buf' \<le> max (length buf) (length pre + n + 96)"

lemma with_range_refines:
  assumes rel: "mem_rel pre xs (buf, m)" and b: "length pre + off + sz + 96 \<le> 2 ^ 63"
  shows "\<exists>s. with_range off sz f (buf, m) = (Inr (f (fst (m_load off sz xs))), s) \<and>
    mem_rel pre (snd (m_load off sz xs)) s \<and> grown pre buf (off + sz) (fst s)"
proof (cases "sz = 0")
  case True
  with rel show ?thesis by (auto simp: with_range_def m_load_def)
next
  case False
  obtain buf' m' where r: "resize (off + sz) (buf, m) = (Inr (), buf', m')"
    and rel': "mem_rel pre (m_expand (off + sz) xs) (buf', m')" and base: "current_base m' = length pre"
    and len: "off + sz \<le> length (m_expand (off + sz) xs)"
    and g: "length buf' \<le> max (length buf) (length pre + off + sz + 96)"
    by (rule expand_refines [OF rel b])
  have "with_range off sz f (buf, m) = (Inr (f (fst (m_load off sz xs))), buf', m')"
    using False b r base read_view [OF rel' len]
    by (simp add: with_range_def m_load_def bind_def checked_add_def Let_def)
  with rel' g False show ?thesis by (auto simp: m_load_def Let_def add.assoc)
qed

lemma load_range_with_range: "load_range off sz = with_range off sz (\<lambda>r. r)"
proof -
  have "and_then r Inr = r" for r :: "vm_fail + bytes" by (cases r) simp_all
  then show ?thesis by (simp add: load_range_def with_range_def)
qed

lemma load_range_const_refines:
  assumes rel: "mem_rel pre xs (buf, m)" and b: "length pre + off + sz + 96 \<le> 2 ^ 63" and sz: "0 < sz"
  shows "\<exists>s. load_range_const sz off (buf, m) = (Inr (fst (m_load off sz xs)), s) \<and>
    mem_rel pre (snd (m_load off sz xs)) s \<and> grown pre buf (off + sz) (fst s)"
proof -
  obtain buf' m' where r: "resize (off + sz) (buf, m) = (Inr (), buf', m')"
    and rel': "mem_rel pre (m_expand (off + sz) xs) (buf', m')" and base: "current_base m' = length pre"
    and len: "off + sz \<le> length (m_expand (off + sz) xs)"
    and g: "length buf' \<le> max (length buf) (length pre + off + sz + 96)"
    by (rule expand_refines [OF rel b])
  have "load_range_const sz off (buf, m) = (Inr (fst (m_load off sz xs)), buf', m')"
    using sz b r base read_view [OF rel' len]
    by (simp add: load_range_const_def m_load_def bind_def checked_add_def Let_def)
  with rel' g sz show ?thesis by (auto simp: m_load_def Let_def add.assoc)
qed

lemma store_refines:
  assumes rel: "mem_rel pre ys (buf, m)" and off: "off + length data \<le> length ys"
    and b: "length pre + off + length data < 2 ^ 64"
  shows "\<exists>s. store (data @ rest) off (length data) (buf, m) = (Inr (), s) \<and>
    mem_rel pre (overwrite off data ys) s \<and> length (fst s) = length buf"
proof (cases "data = []")
  case True
  with rel show ?thesis by (simp add: store_def overwrite_def)
next
  case False
  obtain buf' where w: "write_unchecked (length pre + off) (length pre + off + length data) data buf = Inr buf'"
    "mem_rel pre (overwrite off data ys) (buf', m)" "length buf' = length buf"
    using write_view [OF rel off] by auto
  have "current_base m = length pre" using rel by (rule mem_relE)
  with w False b show ?thesis
    by (intro exI [of _ "(buf', m)"]) (simp add: store_def Let_def on_buffer_def)
qed

lemma store_data_refines:
  assumes rel: "mem_rel pre xs (buf, m)" and b: "length pre + off + length data + 96 \<le> 2 ^ 63"
  shows "\<exists>s. store_data off data (buf, m) = (Inr (), s) \<and> mem_rel pre (m_store off data xs) s \<and>
    grown pre buf (off + length data) (fst s)"
proof (cases "data = []")
  case True
  with rel show ?thesis by (simp add: store_data_def m_store_def)
next
  case False
  obtain buf' m' where r: "resize (off + length data) (buf, m) = (Inr (), buf', m')"
    and rel': "mem_rel pre (m_expand (off + length data) xs) (buf', m')"
    and len: "off + length data \<le> length (m_expand (off + length data) xs)"
    and g: "length buf' \<le> max (length buf) (length pre + off + length data + 96)"
    by (rule expand_refines [OF rel b])
  from store_refines [OF rel' len, of "[]"] b obtain s where
    "store data off (length data) (buf', m') = (Inr (), s)"
    "mem_rel pre (overwrite off data (m_expand (off + length data) xs)) s" "length (fst s) = length buf'"
    by auto
  with r False b g show ?thesis
    by (intro exI [of _ s]) (simp add: store_data_def m_store_def bind_def checked_add_def add.assoc)
qed

lemma fill_refines:
  assumes rel: "mem_rel pre ys (buf, m)" and off: "off + n \<le> length ys"
  shows "\<exists>buf'. fill_unchecked (length pre + off) (length pre + off + n) 0 buf = Inr buf' \<and>
    mem_rel pre (overwrite off (replicate n 0) ys) (buf', m) \<and> length buf' = length buf"
  using write_view [OF rel, of off "replicate n 0"] off by (simp add: fill_unchecked_def)

lemma store_zeros_refines:
  assumes rel: "mem_rel pre xs (buf, m)" and b: "length pre + off + sz + 96 \<le> 2 ^ 63"
  shows "\<exists>s. store_zeros off sz (buf, m) = (Inr (), s) \<and> mem_rel pre (m_store off (replicate sz 0) xs) s \<and>
    grown pre buf (off + sz) (fst s)"
proof (cases "sz = 0")
  case True
  with rel show ?thesis by (simp add: store_zeros_def m_store_def)
next
  case False
  obtain buf' m' where r: "resize (off + sz) (buf, m) = (Inr (), buf', m')"
    and rel': "mem_rel pre (m_expand (off + sz) xs) (buf', m')" and base: "current_base m' = length pre"
    and len: "off + sz \<le> length (m_expand (off + sz) xs)"
    and g: "length buf' \<le> max (length buf) (length pre + off + sz + 96)"
    by (rule expand_refines [OF rel b])
  from fill_refines [OF rel' len] obtain buf'' where
    "fill_unchecked (length pre + off) (length pre + off + sz) 0 buf' = Inr buf''"
    "mem_rel pre (overwrite off (replicate sz 0) (m_expand (off + sz) xs)) (buf'', m')"
    "length buf'' = length buf'" by auto
  with r False b g base show ?thesis
    by (intro exI [of _ "(buf'', m')"])
      (simp add: store_zeros_def m_store_def bind_def checked_add_def add.assoc on_buffer_def Let_def)
qed

lemma overwrite_append:
  "off + length a + length b \<le> length ys \<Longrightarrow> overwrite (off + length a) b (overwrite off a ys) = overwrite off (a @ b) ys"
  by (simp add: overwrite_def add.commute add.left_commute)

lemma store_data_zero_padded_refines:
  assumes rel: "mem_rel pre xs (buf, m)" and b: "length pre + off + tot + 96 \<le> 2 ^ 63"
  shows "\<exists>s. store_data_zero_padded off data tot (buf, m) = (Inr (), s) \<and>
    mem_rel pre (m_store off (take tot data @ replicate (tot - length data) 0) xs) s \<and>
    grown pre buf (off + tot) (fst s)"
proof (cases "tot = 0")
  case True
  with rel show ?thesis by (simp add: store_data_zero_padded_def m_store_def)
next
  case False
  let ?c = "take tot data" and ?z = "replicate (tot - length data) (0 :: byte)"
  let ?ys = "m_expand (off + tot) xs"
  obtain buf' m' where r: "resize (off + tot) (buf, m) = (Inr (), buf', m')"
    and rel': "mem_rel pre ?ys (buf', m')" and len: "off + tot \<le> length ?ys"
    and g: "length buf' \<le> max (length buf) (length pre + off + tot + 96)"
    by (rule expand_refines [OF rel b])
  obtain buf1 m1 where s1: "store data off (min (length data) tot) (buf', m') = (Inr (), buf1, m1)"
    and rel1: "mem_rel pre (overwrite off ?c ?ys) (buf1, m1)" and l1: "length buf1 = length buf'"
  proof -
    have "off + length ?c \<le> length ?ys" "length pre + off + length ?c < 2 ^ 64" using len b by simp_all
    from store_refines [OF rel' this, of "drop tot data"] that show ?thesis
      by (auto simp: min.commute)
  qed
  have base: "current_base m1 = length pre" using rel1 by (rule mem_relE)
  have len1: "off + length ?c + (tot - length data) \<le> length (overwrite off ?c ?ys)"
    using len by simp
  from fill_refines [OF rel1 len1] obtain buf2 where
    f: "fill_unchecked (length pre + (off + length ?c)) (length pre + (off + length ?c) + (tot - length data)) 0 buf1
      = Inr buf2" and rel2: "mem_rel pre (overwrite (off + length ?c) ?z (overwrite off ?c ?ys)) (buf2, m1)"
    and l2: "length buf2 = length buf1" by auto
  have sp: "overwrite (off + length ?c) ?z (overwrite off ?c ?ys) = overwrite off (?c @ ?z) ?ys"
    using len by (intro overwrite_append) simp
  have s0: "(if 0 < min (length data) tot then store data off (min (length data) tot) else ret ()) (buf', m')
      = (Inr (), buf1, m1)"
  proof (cases "0 < min (length data) tot")
    case True
    with s1 show ?thesis by simp
  next
    case none: False
    then have "store data off (min (length data) tot) = ret ()" by (auto simp: store_def fun_eq_iff)
    with s1 none show ?thesis by simp
  qed
  have ne: "(?c @ ?z) \<noteq> []" "length (?c @ ?z) = tot" using False by (cases data; auto)+
  have ms: "m_store off (?c @ ?z) xs = overwrite off (?c @ ?z) ?ys"
    using ne by (simp only: m_store_def if_False)
  show ?thesis
  proof (cases "length data < tot")
    case True
    with f b base have f': "fill_unchecked (wrapping_add (current_base m1) (wrapping_add off (length data)))
       (wrapping_add (wrapping_add (current_base m1) (wrapping_add off (length data))) (tot - length data)) 0 buf1
      = Inr buf2" by (simp add: add.assoc)
    have "store_data_zero_padded off data tot (buf, m) = (Inr (), buf2, m1)"
      using False True b r s0 f'
      by (cases "data = []")
        (simp_all add: store_data_zero_padded_def bind_def checked_add_def Let_def min_absorb1 on_buffer_def)
    with rel2 sp g l1 l2 show ?thesis unfolding ms
      by (intro exI [of _ "(buf2, m1)"]) (simp add: add.assoc)
  next
    case full: False
    then have "store_data_zero_padded off data tot (buf, m) = (Inr (), buf1, m1)"
      using False b r s0 by (simp add: store_data_zero_padded_def bind_def checked_add_def Let_def)
    with rel1 full g l1 show ?thesis unfolding ms
      by (intro exI [of _ "(buf1, m1)"]) (simp add: add.assoc)
  qed
qed

lemma store_word_refines:
  assumes rel: "mem_rel pre xs (buf, m)" and b: "length pre + off + 32 + 96 \<le> 2 ^ 63"
  shows "\<exists>s. store_word off w (buf, m) = (Inr (), s) \<and> mem_rel pre (m_store off (u256_to_big_endian w) xs) s \<and>
    grown pre buf (off + 32) (fst s)"
proof -
  have "store_word off w = store_data off (u256_to_big_endian w)"
    by (auto simp: store_word_def store_data_def WORD_SIZE_def dest: arg_cong [of _ "[]" length])
  with store_data_refines [OF rel, of off "u256_to_big_endian w"] b show ?thesis by simp
qed

lemma load_word_refines:
  assumes rel: "mem_rel pre xs (buf, m)" and b: "length pre + off + 32 + 96 \<le> 2 ^ 63"
  shows "\<exists>s. load_word off (buf, m) = (Inr (u256_from_big_endian_const (fst (m_load off 32 xs))), s) \<and>
    mem_rel pre (snd (m_load off 32 xs)) s \<and> grown pre buf (off + 32) (fst s)"
  using load_range_const_refines [OF rel b] by (auto simp: load_word_def WORD_SIZE_def bind_def)

text \<open>
  The variants that take the rounded size agree with the plain ones when they are given the size that
  \<open>calculate_memory_size\<close> computed for the gas charge.
\<close>

lemma calculate_memory_size_word:
  assumes "calculate_memory_size off 32 = Inr n"
  shows "n = next_multiple_of (off + 32) 32" "off + 32 < 2 ^ 64" "n < 2 ^ 64" "0 < n"
proof -
  from assms show n: "n = next_multiple_of (off + 32) 32" and "off + 32 < 2 ^ 64" "n < 2 ^ 64"
    by (auto simp: calculate_memory_size_def WORD_SIZE_def bind_eq_Some_conv checked_next_multiple_of_def
        split: if_splits)
  show "0 < n" unfolding n using next_multiple_of_ge [of "off + 32" 32] by linarith
qed

lemma resize_calculated:
  assumes "calculate_memory_size off 32 = Inr n"
  shows "resize (off + 32) = resize_prerounded n"
  using calculate_memory_size_word [OF assms]
  by (simp add: resize_def WORD_SIZE_def checked_next_multiple_of_def bind_def fun_eq_iff)

lemma store_word_prerounded_eq:
  "calculate_memory_size off 32 = Inr n \<Longrightarrow> store_word_prerounded off w n = store_word off w"
  using resize_calculated [of off n] calculate_memory_size_word [of off n]
  by (simp add: store_word_prerounded_def store_word_def WORD_SIZE_def checked_add_def bind_def fun_eq_iff)

lemma load_word_prerounded_eq:
  assumes n: "calculate_memory_size off 32 = Inr n"
  shows "load_word_prerounded off n = load_word off"
proof (rule ext)
  fix s :: mem_state
  obtain r buf m where r: "resize_prerounded n s = (r, buf, m)" by (cases "resize_prerounded n s")
  show "load_word_prerounded off n s = load_word off s"
    using r resize_calculated [OF n] calculate_memory_size_word [OF n]
    by (cases r; cases "checked_add off (current_base m)";
        cases "read_unchecked (off + current_base m) (wrapping_add (off + current_base m) 32) buf")
      (simp_all add: load_word_prerounded_def load_word_def load_range_const_def WORD_SIZE_def bind_def
        checked_add_def split: if_splits)
qed

lemma copy_within_refines:
  assumes rel: "mem_rel pre xs (buf, m)" and b: "length pre + max to from + sz + 96 \<le> 2 ^ 63"
  shows "\<exists>s. copy_within from to sz (buf, m) = (Inr (), s) \<and> mem_rel pre (m_copy from to sz xs) s \<and>
    grown pre buf (max to from + sz) (fst s)"
proof (cases "sz = 0")
  case True
  with rel show ?thesis by (simp add: copy_within_def m_copy_def)
next
  case False
  let ?ys = "m_expand (max to from + sz) xs"
  let ?d = "slice_range from (from + sz) ?ys"
  obtain buf' m' where r: "resize (max to from + sz) (buf, m) = (Inr (), buf', m')"
    and rel': "mem_rel pre ?ys (buf', m')" and base: "current_base m' = length pre"
    and len: "max to from + sz \<le> length ?ys"
    and g: "length buf' \<le> max (length buf) (length pre + max to from + sz + 96)"
    by (rule expand_refines [OF rel b])
  have from_le: "from + sz \<le> length ?ys" and to_le: "to + sz \<le> length ?ys" using len by simp_all
  then have d: "length ?d = sz" by simp
  from write_view [OF rel', of to ?d] to_le d obtain buf'' where
    w: "write_unchecked (length pre + to) (length pre + to + sz) ?d buf' = Inr buf''"
    and rel2: "mem_rel pre (overwrite to ?d ?ys) (buf'', m')" and l: "length buf'' = length buf'" by auto
  have rd: "read_unchecked (from + length pre) (from + length pre + sz) buf' = Inr ?d"
    using read_view [OF rel' from_le] .
  have cw: "slice_copy_within (from + length pre) (from + length pre + sz) (to + length pre) buf' = Inr buf''"
    using w rd by (auto simp: slice_copy_within_def write_unchecked_def read_unchecked_def add.commute
        add.left_commute split: if_splits)
  have bnd: "from + (length pre + sz) < 2 ^ 64" "to + length pre < 2 ^ 64" "max to from + sz < 2 ^ 64"
    using b by (simp_all add: max_def split: if_splits)
  have "copy_within from to sz (buf, m) = (Inr (), buf'', m')"
    using False b r base cw bnd by (simp add: copy_within_def bind_def checked_add_def on_buffer_def add.assoc)
  with rel2 l g False show ?thesis
    by (intro exI [of _ "(buf'', m')"]) (simp add: m_copy_def Let_def add.assoc)
qed

section \<open>Frames sharing the buffer\<close>

text \<open>
  The memory operations of a transaction.  \<open>MCall\<close> is what \<open>generic_call\<close> and \<open>generic_create\<close> do with
  the memory, \<open>MReturn\<close> what \<open>handle_return_call\<close> and \<open>handle_return_create\<close> do: the child's region is
  cleaned and the parent's memory is current again.
\<close>

datatype mem_op =
    MLoadRange nat nat | MLoadWord nat | MStoreData nat bytes | MStorePadded nat bytes nat
  | MStoreWord nat u256 | MCopy nat nat nat | MZeros nat nat | MCall | MReturn

datatype mem_out = OBytes bytes | OWord u256 | ODone

type_synonym frames = "bytes \<times> Memory \<times> Memory list"

definition in_frame :: "(mem_state, 'a) action \<Rightarrow> ('a \<Rightarrow> mem_out) \<Rightarrow> (frames, mem_out) action" where
  "in_frame f out = (\<lambda>(buf, m, ms). case f (buf, m) of
     (Inl e, buf', m') \<Rightarrow> (Inl e, buf', m', ms)
   | (Inr x, buf', m') \<Rightarrow> (Inr (out x), buf', m', ms))"

definition mem_step :: "mem_op \<Rightarrow> (frames, mem_out) action" where
  "mem_step op = (case op of
     MLoadRange off sz \<Rightarrow> in_frame (load_range off sz) OBytes
   | MLoadWord off \<Rightarrow> in_frame (load_word off) OWord
   | MStoreData off data \<Rightarrow> in_frame (store_data off data) (\<lambda>_. ODone)
   | MStorePadded off data sz \<Rightarrow> in_frame (store_data_zero_padded off data sz) (\<lambda>_. ODone)
   | MStoreWord off w \<Rightarrow> in_frame (store_word off w) (\<lambda>_. ODone)
   | MCopy from to sz \<Rightarrow> in_frame (copy_within from to sz) (\<lambda>_. ODone)
   | MZeros off sz \<Rightarrow> in_frame (store_zeros off sz) (\<lambda>_. ODone)
   | MCall \<Rightarrow> (\<lambda>(buf, m, ms). (Inr ODone, buf, next_memory (buf, m), m # ms))
   | MReturn \<Rightarrow> (\<lambda>(buf, m, ms). case ms of
        [] \<Rightarrow> (Inr ODone, buf, m, [])
      | m' # ms' \<Rightarrow> (case clean_from_base (buf, m) of
          (Inl e, s) \<Rightarrow> (Inl e, fst s, m, ms)
        | (Inr _, s) \<Rightarrow> (Inr ODone, fst s, m', ms'))))"

primrec mem_run :: "mem_op list \<Rightarrow> (frames, mem_out list) action" where
  "mem_run [] = ret []"
| "mem_run (op # ops) = bind (mem_step op) (\<lambda>x. bind (mem_run ops) (\<lambda>xs. ret (x # xs)))"

text \<open>The same operations on separate memories.\<close>

definition spec_step :: "mem_op \<Rightarrow> bytes \<times> bytes list \<Rightarrow> mem_out \<times> bytes \<times> bytes list" where
  "spec_step op = (\<lambda>(x, xs). case op of
     MLoadRange off sz \<Rightarrow> (OBytes (fst (m_load off sz x)), snd (m_load off sz x), xs)
   | MLoadWord off \<Rightarrow> (OWord (u256_from_big_endian_const (fst (m_load off 32 x))), snd (m_load off 32 x), xs)
   | MStoreData off data \<Rightarrow> (ODone, m_store off data x, xs)
   | MStorePadded off data sz \<Rightarrow>
       (ODone, m_store off (take sz data @ replicate (sz - length data) 0) x, xs)
   | MStoreWord off w \<Rightarrow> (ODone, m_store off (u256_to_big_endian w) x, xs)
   | MCopy from to sz \<Rightarrow> (ODone, m_copy from to sz x, xs)
   | MZeros off sz \<Rightarrow> (ODone, m_store off (replicate sz 0) x, xs)
   | MCall \<Rightarrow> (ODone, [], x # xs)
   | MReturn \<Rightarrow> (case xs of [] \<Rightarrow> (ODone, x, []) | y # ys \<Rightarrow> (ODone, y, ys)))"

primrec spec_run :: "mem_op list \<Rightarrow> bytes \<times> bytes list \<Rightarrow> mem_out list" where
  "spec_run [] s = []"
| "spec_run (op # ops) s = (let (x, s') = spec_step op s in x # spec_run ops s')"

text \<open>Offsets and sizes are below \<open>2^32\<close>: they come from \<open>u256_to_usize\<close>.\<close>

definition op_fits :: "mem_op \<Rightarrow> bool" where
  "op_fits op = (case op of
     MLoadRange off sz \<Rightarrow> off < 2 ^ 32 \<and> sz < 2 ^ 32
   | MLoadWord off \<Rightarrow> off < 2 ^ 32
   | MStoreData off data \<Rightarrow> off < 2 ^ 32 \<and> length data < 2 ^ 32
   | MStorePadded off data sz \<Rightarrow> off < 2 ^ 32 \<and> sz < 2 ^ 32
   | MStoreWord off w \<Rightarrow> off < 2 ^ 32
   | MCopy from to sz \<Rightarrow> from < 2 ^ 32 \<and> to < 2 ^ 32 \<and> sz < 2 ^ 32
   | MZeros off sz \<Rightarrow> off < 2 ^ 32 \<and> sz < 2 ^ 32
   | MCall \<Rightarrow> True
   | MReturn \<Rightarrow> True)"

fun parents_rel :: "bytes \<Rightarrow> Memory list \<Rightarrow> bytes list \<Rightarrow> bool" where
  "parents_rel pre [] [] = True"
| "parents_rel pre (m # ms) (x # xs) = (\<exists>pre'. mem_rel pre' x (pre, m) \<and> parents_rel pre' ms xs)"
| "parents_rel _ _ _ = False"

definition frames_rel :: "frames \<Rightarrow> bytes \<times> bytes list \<Rightarrow> bool" where
  "frames_rel = (\<lambda>(buf, m, ms) (x, xs). \<exists>pre. mem_rel pre x (buf, m) \<and> parents_rel pre ms xs)"

lemma frames_relI: "mem_rel pre x (buf, m) \<Longrightarrow> parents_rel pre ms xs \<Longrightarrow> frames_rel (buf, m, ms) (x, xs)"
  by (auto simp: frames_rel_def)

lemma mem_rel_next_memory: "mem_rel buf [] (buf, next_memory (buf, m))"
  by (intro mem_relI [where k = 0]) (simp_all add: next_memory_def)

lemma mem_rel_zeros: "mem_rel pre x (buf, m) \<Longrightarrow> mem_rel pre x (buf @ replicate k 0, m)"
  by (auto simp: mem_rel_def replicate_add [symmetric])

lemma clean_from_base_refines:
  assumes "mem_rel pre x (buf, m)" "length buf < 2 ^ 64"
  shows "\<exists>k. clean_from_base (buf, m) = (Inr (), pre @ replicate k 0, m) \<and>
    length (pre @ replicate k (0 :: byte)) = length buf"
  using assms
  by (auto elim!: mem_relE simp: clean_from_base_def on_buffer_def fill_unchecked_def write_unchecked_def
      replicate_add [symmetric])

lemma truncate_to_base_refines:
  "mem_rel pre x (buf, m) \<Longrightarrow> truncate_to_base (buf, m) = (Inr (), pre, m)"
  by (auto elim!: mem_relE simp: truncate_to_base_def)

definition frame_op :: "bytes \<Rightarrow> mem_state \<Rightarrow> (mem_state, 'a) action \<Rightarrow> 'a \<Rightarrow> bytes \<Rightarrow> nat \<Rightarrow> bool" where
  "frame_op pre st f r y n \<longleftrightarrow>
     (\<exists>s. f st = (Inr r, s) \<and> mem_rel pre y s \<and> grown pre (fst st) n (fst s))"

lemma in_frame_step:
  assumes "mem_rel pre x (buf, m)" "parents_rel pre ms xs" "n + 96 \<le> 2 ^ 34" "frame_op pre (buf, m) f r y n"
  shows "\<exists>t. in_frame f out (buf, m, ms) = (Inr (out r), t) \<and> frames_rel t (y, xs) \<and>
    length (fst t) \<le> length buf + 2 ^ 34"
proof -
  from assms(4) obtain s where s: "f (buf, m) = (Inr r, s)" "mem_rel pre y s" "grown pre buf n (fst s)"
    by (auto simp: frame_op_def)
  have "length pre \<le> length buf" using assms(1) by (auto elim: mem_relE)
  with s(3) assms(3) have "length (fst s) \<le> length buf + 2 ^ 34" by (auto simp: max_def split: if_splits)
  with s assms(2) show ?thesis
    by (intro exI [of _ "(fst s, snd s, ms)"]) (auto simp: in_frame_def frames_rel_def split: prod.splits)
qed

lemma return_step:
  assumes "frames_rel (buf, m, ms) (x, xs)" "length buf < 2 ^ 64"
  shows "\<exists>t. mem_step MReturn (buf, m, ms) = (Inr (fst (spec_step MReturn (x, xs))), t) \<and>
    frames_rel t (snd (spec_step MReturn (x, xs))) \<and> length (fst t) = length buf"
proof -
  from assms(1) obtain pre where rel: "mem_rel pre x (buf, m)" "parents_rel pre ms xs"
    by (auto simp: frames_rel_def)
  show ?thesis
  proof (cases ms)
    case Nil
    then have "xs = []" using rel(2) by (cases xs) auto
    with Nil assms(1) show ?thesis by (simp add: mem_step_def spec_step_def)
  next
    case (Cons m' ms')
    then obtain y ys where xs: "xs = y # ys" using rel(2) by (cases xs) auto
    with rel(2) Cons obtain pre' where p: "mem_rel pre' y (pre, m')" "parents_rel pre' ms' ys" by auto
    obtain k where c: "clean_from_base (buf, m) = (Inr (), pre @ replicate k 0, m)"
      "length (pre @ replicate k (0 :: byte)) = length buf"
      using clean_from_base_refines [OF rel(1) assms(2)] by blast
    have "frames_rel (pre @ replicate k 0, m', ms') (y, ys)"
      using mem_rel_zeros [OF p(1)] p(2) by (rule frames_relI)
    with c Cons xs show ?thesis by (simp add: mem_step_def spec_step_def)
  qed
qed

lemma mem_step_refines:
  assumes rel: "frames_rel (buf, m, ms) (x, xs)" and fits: "op_fits op"
    and b: "length buf + 2 ^ 35 \<le> 2 ^ 63"
  shows "\<exists>t. mem_step op (buf, m, ms) = (Inr (fst (spec_step op (x, xs))), t) \<and>
    frames_rel t (snd (spec_step op (x, xs))) \<and> length (fst t) \<le> length buf + 2 ^ 34"
proof -
  from rel obtain pre where r: "mem_rel pre x (buf, m)" and p: "parents_rel pre ms xs"
    by (auto simp: frames_rel_def)
  have pre: "length pre \<le> length buf" using r by (auto elim: mem_relE)
  have room: "length pre + n + 96 \<le> 2 ^ 63" if "n + 96 \<le> 2 ^ 34" for n using that pre b by simp
  note step = in_frame_step [OF r p]
  show ?thesis
  proof (cases op)
    case (MLoadRange off sz)
    with fits have n: "off + sz + 96 \<le> 2 ^ 34" by (simp add: op_fits_def)
    have "frame_op pre (buf, m) (load_range off sz) (fst (m_load off sz x)) (snd (m_load off sz x)) (off + sz)"
      using with_range_refines [OF r, of off sz "\<lambda>r. r"] room [OF n] by (simp add: frame_op_def add.assoc load_range_with_range)
    from step [OF n this, of OBytes] MLoadRange show ?thesis by (simp add: mem_step_def spec_step_def)
  next
    case (MLoadWord off)
    with fits have n: "off + 32 + 96 \<le> 2 ^ 34" by (simp add: op_fits_def)
    have "frame_op pre (buf, m) (load_word off) (u256_from_big_endian_const (fst (m_load off 32 x))) (snd (m_load off 32 x)) (off + 32)"
      using load_word_refines [OF r, of off] room [OF n] by (simp add: frame_op_def add.assoc)
    from step [OF n this, of OWord] MLoadWord show ?thesis by (simp add: mem_step_def spec_step_def)
  next
    case (MStoreData off data)
    with fits have n: "off + length data + 96 \<le> 2 ^ 34" by (simp add: op_fits_def)
    have "frame_op pre (buf, m) (store_data off data) (()) (m_store off data x) (off + length data)"
      using store_data_refines [OF r, of off data] room [OF n] by (simp add: frame_op_def add.assoc)
    from step [OF n this, of "\<lambda>_. ODone"] MStoreData show ?thesis by (simp add: mem_step_def spec_step_def)
  next
    case (MStorePadded off data sz)
    with fits have n: "off + sz + 96 \<le> 2 ^ 34" by (simp add: op_fits_def)
    have "frame_op pre (buf, m) (store_data_zero_padded off data sz) (()) (m_store off (take sz data @ replicate (sz - length data) 0) x) (off + sz)"
      using store_data_zero_padded_refines [OF r, of off sz data] room [OF n] by (simp add: frame_op_def add.assoc)
    from step [OF n this, of "\<lambda>_. ODone"] MStorePadded show ?thesis by (simp add: mem_step_def spec_step_def)
  next
    case (MStoreWord off w)
    with fits have n: "off + 32 + 96 \<le> 2 ^ 34" by (simp add: op_fits_def)
    have "frame_op pre (buf, m) (store_word off w) (()) (m_store off (u256_to_big_endian w) x) (off + 32)"
      using store_word_refines [OF r, of off w] room [OF n] by (simp add: frame_op_def add.assoc)
    from step [OF n this, of "\<lambda>_. ODone"] MStoreWord show ?thesis by (simp add: mem_step_def spec_step_def)
  next
    case (MCopy src to sz)
    with fits have n: "max to src + sz + 96 \<le> 2 ^ 34" by (simp add: op_fits_def max_def)
    have "frame_op pre (buf, m) (copy_within src to sz) (()) (m_copy src to sz x) (max to src + sz)"
      using copy_within_refines [OF r, of to src sz] room [OF n] by (simp add: frame_op_def add.assoc)
    from step [OF n this, of "\<lambda>_. ODone"] MCopy show ?thesis by (simp add: mem_step_def spec_step_def)
  next
    case (MZeros off sz)
    with fits have n: "off + sz + 96 \<le> 2 ^ 34" by (simp add: op_fits_def)
    have "frame_op pre (buf, m) (store_zeros off sz) (()) (m_store off (replicate sz 0) x) (off + sz)"
      using store_zeros_refines [OF r, of off sz] room [OF n] by (simp add: frame_op_def add.assoc)
    from step [OF n this, of "\<lambda>_. ODone"] MZeros show ?thesis by (simp add: mem_step_def spec_step_def)
  next
    case MCall
    have "frames_rel (buf, next_memory (buf, m), m # ms) ([], x # xs)"
      using r p by (intro frames_relI [OF mem_rel_next_memory]) auto
    with MCall show ?thesis by (simp add: mem_step_def spec_step_def)
  next
    case MReturn
    with return_step [OF rel] b show ?thesis by fastforce
  qed
qed

lemma mem_run_refines:
  assumes "frames_rel s (x, xs)" "list_all op_fits ops"
    "length (fst s) + 2 ^ 34 * length ops + 2 ^ 35 \<le> 2 ^ 63"
  shows "fst (mem_run ops s) = Inr (spec_run ops (x, xs))"
  using assms
proof (induction ops arbitrary: s x xs)
  case Nil
  then show ?case by simp
next
  case (Cons op ops)
  obtain buf m ms where s: "s = (buf, m, ms)" by (cases s)
  obtain t where t: "mem_step op s = (Inr (fst (spec_step op (x, xs))), t)"
    "frames_rel t (snd (spec_step op (x, xs)))" "length (fst t) \<le> length buf + 2 ^ 34"
    using mem_step_refines [of buf m ms x xs op] Cons.prems by (auto simp: s)
  obtain y ys where y: "snd (spec_step op (x, xs)) = (y, ys)" by (cases "snd (spec_step op (x, xs))")
  have "fst (mem_run ops t) = Inr (spec_run ops (y, ys))"
    using t y Cons.prems by (intro Cons.IH) (simp_all add: s)
  with t(1) y show ?case
    by (cases "mem_run ops t") (simp add: bind_def Let_def split_beta)
qed

text \<open>
  C4: frames that share one buffer behave as frames with separate, zero-initialised memories: for every
  sequence of memory operations, calls and returns, with offsets and sizes as \<open>u256_to_usize\<close> gives them,
  what is loaded is what the separate memories hold.  No operation fails, panics or accesses the buffer
  outside its bounds.  (The bound on the length of the sequence keeps the buffer below \<open>isize::MAX\<close>.)
\<close>

theorem memory_frames_isolated:
  assumes "list_all op_fits ops" "length ops \<le> 2 ^ 28"
  shows "fst (mem_run ops (fst memory_new, snd memory_new, [])) = Inr (spec_run ops ([], []))"
proof (rule mem_run_refines)
  show "frames_rel (fst memory_new, snd memory_new, []) ([], [])"
    by (rule frames_relI [of "[]"]) (simp_all add: mem_rel_def memory_new_def)
  show "length (fst (fst memory_new, snd memory_new, [])) + 2 ^ 34 * length ops + 2 ^ 35 \<le> 2 ^ 63"
    using assms(2) by (simp add: memory_new_def)
qed (rule assms(1))

theorem memory_frames_isolated_witness:
  "fst (mem_run [MStoreData 1 [7], MCall, MLoadRange 1 1, MStoreData 0 [9], MReturn, MLoadRange 0 3]
     (fst memory_new, snd memory_new, []))
   = Inr [ODone, ODone, OBytes [0], ODone, ODone, OBytes [0, 7, 0]]"
proof -
  let ?ops = "[MStoreData 1 [7], MCall, MLoadRange 1 1, MStoreData 0 [9], MReturn, MLoadRange 0 3]"
  have "spec_run ?ops ([], []) = [ODone, ODone, OBytes [0], ODone, ODone, OBytes [0, 7, 0]]"
    by code_simp
  moreover have "list_all op_fits ?ops" "length ?ops \<le> 2 ^ 28" by (simp_all add: op_fits_def)
  ultimately show ?thesis by (metis memory_frames_isolated)
qed

section \<open>Memory expansion gas\<close>

text \<open>The total cost the protocol assigns to a memory of \<open>n\<close> bytes, in unbounded arithmetic.\<close>

definition spec_cost :: "nat \<Rightarrow> nat" where
  "spec_cost n = (let w = (n + 31) div 32 in w * w div 512 + 3 * w)"

lemma div_ceil_32: "div_ceil n 32 = (n + 31) div 32"
proof -
  define q r where "q = n div 32" and "r = n mod 32"
  then have n: "n = 32 * q + r" and r: "r < 32" by simp_all
  have "(n + 31) div 32 = q + (r + 31) div 32" by (simp add: n add.assoc)
  moreover have "(r + 31) div 32 = (if r = 0 then 0 else 1)"
    using r by (auto simp: div_eq_0_iff intro: div_nat_eqI)
  ultimately show ?thesis by (simp add: div_ceil_def q_def r_def)
qed

lemma spec_cost_mono: "m \<le> n \<Longrightarrow> spec_cost m \<le> spec_cost n"
  unfolding spec_cost_def Let_def by (intro add_mono div_le_mono mult_le_mono) simp_all

lemma spec_cost_bound: "n \<le> 2 ^ 34 \<Longrightarrow> spec_cost n < 2 ^ 50"
proof -
  assume "n \<le> 2 ^ 34"
  then have "spec_cost n \<le> spec_cost (2 ^ 34)" by (rule spec_cost_mono)
  also have "\<dots> < 2 ^ 50" by (simp add: spec_cost_def)
  finally show ?thesis .
qed

lemma memory_cost_exact: "n \<le> 2 ^ 34 \<Longrightarrow> memory_cost n = spec_cost n"
proof -
  assume n: "n \<le> 2 ^ 34"
  let ?w = "(n + 31) div 32"
  have w: "?w \<le> 2 ^ 29" using n by simp
  then have "?w * ?w \<le> 2 ^ 29 * 2 ^ 29" by (intro mult_le_mono) simp_all
  then have "wrapping_mul ?w ?w = ?w * ?w" "wrapping_mul 3 ?w = 3 * ?w"
    using w by (simp_all add: wrapping_mul_def)
  with spec_cost_bound [OF n] show ?thesis
    by (simp add: memory_cost_def spec_cost_def div_ceil_32 WORD_SIZE_def MEMORY_EXPANSION_QUOTIENT_def
        wrapping_add_def Let_def)
qed

lemma wrapping_sub_small: "b \<le> a \<Longrightarrow> a < 2 ^ 64 \<Longrightarrow> wrapping_sub a b = a - b"
  by (simp add: wrapping_sub_def mod_if)

lemma expansion_cost_exact:
  "n \<le> 2 ^ 34 \<Longrightarrow> c \<le> 2 ^ 34 \<Longrightarrow> expansion_cost n c = spec_cost n - spec_cost c"
  using spec_cost_mono [of n c] spec_cost_mono [of c n] spec_cost_bound [of n]
  by (auto simp: expansion_cost_def memory_cost_exact wrapping_sub_small)

lemma calculate_memory_size_eq:
  assumes "off < 2 ^ 32" "sz < 2 ^ 32"
  shows "calculate_memory_size off sz = Inr (if sz = 0 then 0 else next_multiple_of (off + sz) 32)"
    and "next_multiple_of (off + sz) 32 \<le> 2 ^ 34"
  using assms next_multiple_of_less [of 32 "off + sz"]
  by (auto simp: calculate_memory_size_def checked_add_def checked_next_multiple_of_def WORD_SIZE_def)





end
