(* ===== verification/Evm_Code_Walks.thy ===== *)
theory Evm_Code_Walks imports Evm_Code begin

text \<open>
  The walk tables of the block-wise jump-destination analysis: four doubling rounds follow the walks of a
  group of sixteen bytes to their exits, the tables of the four groups chain to the walk through a block,
  and a block's word marks the \<open>JUMPDEST\<close> bytes the walk lands on.
\<close>

unbundle bit_operations_syntax

lemma upt_0_4: "[0..<4] = [0, 1, 2, 3]"
  by (simp add: upt_rec)

section \<open>Walks in a group\<close>

definition group_step :: "bytes \<Rightarrow> nat \<Rightarrow> nat" where
  "group_step bytes p = (if p < 16 then p + 1 + immediates_of (bytes ! p) else p)"

lemma group_step_ge: "p \<le> group_step bytes p"
  by (simp add: group_step_def)

lemma group_step_in: "p < 16 \<Longrightarrow> group_step bytes p = p + 1 + immediates_of (bytes ! p)"
  and group_step_out: "\<not> p < 16 \<Longrightarrow> group_step bytes p = p"
  by (simp_all add: group_step_def)

lemma funpow_step_ge: "p \<le> (group_step bytes ^^ m) p"
  by (induction m) (auto intro: order_trans [OF _ group_step_ge])

lemma funpow_step_mono: "m \<le> n \<Longrightarrow> (group_step bytes ^^ m) p \<le> (group_step bytes ^^ n) p"
proof -
  assume "m \<le> n"
  then obtain k where "n = k + m" by (metis add.commute le_Suc_ex)
  then show ?thesis using funpow_step_ge [of "(group_step bytes ^^ m) p" k bytes] by (simp add: funpow_add)
qed

lemma group_step_fix: "16 \<le> p \<Longrightarrow> (group_step bytes ^^ m) p = p"
  by (induction m) (simp_all add: group_step_def)

lemma group_step_bound: "p \<le> 48 \<Longrightarrow> (group_step bytes ^^ m) p \<le> 48"
proof (induction m)
  case (Suc m)
  let ?q = "(group_step bytes ^^ m) p"
  have "group_step bytes ?q \<le> 48"
    using Suc immediates_of_le [of "bytes ! ?q"] by (cases "?q < 16") (simp_all add: group_step_in group_step_out)
  then show ?case by simp
qed simp

lemma group_step_progress: "p + m \<le> 16 \<Longrightarrow> p + m \<le> (group_step bytes ^^ m) p"
proof (induction m)
  case (Suc m)
  then have "p + m \<le> (group_step bytes ^^ m) p" by simp
  then show ?case using Suc.prems
    by (cases "(group_step bytes ^^ m) p < 16") (simp_all add: group_step_in group_step_out)
qed simp

text \<open>The state after a number of steps: where the walks are, and which bytes they landed on.\<close>

definition walks_after :: "bytes \<Rightarrow> nat \<Rightarrow> bytes \<Rightarrow> bool" where
  "walks_after bytes m ex \<longleftrightarrow> length ex = 16 \<and> (\<forall>p < 16. unat (ex ! p) = (group_step bytes ^^ m) p)"

definition stops_after :: "bytes \<Rightarrow> nat \<Rightarrow> nat \<Rightarrow> bytes \<Rightarrow> bool" where
  "stops_after bytes off m st \<longleftrightarrow> length st = 16 \<and>
     (\<forall>p < 16. \<forall>q. bit (st ! p) q \<longleftrightarrow> q < 8 \<and> (\<exists>j < m. (group_step bytes ^^ j) p = q + off))"

text \<open>Both lookups read zero for the walks that have left the group.\<close>

lemma add_70:
  assumes "unat (i :: byte) \<le> 48"
  shows "bit (i + 0x70) 7 \<longleftrightarrow> 16 \<le> unat i" and "unat i < 16 \<Longrightarrow> unat ((i + 0x70) AND 0x0F) = unat i"
proof -
  have s: "unat (i + 0x70) = unat i + 112" using assms by (simp add: unat_plus_if_size word_size)
  have "bit (unat (i + 0x70)) 7 = bit (i + 0x70) 7" by (rule bit_unsigned_iff [THEN trans]) simp
  then have "bit (i + 0x70) 7 \<longleftrightarrow> odd ((unat i + 112) div 128)" unfolding s by (simp add: bit_iff_odd)
  moreover have "(unat i + 112) div 128 = (if 16 \<le> unat i then 1 else 0)" using assms by auto
  ultimately show "bit (i + 0x70) 7 \<longleftrightarrow> 16 \<le> unat i" by simp
  assume "unat i < 16"
  have "unat ((i + 0x70) AND 0x0F) = (unat i + 112) mod 16"
    using s by (simp add: and_0F take_bit_eq_mod unat_mod)
  moreover have "(unat i + 112) mod 16 = unat i mod 16" using mod_mult_self2 [of "unat i" 16 7] by simp
  ultimately show "unat ((i + 0x70) AND 0x0F) = unat i"
    using \<open>unat i < 16\<close> by simp
qed

lemma lookup_nth:
  assumes "length idx = 16" "length t = 16" "p < 16" "unat (idx ! p) \<le> 48"
  shows "lookup target t idx ! p = (if unat (idx ! p) < 16 then t ! unat (idx ! p) else 0)"
  using assms add_70 [OF assms(4)]
  by (cases target) (auto simp: lookup_def vqtbl1q_u8_def shuffle_epi8_def lanes_add_def splat_def)

lemma length_lookup [simp]: "length idx = 16 \<Longrightarrow> length (lookup target t idx) = 16"
  by (cases target) (simp_all add: lookup_def vqtbl1q_u8_def shuffle_epi8_def lanes_add_def splat_def)

lemma round_exits:
  assumes "walks_after bytes m ex" shows "walks_after bytes (m + m) (lanes_max ex (lookup target ex ex))"
proof -
  have len: "length ex = 16" and ex: "\<And>p. p < 16 \<Longrightarrow> unat (ex ! p) = (group_step bytes ^^ m) p"
    using assms by (auto simp: walks_after_def)
  have "unat (lanes_max ex (lookup target ex ex) ! p) = (group_step bytes ^^ (m + m)) p" if p: "p < 16" for p
  proof -
    let ?q = "(group_step bytes ^^ m) p"
    have q: "unat (ex ! p) = ?q" "?q \<le> 48" using ex [OF p] group_step_bound p by auto
    have "lanes_max ex (lookup target ex ex) ! p = max (ex ! p) (if ?q < 16 then ex ! ?q else 0)"
      using lookup_nth [OF len len p] q len p by (simp add: lanes_max_def)
    moreover have "(group_step bytes ^^ (m + m)) p = (if ?q < 16 then unat (ex ! ?q) else ?q)"
      using ex [of ?q] group_step_fix [of ?q] by (simp add: funpow_add)
    moreover have "?q \<le> unat (ex ! ?q)" if "?q < 16" using ex [OF that] funpow_step_ge by simp
    ultimately show ?thesis using q by (auto simp: max_def word_le_nat_alt)
  qed
  with len show ?thesis by (simp add: walks_after_def lanes_max_def)
qed

lemma funpow_split_ex:
  "(\<exists>j < m + m. (f ^^ j) p = r) \<longleftrightarrow> (\<exists>j < m. (f ^^ j) p = r) \<or> (\<exists>j < m. (f ^^ j) ((f ^^ m) p) = r)"
proof
  assume "\<exists>j < m + m. (f ^^ j) p = r"
  then obtain j where j: "j < m + m" "(f ^^ j) p = r" by blast
  show "(\<exists>j < m. (f ^^ j) p = r) \<or> (\<exists>j < m. (f ^^ j) ((f ^^ m) p) = r)"
  proof (cases "j < m")
    case False
    then have "(f ^^ (j - m)) ((f ^^ m) p) = r" using j(2) funpow_add [of "j - m" m f] by simp
    moreover have "j - m < m" using False j(1) by simp
    ultimately show ?thesis by blast
  qed (use j in blast)
next
  assume "(\<exists>j < m. (f ^^ j) p = r) \<or> (\<exists>j < m. (f ^^ j) ((f ^^ m) p) = r)"
  then show "\<exists>j < m + m. (f ^^ j) p = r"
  proof (elim disjE exE conjE)
    fix j assume "j < m" "(f ^^ j) ((f ^^ m) p) = r"
    then have "j + m < m + m" "(f ^^ (j + m)) p = r" by (simp_all add: funpow_add)
    then show ?thesis by blast
  qed (auto intro: trans_less_add1)
qed

lemma round_stops:
  assumes ex: "walks_after bytes m ex" and st: "stops_after bytes off m st" and off: "off + 8 \<le> 16"
  shows "stops_after bytes off (m + m) (lanes_or st (lookup target st ex))"
proof -
  have len: "length ex = 16" "length st = 16" using ex st by (auto simp: walks_after_def stops_after_def)
  have "bit (lanes_or st (lookup target st ex) ! p) q \<longleftrightarrow>
      q < 8 \<and> (\<exists>j < m + m. (group_step bytes ^^ j) p = q + off)" if p: "p < 16" for p q
  proof -
    let ?r = "(group_step bytes ^^ m) p"
    have r: "unat (ex ! p) = ?r" "?r \<le> 48" using ex p group_step_bound by (auto simp: walks_after_def)
    have nth: "lanes_or st (lookup target st ex) ! p = st ! p OR (if ?r < 16 then st ! ?r else 0)"
      using lookup_nth [OF len p] r len p by (simp add: lanes_or_def)
    have bits: "bit (st ! p') q \<longleftrightarrow> q < 8 \<and> (\<exists>j < m. (group_step bytes ^^ j) p' = q + off)"
      if "p' < 16" for p' using st that by (simp add: stops_after_def)
    show ?thesis
    proof (cases "?r < 16")
      case True
      with nth bits [OF p] bits [OF True] show ?thesis
        unfolding funpow_split_ex by (simp add: bit_or_iff) blast
    next
      case False
      then have "(group_step bytes ^^ j) ?r \<noteq> q + off" if "q < 8" for j
        using group_step_fix [of ?r] off that by simp
      with nth bits [OF p] False show ?thesis unfolding funpow_split_ex by auto
    qed
  qed
  with len show ?thesis by (simp add: stops_after_def lanes_or_def)
qed

lemma stops_complete:
  assumes "stops_after bytes 0 8 st" shows "stops_after bytes 0 16 st"
proof -
  have "(\<exists>j < 16. (group_step bytes ^^ j) p = q) \<longleftrightarrow> (\<exists>j < 8. (group_step bytes ^^ j) p = q)" if "q < 8" for p q
  proof
    assume "\<exists>j < 16. (group_step bytes ^^ j) p = q"
    then obtain j where j: "(group_step bytes ^^ j) p = q" by blast
    have "j < 8"
    proof (rule ccontr)
      assume "\<not> j < 8"
      then have "(group_step bytes ^^ 8) p \<le> q" using funpow_step_mono [of 8 j bytes p] j by simp
      moreover have "p \<le> q" using funpow_step_ge [of p j bytes] j by simp
      ultimately show False using group_step_progress [of p 8 bytes] that by simp
    qed
    with j show "\<exists>j < 8. (group_step bytes ^^ j) p = q" by blast
  next
    assume "\<exists>j < 8. (group_step bytes ^^ j) p = q"
    then obtain j where "j < 8" "(group_step bytes ^^ j) p = q" by blast
    then have "j < 16" "(group_step bytes ^^ j) p = q" by simp_all
    then show "\<exists>j < 16. (group_step bytes ^^ j) p = q" by blast
  qed
  with assms show ?thesis by (auto simp: stops_after_def)
qed


text \<open>The first step of the walks.\<close>

lemma push_byte:
  fixes b :: byte shows "(b AND 0xE0) = 0x60 \<longleftrightarrow> 0x60 \<le> b \<and> b \<le> 0x7F"
proof -
  have "list_all (\<lambda>n. ((word_of_int n :: byte) AND 0xE0) = 0x60 \<longleftrightarrow> 0x60 \<le> n \<and> n \<le> 0x7F) [0..255]"
    by code_simp
  moreover have "uint b \<in> set [0..255]" using uint_bounded [of b] by simp
  ultimately have "((word_of_int (uint b) :: byte) AND 0xE0) = 0x60 \<longleftrightarrow> 0x60 \<le> uint b \<and> uint b \<le> 0x7F"
    by (simp only: list_all_iff)
  then show ?thesis by (simp add: word_le_def)
qed

lemma masked_immediates:
  "unat ((if (b AND 0xE0) = OP_PUSH1 then 0xFF else 0) AND (b - (OP_PUSH1 - 1))) = immediates_of (b :: byte)"
proof (cases "0x60 \<le> b \<and> b \<le> 0x7F")
  case True
  have "(0xFF :: byte) = - 1" by simp
  then have "(0xFF :: byte) AND x = x" for x by (simp only: and.left_neutral)
  moreover have "unat (b - 0x5F) = unat b - 0x5F" using True by (simp add: unat_sub word_le_nat_alt)
  ultimately show ?thesis using True push_byte [of b] by (simp add: OP_PUSH1_def immediates_of_def)
next
  case False
  then show ?thesis using push_byte [of b] by (auto simp: OP_PUSH1_def immediates_of_def)
qed

lemma less_16_list: "p < 16 \<longleftrightarrow> p \<in> set [0..<16]"
  by simp

lemma group_walks_init:
  assumes "length bytes = 16"
  shows "walks_after bytes 1 (lanes_add POSITIONS_PLUS_ONE
     (lanes_and (lanes_eq (lanes_and bytes (splat 0xE0)) (splat OP_PUSH1)) (lanes_sub bytes (splat (OP_PUSH1 - 1)))))"
proof -
  have "list_all (\<lambda>p. unat (POSITIONS_PLUS_ONE ! p) = p + 1) [0..<16]" by code_simp
  then have pos: "unat (POSITIONS_PLUS_ONE ! p) = p + 1" if "p < 16" for p
    using that unfolding less_16_list list_all_iff by blast
  have len: "length POSITIONS_PLUS_ONE = 16" by (simp add: POSITIONS_PLUS_ONE_def)
  have "unat (POSITIONS_PLUS_ONE ! p + ((if (bytes ! p AND 0xE0) = OP_PUSH1 then 0xFF else 0) AND (bytes ! p - (OP_PUSH1 - 1))))
      = group_step bytes p" if "p < 16" for p
    using pos [OF that] masked_immediates [of "bytes ! p"] immediates_of_le [of "bytes ! p"] that
    by (subst unat_plus_if_size) (simp add: word_size group_step_in)
  with assms len show ?thesis
    by (simp add: walks_after_def lanes_add_def lanes_and_def lanes_eq_def lanes_sub_def splat_def)
qed

lemma stops_init:
  "stops_after bytes 0 1 LOW_POSITION_BITS" "stops_after bytes 8 1 HIGH_POSITION_BITS"
proof -
  have "list_all (\<lambda>p. list_all (\<lambda>q. bit (LOW_POSITION_BITS ! p) q = (p = q)) [0..<8]) [0..<16]"
    "list_all (\<lambda>p. list_all (\<lambda>q. bit (HIGH_POSITION_BITS ! p) q = (p = q + 8)) [0..<8]) [0..<16]"
    by code_simp+
  then have "bit (LOW_POSITION_BITS ! p) q = (p = q)" "bit (HIGH_POSITION_BITS ! p) q = (p = q + 8)"
    if "p < 16" "q < 8" for p q
    using that unfolding list_all_iff by simp_all
  moreover have "q < 8" if "bit (b :: byte) q" for b q using bit_imp_le_length [OF that] by simp
  ultimately have "bit (LOW_POSITION_BITS ! p) q \<longleftrightarrow> q < 8 \<and> p = q"
    "bit (HIGH_POSITION_BITS ! p) q \<longleftrightarrow> q < 8 \<and> p = q + 8" if "p < 16" for p q
    using that by blast+
  moreover have "length LOW_POSITION_BITS = 16" "length HIGH_POSITION_BITS = 16"
    by (simp_all add: LOW_POSITION_BITS_def HIGH_POSITION_BITS_def)
  ultimately show "stops_after bytes 0 1 LOW_POSITION_BITS" "stops_after bytes 8 1 HIGH_POSITION_BITS"
    by (simp_all add: stops_after_def)
qed

lemma group_walks_ok:
  assumes "length bytes = 16"
  obtains ex low high where "group_walks target bytes = (ex, low, high)"
    "walks_after bytes 16 ex" "stops_after bytes 0 16 low" "stops_after bytes 8 16 high"
proof -
  define ex0 where "ex0 = lanes_add POSITIONS_PLUS_ONE
     (lanes_and (lanes_eq (lanes_and bytes (splat 0xE0)) (splat OP_PUSH1)) (lanes_sub bytes (splat (OP_PUSH1 - 1))))"
  define nx where "nx = (\<lambda>ex. lanes_max ex (lookup target ex ex))"
  define ns where "ns = (\<lambda>st ex. lanes_or st (lookup target st ex))"
  let ?e1 = "nx ex0" let ?e2 = "nx ?e1" let ?e3 = "nx ?e2" let ?e4 = "nx ?e3"
  let ?l3 = "ns (ns (ns LOW_POSITION_BITS ex0) ?e1) ?e2"
  let ?h4 = "ns (ns (ns (ns HIGH_POSITION_BITS ex0) ?e1) ?e2) ?e3"
  have e0: "walks_after bytes 1 ex0" unfolding ex0_def by (rule group_walks_init [OF assms])
  have e1: "walks_after bytes 2 ?e1" using round_exits [OF e0] by (simp add: nx_def numeral_2_eq_2)
  have e2: "walks_after bytes 4 ?e2" using round_exits [OF e1] by (simp add: nx_def)
  have e3: "walks_after bytes 8 ?e3" using round_exits [OF e2] by (simp add: nx_def)
  have e4: "walks_after bytes 16 ?e4" using round_exits [OF e3] by (simp add: nx_def)
  have step: "stops_after bytes off (m + m) (ns st ex)"
    if "walks_after bytes m ex" "stops_after bytes off m st" "off + 8 \<le> 16" for off m st ex
    using round_stops [OF that] by (simp add: ns_def)
  have two: "1 + 1 = (2 :: nat)" and four: "2 + 2 = (4 :: nat)" and eight: "4 + 4 = (8 :: nat)"
    and sixteen: "8 + 8 = (16 :: nat)" by simp_all
  have l1: "stops_after bytes 0 2 (ns LOW_POSITION_BITS ex0)"
    using step [OF e0 stops_init(1)] unfolding two by simp
  have l2: "stops_after bytes 0 4 (ns (ns LOW_POSITION_BITS ex0) ?e1)"
    using step [OF e1 l1] unfolding four by simp
  have "stops_after bytes 0 8 ?l3"
    using step [OF e2 l2] unfolding eight by simp
  moreover
  have h1: "stops_after bytes 8 2 (ns HIGH_POSITION_BITS ex0)"
    using step [OF e0 stops_init(2)] unfolding two by simp
  have h2: "stops_after bytes 8 4 (ns (ns HIGH_POSITION_BITS ex0) ?e1)"
    using step [OF e1 h1] unfolding four by simp
  have h3: "stops_after bytes 8 8 (ns (ns (ns HIGH_POSITION_BITS ex0) ?e1) ?e2)"
    using step [OF e2 h2] unfolding eight by simp
  have "stops_after bytes 8 16 ?h4"
    using step [OF e3 h3] unfolding sixteen by simp
  moreover have "group_walks target bytes = (?e4, ?l3, ?h4)"
    by (simp add: group_walks_def walk_round_def upt_0_4 Let_def ex0_def nx_def ns_def)
  ultimately show ?thesis using that stops_complete e4 by blast
qed


section \<open>Walks in a window\<close>

text \<open>
  A walk \<open>f\<close> over the offsets below \<open>L\<close> of a window at \<open>o\<close>, stopping once it is outside, agrees with the
  walk \<open>F\<close> over everything as long as it is inside.
\<close>

definition window :: "(nat \<Rightarrow> nat) \<Rightarrow> (nat \<Rightarrow> nat) \<Rightarrow> nat \<Rightarrow> nat \<Rightarrow> bool" where
  "window f F base L \<longleftrightarrow>
     (\<forall>p < L. p < f p \<and> F (base + p) = base + f p) \<and> (\<forall>p. L \<le> p \<longrightarrow> f p = p) \<and> (\<forall>x. x \<le> F x)"

lemma funpow_ge: "(\<And>x. x \<le> f x) \<Longrightarrow> x \<le> (f ^^ m) (x :: nat)"
  by (induction m) (auto intro: order_trans)

lemma window_mono:
  assumes "window f F base L" shows "x \<le> f x"
  using assms by (cases "x < L") (auto simp: window_def intro: less_imp_le)

lemma window_agree:
  assumes w: "window f F base L" and "\<And>i. i < j \<Longrightarrow> (f ^^ i) p < L"
  shows "(F ^^ j) (base + p) = base + (f ^^ j) p"
  using assms(2)
proof (induction j)
  case (Suc j)
  then have "(F ^^ j) (base + p) = base + (f ^^ j) p" "(f ^^ j) p < L" by simp_all
  with w show ?case by (simp add: window_def)
qed simp

lemma window_mono_pow: "window f F base L \<Longrightarrow> i \<le> j \<Longrightarrow> (f ^^ i) p \<le> (f ^^ j) p"
proof -
  assume w: "window f F base L" and "i \<le> j"
  then obtain k where "j = k + i" by (metis add.commute le_Suc_ex)
  then show ?thesis using funpow_ge [of f "(f ^^ i) p" k] window_mono [OF w] by (simp add: funpow_add)
qed

lemma window_visits:
  assumes w: "window f F base L" and q: "q < L"
  shows "(\<exists>n. (F ^^ n) (base + p) = base + q) \<longleftrightarrow> (\<exists>n. (f ^^ n) p = q)"
proof
  assume "\<exists>n. (f ^^ n) p = q"
  then obtain n where n: "(f ^^ n) p = q" by blast
  have "(f ^^ i) p < L" if "i < n" for i
    using window_mono_pow [OF w, of i n p] that n q by simp
  then have "(F ^^ n) (base + p) = base + q" using window_agree [OF w, of n p] n by simp
  then show "\<exists>n. (F ^^ n) (base + p) = base + q" by blast
next
  assume "\<exists>n. (F ^^ n) (base + p) = base + q"
  then obtain n where n: "(F ^^ n) (base + p) = base + q" by blast
  have "(f ^^ i) p < L" if "i < n" for i
  proof (rule ccontr)
    assume "\<not> (f ^^ i) p < L"
    define k where "k = (LEAST k. L \<le> (f ^^ k) p)"
    have k: "L \<le> (f ^^ k) p" "k \<le> i" and below: "\<And>m. m < k \<Longrightarrow> (f ^^ m) p < L"
      using \<open>\<not> (f ^^ i) p < L\<close> unfolding k_def
      by (auto intro: LeastI Least_le dest: not_less_Least simp: not_less)
    have "(F ^^ k) (base + p) = base + (f ^^ k) p" using below by (rule window_agree [OF w])
    moreover have "(F ^^ k) (base + p) \<le> (F ^^ (n - k + k)) (base + p)"
      unfolding funpow_add comp_apply using w by (intro funpow_ge) (simp add: window_def)
    ultimately show False using n k q that by simp
  qed
  then have "(F ^^ n) (base + p) = base + (f ^^ n) p" by (rule window_agree [OF w])
  with n have "(f ^^ n) p = q" by simp
  then show "\<exists>n. (f ^^ n) p = q" by blast
qed

lemma window_exit:
  assumes w: "window f F base L" and N: "L \<le> (f ^^ N) p"
  obtains n where "(F ^^ n) (base + p) = base + (f ^^ N) p"
    "\<And>m. base + L \<le> (F ^^ m) (base + p) \<Longrightarrow> base + (f ^^ N) p \<le> (F ^^ m) (base + p)"
proof -
  define k where "k = (LEAST k. L \<le> (f ^^ k) p)"
  have k: "L \<le> (f ^^ k) p" "k \<le> N" and below: "\<And>m. m < k \<Longrightarrow> (f ^^ m) p < L"
    using N unfolding k_def by (auto intro: LeastI Least_le dest: not_less_Least simp: not_less)
  have "(f ^^ m) x = x" if "L \<le> x" for m x using w that by (induction m) (simp_all add: window_def)
  then have "(f ^^ (N - k + k)) p = (f ^^ k) p" using k unfolding funpow_add comp_apply by simp
  then have Nk: "(f ^^ N) p = (f ^^ k) p" using k by simp
  with window_agree [OF w below] have Fk: "(F ^^ k) (base + p) = base + (f ^^ N) p" by simp
  moreover have "base + (f ^^ N) p \<le> (F ^^ m) (base + p)" if "base + L \<le> (F ^^ m) (base + p)" for m
  proof (cases "m < k")
    case True
    then have "(F ^^ m) (base + p) = base + (f ^^ m) p" by (intro window_agree [OF w] below) simp
    with below [OF True] that show ?thesis by simp
  next
    case False
    have "(F ^^ k) (base + p) \<le> (F ^^ (m - k + k)) (base + p)"
      unfolding funpow_add comp_apply using w by (intro funpow_ge) (simp add: window_def)
    with False Fk show ?thesis by simp
  qed
  ultimately show thesis by (rule that)
qed

definition block_step :: "bytes \<Rightarrow> nat \<Rightarrow> nat" where
  "block_step block p = (if p < 64 then p + 1 + immediates_of (block ! p) else p)"

lemma block_group_nth: "length block = 64 \<Longrightarrow> g < 4 \<Longrightarrow> p < 16 \<Longrightarrow> block_group block g ! p = block ! (16 * g + p)"
  by (simp add: block_group_def GROUP_def slice_range_def)

lemma length_block_group: "length block = 64 \<Longrightarrow> g < 4 \<Longrightarrow> length (block_group block g) = 16"
  by (simp add: block_group_def GROUP_def slice_range_def)

lemma group_window:
  "length block = 64 \<Longrightarrow> g < 4 \<Longrightarrow> window (group_step (block_group block g)) (block_step block) (16 * g) 16"
  by (auto simp: window_def group_step_def block_step_def block_group_nth)

lemma block_window:
  assumes "\<And>q. q < 64 \<Longrightarrow> block ! q = byte_at code (base + q)"
  shows "window (block_step block) (nxt code) base 64"
  using assms nxt_gt [of _ code] by (auto simp: window_def block_step_def nxt_def less_imp_le)


section \<open>Lane masks as bits\<close>

definition lane_mask :: "bool \<Rightarrow> byte" where
  "lane_mask b = (if b then 0xFF else 0x00)"

lemma pairwise_append: "even (length a) \<Longrightarrow> pairwise (a @ b) = pairwise a @ pairwise b"
  by (induction a rule: pairwise.induct) auto

lemma length_pairwise: "length (pairwise a) = length a div 2"
  by (induction a rule: pairwise.induct) auto

definition pos8 :: bytes where
  "pos8 = [1, 2, 4, 8, 16, 32, 64, 128]"

lemma pairwise_octet:
  assumes "length bs = 8"
  shows "pairwise (pairwise (pairwise (map2 (AND) (map lane_mask bs) pos8))) = [horner_sum of_bool 2 bs]"
proof -
  obtain b0 b1 b2 b3 b4 b5 b6 b7 where bs: "bs = [b0, b1, b2, b3, b4, b5, b6, b7]"
    using assms by (auto simp: length_Suc_conv eval_nat_numeral)
  have "(0xFF :: byte) AND n = n" for n
  proof -
    have "(0xFF :: byte) = - 1" by simp
    then show ?thesis by (metis and.left_neutral)
  qed
  then have "lane_mask b AND n = of_bool b * n" for b and n :: byte by (simp add: lane_mask_def)
  then show ?thesis unfolding bs pos8_def by (simp add: algebra_simps)
qed

lemma byte_bits_horner: "length bs = 8 \<Longrightarrow> byte_bits (horner_sum of_bool 2 bs) = bs"
  by (rule nth_equalityI) (auto simp: byte_bits_def bit_horner_sum_bit_word_iff)

lemma lanes_sum:
  "length bs = 8 * n \<Longrightarrow>
   concat (map byte_bits (pairwise (pairwise (pairwise (map2 (AND) (map lane_mask bs) (concat (replicate n pos8))))))) = bs"
proof (induction n arbitrary: bs)
  case (Suc n)
  define c r where "c = take 8 bs" and "r = drop 8 bs"
  have cr: "bs = c @ r" "length c = 8" "length r = 8 * n" using Suc.prems by (simp_all add: c_def r_def)
  have pos: "length pos8 = 8" by (simp add: pos8_def)
  have "map2 (AND) (map lane_mask bs) (concat (replicate (Suc n) pos8)) =
      map2 (AND) (map lane_mask c) pos8 @ map2 (AND) (map lane_mask r) (concat (replicate n pos8))"
    using cr pos by simp
  then show ?case
    using Suc.IH [OF cr(3)] pairwise_octet [OF cr(2)] byte_bits_horner [OF cr(2)] cr pos
    by (simp add: pairwise_append length_pairwise)
qed simp

lemma bit_mask_7: "bit (lane_mask b) 7 = b"
  by (cases b) (simp_all add: lane_mask_def)

lemma lanes_bits_ok:
  assumes len: "length b0 = 16" "length b1 = 16" "length b2 = 16" "length b3 = 16"
  shows "bit (lanes_bits target (map (map lane_mask) [b0, b1, b2, b3])) k \<longleftrightarrow> k < 64 \<and> (b0 @ b1 @ b2 @ b3) ! k"
proof (cases target)
  case AArch64
  let ?v = "map2 (AND) (map lane_mask (b0 @ b1 @ b2 @ b3)) (concat (replicate 8 pos8))"
  have pos: "position_bits = pos8 @ pos8" by (simp add: position_bits_def pos8_def)
  have "concat (replicate 8 pos8) = position_bits @ position_bits @ position_bits @ position_bits"
    unfolding pos by (simp add: numeral_eq_Suc)
  moreover have "length position_bits = 16" by (simp add: position_bits_def)
  ultimately have "?v = lanes_and (map lane_mask b0) position_bits @ lanes_and (map lane_mask b1) position_bits @
      lanes_and (map lane_mask b2) position_bits @ lanes_and (map lane_mask b3) position_bits"
    using len unfolding lanes_and_def by simp
  moreover have "length (lanes_and (map lane_mask b) position_bits) = 16" if "length b = 16" for b
    using that by (simp add: lanes_and_def position_bits_def)
  ultimately have "lanes_bits target (map (map lane_mask) [b0, b1, b2, b3]) =
      u64_of_le_bytes (pairwise (pairwise (pairwise ?v)))"
    using len AArch64 by (simp add: lanes_bits_def vpaddq_u8_def pairwise_append length_pairwise Let_def)
  then have "lanes_bits target (map (map lane_mask) [b0, b1, b2, b3]) = horner_sum of_bool 2 (b0 @ b1 @ b2 @ b3)"
    using lanes_sum [of "b0 @ b1 @ b2 @ b3" 8] len by (simp only: u64_of_le_bytes_def) simp
  then show ?thesis using len by (simp add: bit_horner_sum_bit_word_iff)
next
  case X86_64
  define w where "w = (\<lambda>b. ucast (movemask_epi8 (map lane_mask b) :: 16 word) :: 64 word)"
  have w: "bit (w b) j \<longleftrightarrow> j < 16 \<and> b ! j" if "length b = 16" for b j
    using that by (auto simp: w_def bit_ucast_iff movemask_epi8_def bit_horner_sum_bit_word_iff bit_mask_7)
  have "lanes_bits target (map (map lane_mask) [b0, b1, b2, b3]) =
      w b0 OR push_bit 16 (w b1) OR push_bit 32 (w b2) OR push_bit 48 (w b3)"
    using X86_64 by (simp add: lanes_bits_def upt_0_4 w_def or.assoc)
  then show ?thesis using w len
    by (auto simp: bit_or_iff bit_push_bit_iff nth_append)
qed

section \<open>The tables of a block\<close>

definition walk_stops :: "Walks \<Rightarrow> nat \<Rightarrow> 64 word" where
  "walk_stops walks i = ucast (low_stops walks ! i) OR push_bit 8 (ucast (high_stops walks ! i))"

definition walks_wf :: "Walks \<Rightarrow> bool" where
  "walks_wf walks \<longleftrightarrow>
     length (exits walks) = 128 \<and> length (low_stops walks) = 128 \<and> length (high_stops walks) = 128 \<and>
     (\<forall>i. 64 \<le> i \<longrightarrow> i < 128 \<longrightarrow> unat (exits walks ! i) = i \<and> walk_stops walks i = 0)"

definition group_stored :: "bytes \<Rightarrow> nat \<Rightarrow> Walks \<Rightarrow> bool" where
  "group_stored block g walks \<longleftrightarrow>
     (\<forall>p < 16. unat (exits walks ! (16 * g + p)) = 16 * g + (group_step (block_group block g) ^^ 16) p \<and>
        (\<forall>q. bit (walk_stops walks (16 * g + p)) q \<longleftrightarrow>
             q < 16 \<and> (\<exists>j < 16. (group_step (block_group block g) ^^ j) p = q)))"

lemma store_group_nth:
  "length table = 128 \<Longrightarrow> length lanes = 16 \<Longrightarrow> g < 4 \<Longrightarrow> i < 128 \<Longrightarrow>
   store_group g lanes table ! i = (if 16 * g \<le> i \<and> i < 16 * g + 16 then lanes ! (i - 16 * g) else table ! i)"
  by (auto simp: store_group_def nth_append min_def)

lemma length_store_group:
  "length table = 128 \<Longrightarrow> length lanes = 16 \<Longrightarrow> g < 4 \<Longrightarrow> length (store_group g lanes table) = 128"
  by (auto simp: store_group_def)

lemma bit_stops_join:
  assumes "\<And>q. bit (low :: byte) q \<longleftrightarrow> q < 8 \<and> P q" "\<And>q. bit (high :: byte) q \<longleftrightarrow> q < 8 \<and> P (q + 8)"
  shows "bit (ucast low OR push_bit 8 (ucast high) :: 64 word) q \<longleftrightarrow> q < 16 \<and> P q"
proof (cases "q < 8")
  case True
  then show ?thesis by (simp add: bit_or_iff bit_push_bit_iff bit_ucast_iff assms)
next
  case False
  then obtain r where r: "q = r + 8" by (metis add.commute le_Suc_ex not_less)
  show ?thesis unfolding r by (auto simp add: bit_or_iff bit_push_bit_iff bit_ucast_iff assms)
qed

lemma store_walks_ok:
  assumes len: "length block = 64" and g: "g < 4" and wf: "walks_wf walks"
  shows "walks_wf (store_walks target block g walks)"
    "group_stored block g (store_walks target block g walks)"
    "h < 4 \<Longrightarrow> h \<noteq> g \<Longrightarrow> group_stored block h (store_walks target block g walks) = group_stored block h walks"
proof -
  define bs where "bs = block_group block g"
  obtain ex low high where gw: "group_walks target bs = (ex, low, high)"
    and ex: "walks_after bs 16 ex" and low: "stops_after bs 0 16 low" and high: "stops_after bs 8 16 high"
    by (rule group_walks_ok [of bs target]) (simp_all add: bs_def length_block_group len g)
  define ex' where "ex' = lanes_add ex (splat (word_of_nat (g * GROUP)))"
  let ?w = "store_walks target block g walks"
  have w: "?w = \<lparr> exits = store_group g ex' (exits walks), low_stops = store_group g low (low_stops walks),
      high_stops = store_group g high (high_stops walks) \<rparr>"
    using gw by (simp add: store_walks_def bs_def ex'_def)
  have lens: "length ex' = 16" "length low = 16" "length high = 16"
    "length (exits walks) = 128" "length (low_stops walks) = 128" "length (high_stops walks) = 128"
    using ex low high wf by (simp_all add: ex'_def lanes_add_def splat_def walks_after_def stops_after_def walks_wf_def)
  have ex': "unat (ex' ! p) = 16 * g + (group_step bs ^^ 16) p" if "p < 16" for p
  proof -
    have "(group_step bs ^^ 16) p \<le> 48" using that by (intro group_step_bound) simp
    moreover have "ex' ! p = ex ! p + word_of_nat (16 * g)"
      using that ex by (simp add: ex'_def lanes_add_def splat_def walks_after_def GROUP_def mult.commute)
    ultimately show ?thesis using that ex g by (simp add: unat_word_ariths unat_of_nat walks_after_def)
  qed
  have old: "exits ?w ! i = exits walks ! i" "walk_stops ?w i = walk_stops walks i"
    if "i < 128" "\<not> (16 * g \<le> i \<and> i < 16 * g + 16)" for i
    using that g lens by (auto simp: w walk_stops_def store_group_nth)
  show "walks_wf ?w"
    using wf g lens old unfolding walks_wf_def
    by (auto simp: w length_store_group)
  show "group_stored block g ?w"
    unfolding group_stored_def bs_def [symmetric]
  proof (intro allI impI conjI)
    fix p :: nat assume p: "p < 16"
    show "unat (exits ?w ! (16 * g + p)) = 16 * g + (group_step bs ^^ 16) p"
      using p g lens ex' by (simp add: w store_group_nth)
    have "walk_stops ?w (16 * g + p) = ucast (low ! p) OR push_bit 8 (ucast (high ! p))"
      using p g lens by (simp add: w walk_stops_def store_group_nth)
    then show "bit (walk_stops ?w (16 * g + p)) q \<longleftrightarrow> q < 16 \<and> (\<exists>j < 16. (group_step bs ^^ j) p = q)" for q
      using low high p by (simp add: stops_after_def bit_stops_join)
  qed
  show "group_stored block h ?w = group_stored block h walks" if "h < 4" "h \<noteq> g"
  proof -
    have "\<not> (16 * g \<le> 16 * h + p \<and> 16 * h + p < 16 * g + 16) \<and> 16 * h + p < 128" if "p < 16" for p
      using that \<open>h \<noteq> g\<close> \<open>h < 4\<close> by auto
    then show ?thesis unfolding group_stored_def using old by simp
  qed
qed

lemma stored_walks:
  assumes "length block = 64" "walks_wf walks"
  assumes w_def: "w = fold (store_walks target block) [0..<4] walks"
  shows "walks_wf w" "g < 4 \<Longrightarrow> group_stored block g w"
proof -
  let ?s = "store_walks target block"
  have w: "w = ?s 3 (?s 2 (?s 1 (?s 0 walks)))" by (simp add: w_def upt_0_4)
  note ok = store_walks_ok [OF assms(1)]
  have wf: "walks_wf (?s 0 walks)" "walks_wf (?s 1 (?s 0 walks))" "walks_wf (?s 2 (?s 1 (?s 0 walks)))" "walks_wf w"
    unfolding w by (simp_all add: ok(1) assms)
  then show "walks_wf w" by simp
  assume "g < 4"
  then consider "g = 0" | "g = 1" | "g = 2" | "g = 3" by linarith
  then show "group_stored block g w"
    unfolding w using wf assms(2) by cases (simp_all add: ok)
qed

section \<open>Following a walk through a block\<close>

definition picked :: "bytes \<Rightarrow> nat \<Rightarrow> nat \<times> 64 word \<Rightarrow> bool" where
  "picked block carry = (\<lambda>(at, opcodes).
     at \<le> 96 \<and> (\<exists>n. (block_step block ^^ n) carry = at) \<and>
     (\<forall>q. bit opcodes q \<longleftrightarrow> q < 64 \<and> q < at \<and> (\<exists>n. (block_step block ^^ n) carry = q)))"

lemma block_step_ge: "p \<le> block_step block p"
  by (simp add: block_step_def)

lemma block_later:
  assumes "(block_step block ^^ n) carry = at" "at \<le> q" "at < 64"
  shows "(\<exists>n. (block_step block ^^ n) carry = q) \<longleftrightarrow> (\<exists>n. (block_step block ^^ n) at = q)"
proof
  assume "\<exists>n. (block_step block ^^ n) carry = q"
  then obtain m where m: "(block_step block ^^ m) carry = q" by blast
  show "\<exists>n. (block_step block ^^ n) at = q"
  proof (cases "n \<le> m")
    case True
    then have "(block_step block ^^ (m - n + n)) carry = q" using m by simp
    then show ?thesis unfolding funpow_add comp_apply assms(1) by blast
  next
    case False
    then have "(block_step block ^^ (n - m + m)) carry = at" using assms(1) by simp
    then have "q \<le> at" unfolding funpow_add comp_apply m
      using funpow_ge [of "block_step block" q "n - m"] block_step_ge by simp
    then have "(block_step block ^^ 0) at = q" using assms(2) by simp
    then show ?thesis by blast
  qed
next
  assume "\<exists>n. (block_step block ^^ n) at = q"
  then obtain k where "(block_step block ^^ (k + n)) carry = q" using assms(1) by (auto simp: funpow_add)
  then show "\<exists>n. (block_step block ^^ n) carry = q" by blast
qed

lemma group_start: "i < 64 \<Longrightarrow> i AND (BLOCK - GROUP) = 16 * (i div 16)"
proof (rule bit_eqI)
  fix k assume i: "i < 64"
  have "bit i k \<Longrightarrow> k < 6"
  proof (rule ccontr)
    assume b: "bit i k" and "\<not> k < 6"
    then have "(2 :: nat) ^ 6 \<le> 2 ^ k" by (intro power_increasing) simp_all
    with i have "i div 2 ^ k = 0" by simp
    with b show False by (simp add: bit_iff_odd)
  qed
  moreover have "BLOCK - GROUP = push_bit 4 (mask 2)" by (simp add: BLOCK_def GROUP_def push_bit_eq_mult mask_eq_exp_minus_1)
  moreover have "16 * (i div 16) = push_bit 4 (drop_bit 4 i)" by (simp add: push_bit_eq_mult drop_bit_eq_div)
  ultimately show "bit (i AND (BLOCK - GROUP)) k = bit (16 * (i div 16)) k"
    by (auto simp: bit_and_iff bit_push_bit_iff bit_drop_bit_eq bit_mask_iff)
qed

lemma group_exit:
  assumes "p < 16" shows "16 \<le> (group_step bs ^^ 16) p"
proof -
  have "p + (16 - p) \<le> (group_step bs ^^ (16 - p)) p" using assms by (intro group_step_progress) simp
  also have "\<dots> \<le> (group_step bs ^^ 16) p" by (rule funpow_step_mono) simp
  finally show ?thesis using assms by simp
qed

lemma group_visits:
  assumes "p < 16" "q < 16"
  shows "(\<exists>n. (group_step bs ^^ n) p = q) \<longleftrightarrow> (\<exists>j < 16. (group_step bs ^^ j) p = q)"
proof -
  have "n < 16" if "(group_step bs ^^ n) p = q" for n
    using group_exit [OF assms(1), of bs] funpow_step_mono [of 16 n bs p] that assms(2) by (cases "n < 16") simp_all
  then show ?thesis by blast
qed

lemma picked_extend:
  assumes len: "length block = 64" and gp: "g < 4" "p < 16" "at = 16 * g + p"
    and pk: "picked block carry (at, opcodes)"
    and st: "\<And>q. bit stops q \<longleftrightarrow> q < 16 \<and> (\<exists>j < 16. (group_step (block_group block g) ^^ j) p = q)"
  shows "picked block carry (16 * g + (group_step (block_group block g) ^^ 16) p, opcodes OR push_bit (16 * g) stops)"
    (is "picked block carry (?at, ?op)")
proof -
  let ?gs = "group_step (block_group block g)"
  note win = group_window [OF len gp(1)]
  have ex: "16 \<le> (?gs ^^ 16) p" "(?gs ^^ 16) p \<le> 48" using gp by (simp_all add: group_exit group_step_bound)
  obtain n where n: "(block_step block ^^ n) carry = at" using pk by (auto simp: picked_def)
  obtain m where m: "(block_step block ^^ m) at = ?at"
    and first: "\<And>m. 16 * g + 16 \<le> (block_step block ^^ m) at \<Longrightarrow> ?at \<le> (block_step block ^^ m) at"
    using window_exit [OF win ex(1)] gp(3) by metis
  have at': "(block_step block ^^ (m + n)) carry = ?at" using n m by (simp add: funpow_add)
  have inside: "(\<exists>n. (block_step block ^^ n) at = 16 * g + q) \<longleftrightarrow> (\<exists>j < 16. (?gs ^^ j) p = q)" if "q < 16" for q
    using window_visits [OF win that] group_visits [OF gp(2) that] gp(3) by simp
  have bits: "bit (push_bit (16 * g) stops) q \<longleftrightarrow>
      16 * g \<le> q \<and> q < 64 \<and> q - 16 * g < 16 \<and> (\<exists>j < 16. (?gs ^^ j) p = q - 16 * g)" for q
    unfolding bit_push_bit_iff st by simp
  have push: "bit (push_bit (16 * g) stops) q \<longleftrightarrow> q < 64 \<and> at \<le> q \<and> q < ?at \<and> (\<exists>n. (block_step block ^^ n) at = q)" for q
  proof (cases "16 * g \<le> q \<and> q < 16 * g + 16")
    case True
    then obtain r where r: "q = 16 * g + r" "r < 16" by (metis add_less_cancel_left le_iff_add)
    have "at \<le> (block_step block ^^ n) at" for n by (rule funpow_ge) (rule block_step_ge)
    then have "(\<exists>n. (block_step block ^^ n) at = q) \<Longrightarrow> at \<le> q" by blast
    moreover have "q < 64" "q < ?at" using r ex gp(1) by simp_all
    moreover have "16 * g \<le> q" "q - 16 * g = r" using r by simp_all
    ultimately show ?thesis unfolding bits using r inside [OF r(2)] by metis
  next
    case False
    then have "at \<le> q \<Longrightarrow> 16 * g + 16 \<le> q" using gp(3) by linarith
    then have "\<not> (at \<le> q \<and> q < ?at \<and> (\<exists>n. (block_step block ^^ n) at = q))"
      using first unfolding not_le [symmetric] by blast
    moreover have "\<not> (16 * g \<le> q \<and> q - 16 * g < 16)" using False by linarith
    ultimately show ?thesis unfolding bits by blast
  qed
  have "bit ?op q \<longleftrightarrow> q < 64 \<and> q < ?at \<and> (\<exists>n. (block_step block ^^ n) carry = q)" for q
  proof (cases "q < at")
    case True
    moreover have "q < ?at" using True ex gp by simp
    moreover have "bit opcodes q \<longleftrightarrow> q < 64 \<and> q < at \<and> (\<exists>n. (block_step block ^^ n) carry = q)"
      using pk by (simp add: picked_def)
    moreover have "\<not> at \<le> q" using True by simp
    ultimately show ?thesis unfolding bit_or_iff push by blast
  next
    case False
    then have "(\<exists>n. (block_step block ^^ n) carry = q) \<longleftrightarrow> (\<exists>n. (block_step block ^^ n) at = q)"
      using block_later [OF n] gp by simp
    with pk push [of q] False show ?thesis by (simp add: picked_def bit_or_iff)
  qed
  then show ?thesis using at' ex gp by (auto simp: picked_def)
qed

lemma pick_walk_ok:
  assumes len: "length block = 64" and wf: "walks_wf walks" and st: "\<And>g. g < 4 \<Longrightarrow> group_stored block g walks"
    and pk: "picked block carry (at, opcodes)" and k: "16 * k \<le> at" "k < 4"
  obtains at' opcodes' where "pick_walk walks (at, opcodes) = (at', opcodes')"
    "picked block carry (at', opcodes')" "16 * Suc k \<le> at'"
proof (cases "at < 64")
  case False
  with wf pk have "unat (exits walks ! at) = at" "walk_stops walks at = 0" "at mod 128 = at"
    by (simp_all add: walks_wf_def picked_def)
  then have "pick_walk walks (at, opcodes) = (at, opcodes)"
    by (simp add: pick_walk_def Let_def BLOCK_def walk_stops_def [symmetric])
  with that pk k False show thesis by simp
next
  case True
  define g p where "g = at div 16" and "p = at mod 16"
  have gp: "g < 4" "p < 16" "at = 16 * g + p" "k \<le> g" using True k by (simp_all add: g_def p_def)
  let ?gs = "group_step (block_group block g)"
  have stored: "unat (exits walks ! at) = 16 * g + (?gs ^^ 16) p"
    "bit (walk_stops walks at) q \<longleftrightarrow> q < 16 \<and> (\<exists>j < 16. (?gs ^^ j) p = q)" for q
    using st [OF gp(1)] gp unfolding group_stored_def by simp_all
  have "pick_walk walks (at, opcodes) = (16 * g + (?gs ^^ 16) p, opcodes OR push_bit (16 * g) (walk_stops walks at))"
    using True stored(1) group_start [OF True]
    by (simp add: pick_walk_def Let_def BLOCK_def g_def walk_stops_def)
  moreover have "16 * Suc k \<le> 16 * g + (?gs ^^ 16) p" using group_exit [OF gp(2), of "block_group block g"] mult_le_mono2 [OF gp(4), of 16]
    by (simp del: One_nat_def funpow.simps)
  ultimately show thesis using that picked_extend [OF len gp(1-3) pk stored(2)] by blast
qed

section \<open>A block\<close>

lemma block_groups:
  assumes "length block = 64"
  shows "block_group block 0 @ block_group block 1 @ block_group block 2 @ block_group block 3 = block"
proof -
  have "take 16 block @ take 16 (drop 16 block) @ take 16 (drop 32 block) @ take 16 (drop 48 block) = block"
    using assms append_take_drop_id [of 16 block] append_take_drop_id [of 16 "drop 16 block"]
      append_take_drop_id [of 16 "drop 32 block"] by simp
  then show ?thesis by (simp add: block_group_def GROUP_def slice_range_def)
qed

lemma block_mask:
  assumes "length block = 64"
  shows "bit (lanes_bits target (map (\<lambda>bytes. lanes_eq bytes (splat OP_JUMPDEST)) (map (block_group block) [0..<4]))) q
    \<longleftrightarrow> q < 64 \<and> block ! q = OP_JUMPDEST"
proof -
  let ?m = "\<lambda>g. map (\<lambda>b. b = OP_JUMPDEST) (block_group block g)"
  have "lanes_eq (block_group block g) (splat OP_JUMPDEST) = map lane_mask (?m g)" if "g < 4" for g
    using length_block_group [OF assms that]
    by (auto intro!: nth_equalityI simp: lanes_eq_def splat_def lane_mask_def)
  then have "map (\<lambda>bytes. lanes_eq bytes (splat OP_JUMPDEST)) (map (block_group block) [0..<4]) =
      map (map lane_mask) [?m 0, ?m 1, ?m 2, ?m 3]"
    by (simp add: upt_0_4)
  moreover have "(?m 0 @ ?m 1 @ ?m 2 @ ?m 3) ! q = (block ! q = OP_JUMPDEST)" if "q < 64"
    using block_groups [OF assms] that assms unfolding map_append [symmetric] by simp
  ultimately show ?thesis
    using lanes_bits_ok [of "?m 0" "?m 1" "?m 2" "?m 3"] length_block_group [OF assms] by auto
qed

lemma block_jumpdests_ok:
  assumes len: "length block = 64" and wf: "walks_wf walks" and carry: "carry \<le> 32"
  obtains valid carry' walks' where "block_jumpdests target block carry walks = (valid, carry', walks')"
    "walks_wf walks'" "carry' \<le> 32" "\<exists>n. (block_step block ^^ n) carry = 64 + carry'"
    "\<And>q. bit valid q \<longleftrightarrow> q < 64 \<and> block ! q = OP_JUMPDEST \<and> (\<exists>n. (block_step block ^^ n) carry = q)"
proof -
  define w where "w = fold (store_walks target block) [0..<4] walks"
  note st = stored_walks [OF len wf w_def]
  note pick = pick_walk_ok [OF len st]
  have "carry \<le> (block_step block ^^ n) carry" for n by (rule funpow_ge) (rule block_step_ge)
  then have "\<not> (q < carry \<and> (\<exists>n. (block_step block ^^ n) carry = q))" for q by (metis not_le)
  moreover have "\<exists>n. (block_step block ^^ n) carry = carry" by (rule exI [of _ 0]) simp
  ultimately have p0: "picked block carry (carry, 0)" using carry by (simp add: picked_def)
  obtain a1 o1 where s1: "pick_walk w (carry, 0) = (a1, o1)" and p1: "picked block carry (a1, o1)" and k1: "16 * Suc 0 \<le> a1"
    by (rule pick [OF _ p0, of 0]) auto
  obtain a2 o2 where s2: "pick_walk w (a1, o1) = (a2, o2)" and p2: "picked block carry (a2, o2)" and k2: "16 * Suc (Suc 0) \<le> a2"
    by (rule pick [OF _ p1 k1]) auto
  obtain a3 o3 where s3: "pick_walk w (a2, o2) = (a3, o3)" and p3: "picked block carry (a3, o3)" and k3: "16 * Suc (Suc (Suc 0)) \<le> a3"
    by (rule pick [OF _ p2 k2]) auto
  obtain a4 o4 where s4: "pick_walk w (a3, o3) = (a4, o4)" and p4: "picked block carry (a4, o4)" and k4: "64 \<le> a4"
    by (rule pick [OF _ p3 k3]) auto
  let ?v = "lanes_bits target (map (\<lambda>bytes. lanes_eq bytes (splat OP_JUMPDEST)) (map (block_group block) [0..<4])) AND o4"
  have "block_jumpdests target block carry walks = (?v, a4 - 64, w)"
    unfolding block_jumpdests_def Let_def w_def [symmetric] by (simp add: upt_0_4 s1 s2 s3 s4 BLOCK_def)
  moreover have "bit ?v q \<longleftrightarrow> q < 64 \<and> block ! q = OP_JUMPDEST \<and> (\<exists>n. (block_step block ^^ n) carry = q)" for q
  proof -
    have "bit o4 q \<longleftrightarrow> q < 64 \<and> q < a4 \<and> (\<exists>n. (block_step block ^^ n) carry = q)" using p4 by (simp add: picked_def)
    moreover have "q < 64 \<Longrightarrow> q < a4" using k4 by simp
    ultimately show ?thesis unfolding bit_and_iff block_mask [OF len] by blast
  qed
  moreover have "a4 \<le> 96" "\<exists>n. (block_step block ^^ n) carry = a4" using p4 by (simp_all add: picked_def)
  then have "a4 - 64 \<le> 32" "\<exists>n. (block_step block ^^ n) carry = 64 + (a4 - 64)" using k4 by simp_all
  ultimately show thesis using st(1) by (intro that)
qed

end
