(* ===== verification/Evm_Code_Blocks.thy ===== *)
theory Evm_Code_Blocks imports Evm_Code_Walks begin

text \<open>
  The block-wise jump-destination analysis as a whole: from block to block the carry is the distance to
  the first instruction of the next block, the words of the bitmap are the valid destinations of their
  blocks, and so both analyses compute the specification of \<open>Evm_Code\<close>.
\<close>

unbundle bit_operations_syntax

section \<open>From block to block\<close>

definition block_at :: "bytes \<Rightarrow> nat \<Rightarrow> bytes" where
  "block_at code b = map (\<lambda>q. byte_at code (64 * b + q)) [0..<64]"

definition carry_inv :: "bytes \<Rightarrow> nat \<Rightarrow> nat \<Rightarrow> bool" where
  "carry_inv code b carry \<longleftrightarrow> carry \<le> 32 \<and> 64 * b + carry \<in> starts code \<and>
     (\<forall>s \<in> starts code. 64 * b \<le> s \<longrightarrow> 64 * b + carry \<le> s)"

lemma starts_from:
  assumes "s \<in> starts code" "s \<le> x"
  shows "x \<in> starts code \<longleftrightarrow> (\<exists>n. (nxt code ^^ n) s = x)"
proof -
  obtain m where m: "s = (nxt code ^^ m) 0" using assms(1) by (auto simp: starts_def)
  have ge: "y \<le> (nxt code ^^ n) y" for y n by (rule funpow_ge) (simp add: less_imp_le nxt_gt)
  have mono: "strict_mono (\<lambda>n. (nxt code ^^ n) 0)" by (simp add: strict_mono_Suc_iff nxt_gt)
  show ?thesis
  proof
    assume "x \<in> starts code"
    then obtain k where k: "x = (nxt code ^^ k) 0" by (auto simp: starts_def)
    then have "m \<le> k" using assms(2) m strict_mono_less_eq [OF mono] by simp
    then have "(nxt code ^^ (k - m + m)) 0 = x" using k by simp
    then show "\<exists>n. (nxt code ^^ n) s = x" unfolding funpow_add comp_apply m by blast
  next
    assume "\<exists>n. (nxt code ^^ n) s = x"
    then obtain n where "x = (nxt code ^^ (n + m)) 0" using m by (auto simp: funpow_add)
    then show "x \<in> starts code" unfolding starts_def by (rule range_eqI)
  qed
qed

lemma block_at_window: "window (block_step (block_at code b)) (nxt code) (64 * b) 64"
  by (rule block_window) (simp add: block_at_def)

lemma block_visits:
  assumes "carry_inv code b carry" "q < 64"
  shows "(\<exists>n. (block_step (block_at code b) ^^ n) carry = q) \<longleftrightarrow> 64 * b + q \<in> starts code"
proof -
  have "64 * b + q \<in> starts code \<longleftrightarrow> (\<exists>n. (nxt code ^^ n) (64 * b + carry) = 64 * b + q)"
  proof (cases "carry \<le> q")
    case True
    with assms(1) show ?thesis by (intro starts_from) (simp_all add: carry_inv_def)
  next
    case False
    have "64 * b + carry \<le> (nxt code ^^ n) (64 * b + carry)" for n
      by (rule funpow_ge) (simp add: less_imp_le nxt_gt)
    then have "\<not> (\<exists>n. (nxt code ^^ n) (64 * b + carry) = 64 * b + q)" using False by (metis nat_add_left_cancel_le)
    moreover have "64 * b + q \<notin> starts code" using assms(1) False by (auto simp: carry_inv_def)
    ultimately show ?thesis by simp
  qed
  with window_visits [OF block_at_window assms(2)] show ?thesis by simp
qed

lemma carry_next:
  assumes inv: "carry_inv code b carry" and "carry' \<le> 32"
    and n: "(block_step (block_at code b) ^^ n) carry = 64 + carry'"
  shows "carry_inv code (Suc b) carry'"
proof -
  have "64 \<le> (block_step (block_at code b) ^^ n) carry" using n by simp
  from window_exit [OF block_at_window this] obtain m where
    m: "(nxt code ^^ m) (64 * b + carry) = 64 * b + (64 + carry')"
    and first: "\<And>m. 64 * b + 64 \<le> (nxt code ^^ m) (64 * b + carry) \<Longrightarrow>
      64 * b + (64 + carry') \<le> (nxt code ^^ m) (64 * b + carry)"
    unfolding n by metis
  have start: "64 * b + carry \<in> starts code" using inv by (simp add: carry_inv_def)
  have le: "64 * b + carry \<le> 64 * b + (64 + carry')" using inv by (simp add: carry_inv_def)
  have "64 * b + (64 + carry') \<in> starts code" using starts_from [OF start le] m by blast
  moreover have "64 * b + (64 + carry') \<le> s" if s: "s \<in> starts code" "64 * b + 64 \<le> s" for s
  proof -
    have "64 * b + carry \<le> s" using s inv by (simp add: carry_inv_def)
    then obtain k where "(nxt code ^^ k) (64 * b + carry) = s" using starts_from [OF start] s(1) by blast
    with first [of k] s(2) show ?thesis by simp
  qed
  ultimately show ?thesis using assms(2) by (auto simp: carry_inv_def algebra_simps)
qed

lemma block_at_ok:
  assumes wf: "walks_wf walks" and inv: "carry_inv code b carry"
  obtains valid carry' walks' where "block_jumpdests target (block_at code b) carry walks = (valid, carry', walks')"
    "walks_wf walks'" "carry_inv code (Suc b) carry'"
    "\<And>q. bit valid q \<longleftrightarrow> q < 64 \<and> valid_dest code (64 * b + q)"
proof -
  have len: "length (block_at code b) = 64" and "carry \<le> 32" using inv by (simp_all add: block_at_def carry_inv_def)
  then obtain valid carry' walks' n where
    e: "block_jumpdests target (block_at code b) carry walks = (valid, carry', walks')" "walks_wf walks'"
    and c: "carry' \<le> 32" and n: "(block_step (block_at code b) ^^ n) carry = 64 + carry'"
    and v: "\<And>q. bit valid q \<longleftrightarrow> q < 64 \<and> block_at code b ! q = OP_JUMPDEST \<and>
        (\<exists>n. (block_step (block_at code b) ^^ n) carry = q)"
    using block_jumpdests_ok [OF _ wf, of "block_at code b" carry target] by metis
  have "bit valid q \<longleftrightarrow> q < 64 \<and> valid_dest code (64 * b + q)" for q
  proof (cases "q < 64")
    case True
    then have "block_at code b ! q = byte_at code (64 * b + q)" by (simp add: block_at_def)
    then show ?thesis unfolding v valid_dest_iff using block_visits [OF inv True] True by auto
  qed (simp add: v)
  with e carry_next [OF inv c n] show thesis by (rule that)
qed

section \<open>The bitmap\<close>

lemma bit_u64_byte: "j < 8 \<Longrightarrow> r < 8 \<Longrightarrow> bit (u64_to_le_bytes w ! j) r = bit w (8 * j + r)"
  by (simp add: u64_to_le_bytes_def bit_ucast_iff bit_drop_bit_eq)

lemma length_u64_to_le_bytes [simp]: "length (u64_to_le_bytes w) = 8"
  by (simp add: u64_to_le_bytes_def)

definition blocks_inv :: "bytes \<Rightarrow> nat \<Rightarrow> nat \<times> Walks \<times> 64 word \<times> bytes \<Rightarrow> bool" where
  "blocks_inv code b = (\<lambda>(carry, walks, any, bm).
     walks_wf walks \<and> carry_inv code b carry \<and> length bm = div_ceil (length code) 8 \<and>
     (any \<noteq> 0 \<longleftrightarrow> (\<exists>k < 64 * b. valid_dest code k)) \<and>
     (\<forall>k < 64 * b. bitmap_bit bm k \<longleftrightarrow> valid_dest code k))"

lemma any_or:
  assumes "\<And>q. bit (valid :: 64 word) q \<longleftrightarrow> q < 64 \<and> P (64 * b + q)" and "any \<noteq> 0 \<longleftrightarrow> (\<exists>k < 64 * b. P k)"
  shows "any OR valid \<noteq> 0 \<longleftrightarrow> (\<exists>k < 64 * Suc b. P k)"
proof -
  have "valid \<noteq> 0 \<longleftrightarrow> (\<exists>q < 64. P (64 * b + q))" using assms(1) by (auto simp: bit_eq_iff)
  moreover have "(\<exists>k < 64 * Suc b. P k) \<longleftrightarrow> (\<exists>k < 64 * b. P k) \<or> (\<exists>q < 64. P (64 * b + q))"
  proof
    assume "\<exists>k < 64 * Suc b. P k"
    then obtain k where k: "k < 64 * Suc b" "P k" by blast
    show "(\<exists>k < 64 * b. P k) \<or> (\<exists>q < 64. P (64 * b + q))"
    proof (cases "k < 64 * b")
      case False
      then have "k = 64 * b + (k - 64 * b)" "k - 64 * b < 64" using k by simp_all
      with k(2) show ?thesis by metis
    qed (use k in blast)
  next
    assume "(\<exists>k < 64 * b. P k) \<or> (\<exists>q < 64. P (64 * b + q))"
    then show "\<exists>k < 64 * Suc b. P k"
    proof
      assume "\<exists>k < 64 * b. P k"
      then obtain k where "k < 64 * b" "P k" by blast
      then show ?thesis by (intro exI [of _ k]) simp
    next
      assume "\<exists>q < 64. P (64 * b + q)"
      then obtain q where "q < 64" "P (64 * b + q)" by blast
      then show ?thesis by (intro exI [of _ "64 * b + q"]) simp
    qed
  qed
  ultimately show ?thesis using assms(2) by (simp add: or_eq_0_iff)
qed

lemma put_word_bits:
  assumes v: "\<And>q. bit (valid :: 64 word) q \<longleftrightarrow> q < 64 \<and> P (64 * b + q)"
    and bm: "8 * b + 8 \<le> length bm" "\<And>k. k < 64 * b \<Longrightarrow> bitmap_bit bm k \<longleftrightarrow> P k" and k: "k < 64 * Suc b"
  shows "bitmap_bit (put_word b (u64_to_le_bytes valid) bm) k \<longleftrightarrow> P k"
proof (cases "k < 64 * b")
  case True
  then have "k div 8 < 8 * b" by simp
  with bm(1) bm(2) [OF True] show ?thesis by (simp add: bitmap_bit_def put_word_def nth_append)
next
  case False
  define j where "j = k div 8 - 8 * b"
  have j: "k div 8 = 8 * b + j" "j < 8" "k = 64 * b + (8 * j + k mod 8)" "8 * j + k mod 8 < 64"
  proof -
    have "8 * b \<le> k div 8" "k div 8 < 8 * b + 8" using False k by (simp_all add: less_eq_div_iff_mult_less_eq div_less_iff_less_mult)
    then show "k div 8 = 8 * b + j" "j < 8" by (simp_all add: j_def)
    then show "k = 64 * b + (8 * j + k mod 8)" "8 * j + k mod 8 < 64"
      using div_mult_mod_eq [of k 8] mod_less_divisor [of 8 k] by linarith+
  qed
  have "put_word b (u64_to_le_bytes valid) bm ! (8 * b + j) = u64_to_le_bytes valid ! j"
    using bm(1) j(2) by (simp add: put_word_def nth_append)
  moreover have "8 * b + j < length (put_word b (u64_to_le_bytes valid) bm)"
    using bm(1) j(2) by (simp add: put_word_def)
  ultimately have "bitmap_bit (put_word b (u64_to_le_bytes valid) bm) k \<longleftrightarrow> bit valid (8 * j + k mod 8)"
    using j(2) by (simp add: bitmap_bit_def j(1) bit_u64_byte)
  also have "\<dots> \<longleftrightarrow> P k" using v [of "8 * j + k mod 8"] j(3,4) by simp
  finally show ?thesis .
qed

lemma full_block_at:
  "64 * b + 64 \<le> length code \<Longrightarrow> slice_range (BLOCK * b) (BLOCK * b + BLOCK) code = block_at code b"
  by (rule nth_equalityI) (simp_all add: slice_range_def BLOCK_def block_at_def byte_at_def)

lemma padded_block_at:
  assumes "n = length code div 64"
  shows "drop (BLOCK * n) code @ replicate (BLOCK - length (drop (BLOCK * n) code)) 0 = block_at code n"
proof -
  have "length code - 64 * n < 64" unfolding assms by (simp add: minus_mult_div_eq_mod)
  then show ?thesis
    by (intro nth_equalityI) (auto simp: BLOCK_def block_at_def byte_at_def nth_append)
qed

lemma full_block_ok:
  assumes "64 * b + 64 \<le> length code" and inv: "blocks_inv code b st"
  shows "blocks_inv code (Suc b) (full_block target code b st)"
proof -
  obtain carry walks any bm where st: "st = (carry, walks, any, bm)" by (cases st)
  have wf: "walks_wf walks" "carry_inv code b carry" and bm: "length bm = div_ceil (length code) 8"
    and any: "any \<noteq> 0 \<longleftrightarrow> (\<exists>k < 64 * b. valid_dest code k)"
    and bits: "\<And>k. k < 64 * b \<Longrightarrow> bitmap_bit bm k \<longleftrightarrow> valid_dest code k"
    using inv by (simp_all add: st blocks_inv_def)
  obtain valid carry' walks' where b: "block_jumpdests target (block_at code b) carry walks = (valid, carry', walks')"
    and wf': "walks_wf walks'" "carry_inv code (Suc b) carry'"
    and v: "\<And>q. bit valid q \<longleftrightarrow> q < 64 \<and> valid_dest code (64 * b + q)"
    using block_at_ok [OF wf, of target] by metis
  have len: "8 * b + 8 \<le> length bm"
    using div_less_div_ceil [of "64 * b + 63" "length code" 8] assms(1) by (simp add: bm)
  have "full_block target code b st = (carry', walks', any OR valid, put_word b (u64_to_le_bytes valid) bm)"
    using b full_block_at [OF assms(1)] by (simp add: st full_block_def)
  then show ?thesis
    using wf' bm len any_or [of valid "valid_dest code", OF v any] put_word_bits [of valid "valid_dest code", OF v len bits]
    by (simp add: blocks_inv_def put_word_def)
qed

lemma walks_wf_new: "walks_wf Walks_new"
  by (auto simp: walks_wf_def Walks_new_def walk_stops_def BLOCK_def unat_of_nat)

lemma full_blocks_ok:
  assumes "64 * n \<le> length code"
  shows "blocks_inv code n (fold (full_block target code) [0..<n]
    (0, Walks_new, 0, replicate (div_ceil (length code) 8) 0))"
  using assms
proof (induction n)
  case 0
  show ?case by (simp add: blocks_inv_def walks_wf_new carry_inv_def)
next
  case (Suc n)
  then show ?case by (simp add: full_block_ok)
qed

lemma div_ceil_le: "n \<le> 64 * b \<Longrightarrow> div_ceil n 8 \<le> 8 * b"
proof (cases "n mod 8 = 0")
  case False
  moreover assume "n \<le> 64 * b"
  ultimately have "n div 8 < 8 * b" using div_mult_mod_eq [of n 8] by linarith
  with False show ?thesis by (simp add: div_ceil_def)
qed (simp add: div_ceil_def)

lemma div_ceil_ge: "64 * n \<le> length code \<Longrightarrow> 8 * n \<le> div_ceil (length code) 8"
  unfolding div_ceil_def by (auto simp: less_eq_div_iff_mult_less_eq intro: le_SucI)

lemma bitmap_beyond:
  assumes "length bm = div_ceil (length code) 8" "length code \<le> 64 * b"
    and "\<And>k. k < 64 * b \<Longrightarrow> bitmap_bit bm k \<longleftrightarrow> valid_dest code k"
  shows "bitmap_bit bm k \<longleftrightarrow> valid_dest code k"
proof (cases "k < 64 * b")
  case False
  have "div_ceil (length code) 8 \<le> 8 * b" using assms(2) by (rule div_ceil_le)
  with False assms(1) have "\<not> k div 8 < length bm" by simp
  with False assms(2) show ?thesis by (simp add: bitmap_bit_def valid_dest_def)
qed (rule assms(3))

lemma by_block_jumpdests_ok:
  "\<exists>bm'. by_block_jumpdests target code (replicate (div_ceil (length code) 8) 0) = (\<exists>k. valid_dest code k, bm') \<and>
    length bm' = div_ceil (length code) 8 \<and> (\<forall>k. bitmap_bit bm' k = valid_dest code k)"
proof -
  define n where "n = length code div 64"
  have n: "64 * n \<le> length code" "length code < 64 * n + 64" unfolding n_def by simp_all
  obtain carry walks any bm where st: "fold (full_block target code) [0..<n]
      (0, Walks_new, 0, replicate (div_ceil (length code) 8) 0) = (carry, walks, any, bm)"
    by (metis prod_cases4)
  have wf: "walks_wf walks" "carry_inv code n carry" and len: "length bm = div_ceil (length code) 8"
    and any: "any \<noteq> 0 \<longleftrightarrow> (\<exists>k < 64 * n. valid_dest code k)"
    and bits: "\<And>k. k < 64 * n \<Longrightarrow> bitmap_bit bm k \<longleftrightarrow> valid_dest code k"
    using full_blocks_ok [OF n(1), of target] by (simp_all add: st blocks_inv_def)
  have ex: "(\<exists>k < m. valid_dest code k) \<longleftrightarrow> (\<exists>k. valid_dest code k)" if "length code \<le> m" for m
    using that unfolding valid_dest_def by (meson order.strict_trans2)
  show ?thesis
  proof (cases "drop (64 * n) code = []")
    case True
    then have "length code \<le> 64 * n" by simp
    then show ?thesis using bitmap_beyond [OF len _ bits] ex any len st True
      by (simp add: by_block_jumpdests_def BLOCK_def n_def Let_def)
  next
    case False
    obtain valid carry' walks' where b: "block_jumpdests target (block_at code n) carry walks = (valid, carry', walks')"
      and v: "\<And>q. bit valid q \<longleftrightarrow> q < 64 \<and> valid_dest code (64 * n + q)"
      using block_at_ok [OF wf, of target] by metis
    let ?bm = "take (n * 8) bm @ take (length bm - n * 8) (u64_to_le_bytes valid)"
    have run: "by_block_jumpdests target code (replicate (div_ceil (length code) 8) 0) = (any OR valid \<noteq> 0, ?bm)"
      using False st b padded_block_at [OF n_def]
      by (simp add: by_block_jumpdests_def n_def [symmetric] BLOCK_def Let_def)
    have "any OR valid \<noteq> 0 \<longleftrightarrow> (\<exists>k. valid_dest code k)"
      using any_or [of valid "valid_dest code", OF v any] ex [of "64 * Suc n"] n(2) by simp
    moreover have lens: "8 * n \<le> length bm" "length bm \<le> 8 * n + 8"
      using n div_ceil_le [of "length code" "Suc n"] div_ceil_ge [of n code] unfolding len by simp_all
    then have len': "length ?bm = div_ceil (length code) 8" unfolding len [symmetric] by simp
    moreover have "bitmap_bit ?bm k = valid_dest code k" for k
    proof (rule bitmap_beyond [OF len', of "Suc n"])
      fix k assume k: "k < 64 * Suc n"
      have "?bm = take (length bm) (put_word n (u64_to_le_bytes valid) (bm @ replicate 8 0))"
        using lens by (simp add: put_word_def mult.commute)
      then have "bitmap_bit ?bm k \<longleftrightarrow>
          k div 8 < length bm \<and> bitmap_bit (put_word n (u64_to_le_bytes valid) (bm @ replicate 8 0)) k"
        by (simp only: bitmap_bit_def) auto
      also have "\<dots> \<longleftrightarrow> k div 8 < length bm \<and> valid_dest code k"
      proof -
        have "bitmap_bit (bm @ replicate 8 0) k = valid_dest code k" if "k < 64 * n" for k
          using bits [OF that] that lens(1) by (simp add: bitmap_bit_def nth_append) blast
        then show ?thesis using put_word_bits [of valid "valid_dest code", OF v _ _ k] lens(1) by simp
      qed
      also have "\<dots> \<longleftrightarrow> valid_dest code k" using div_less_div_ceil [of k "length code" 8] by (auto simp: len valid_dest_def)
      finally show "bitmap_bit ?bm k = valid_dest code k" .
    qed (use n in simp)
    ultimately show ?thesis using run by simp
  qed
qed

section \<open>Code objects\<close>

lemma and_push_bit: "(b :: byte) AND push_bit r 1 \<noteq> 0 \<longleftrightarrow> bit b r"
  by (metis bit_iff_and_push_bit_not_eq_0)

lemma compute_jumpdests_ok:
  assumes "length code < 2 ^ 64"
  shows "bitmap_bit (compute_jumpdests target code) i \<longleftrightarrow> valid_dest code i"
proof -
  let ?bm = "replicate (div_ceil (length code) 8) 0"
  let ?run = "case target of Some t \<Rightarrow> by_block_jumpdests t code ?bm | None \<Rightarrow> jumpdests_by_opcode code ?bm"
  obtain bm where "?run = (\<exists>k. valid_dest code k, bm)" "\<forall>k. bitmap_bit bm k = valid_dest code k"
  proof (cases target)
    case None
    then show thesis using jumpdests_by_opcode_ok [OF assms] that by auto
  next
    case (Some t)
    then show thesis using by_block_jumpdests_ok [of t code] that by auto
  qed
  then show ?thesis by (auto simp: compute_jumpdests_def Let_def bitmap_bit_def)
qed

text \<open>
  C8: whichever analysis the target compiles (the scan by opcode, or the walk tables on NEON or SSE
  lanes), the jump destinations of a code object are the \<open>JUMPDEST\<close> bytes at which an instruction
  starts; the object's slice is the code it was made from, and the instruction at every offset of the
  code, its immediates and the offset after it are inside the padded buffer the interpreter reads.
\<close>

theorem code_jump_destinations:
  assumes "length code < 2 ^ 64" and c: "c = from_bytecode_unchecked target code hash"
  shows "(is_valid_jumpdest c i \<longleftrightarrow> i < length code \<and> code ! i = OP_JUMPDEST \<and> i \<in> opcode_starts code) \<and>
    code_slice c = code \<and> code_bytes c = Inr code \<and> code_len c = length code \<and>
    (pc < length code \<longrightarrow>
       dispatch_buf c ! pc = code ! pc \<and> pc + 1 + immediates_of (code ! pc) < length (dispatch_buf c)) \<and>
    (length code \<le> pc \<longrightarrow> pc < length (dispatch_buf c) \<longrightarrow> dispatch_buf c ! pc = 0)"
proof (intro conjI)
  have "is_valid_jumpdest c i = bitmap_bit (compute_jumpdests target code) i"
    by (simp add: c from_bytecode_unchecked_def from_parts_unchecked_def is_valid_jumpdest_def bitmap_bit_def
        and_push_bit del: push_bit_of_1)
  then show "is_valid_jumpdest c i \<longleftrightarrow> i < length code \<and> code ! i = OP_JUMPDEST \<and> i \<in> opcode_starts code"
    using compute_jumpdests_ok [OF assms(1)] by (simp add: valid_dest_def)
qed (use immediates_of_le [of "code ! pc"] in \<open>auto simp: c from_bytecode_unchecked_def from_parts_unchecked_def
    code_slice_def code_bytes_def code_len_def dispatch_buf_def nth_append BYTECODE_PADDING_def\<close>)

theorem code_jump_destinations_witness:
  "is_valid_jumpdest (from_bytecode_unchecked (Some X86_64) [0x60, 0x5B, 0x5B] 0) 2 \<and>
   code_slice (from_bytecode_unchecked (Some X86_64) [0x60, 0x5B, 0x5B] 0) = [0x60, 0x5B, 0x5B]"
proof -
  let ?c = "[0x60, 0x5B, 0x5B] :: bytes"
  have "2 \<in> opcode_starts ?c"
  proof -
    have "immediates_of 0x60 = 1" by (simp add: immediates_of_def)
    then show ?thesis using opcode_starts.step [OF opcode_starts.start, of ?c] by (simp add: numeral_2_eq_2)
  qed
  moreover have "length ?c < 2 ^ 64" by simp
  note code_jump_destinations [OF this refl, of "Some X86_64" 0 2]
  ultimately show ?thesis by (simp add: OP_JUMPDEST_def)
qed

end
