(* ===== verification/Evm_Types.thy ===== *)
theory Evm_Types
  imports Evm_Base "HOL-Library.Finite_Map"
begin

text \<open>
  Data of \<open>src/crates/common/types\<close> that the virtual machine uses: the forks in the order of their
  discriminants (\<open>genesis.rs\<close>) and logs (\<open>receipt.rs\<close>).
\<close>

datatype Fork =
    Frontier | FrontierThawing | Homestead | DaoFork | Tangerine | SpuriousDragon | Byzantium
  | Constantinople | Petersburg | Istanbul | MuirGlacier | Berlin | London | ArrowGlacier | GrayGlacier
  | Paris | Shanghai | Cancun | Prague | Osaka | BPO1 | BPO2 | BPO3 | BPO4 | BPO5 | Amsterdam | Hegota | LStar

primrec fork_number :: "Fork \<Rightarrow> nat" where
  "fork_number Frontier = 0"
| "fork_number FrontierThawing = 1"
| "fork_number Homestead = 2"
| "fork_number DaoFork = 3"
| "fork_number Tangerine = 4"
| "fork_number SpuriousDragon = 5"
| "fork_number Byzantium = 6"
| "fork_number Constantinople = 7"
| "fork_number Petersburg = 8"
| "fork_number Istanbul = 9"
| "fork_number MuirGlacier = 10"
| "fork_number Berlin = 11"
| "fork_number London = 12"
| "fork_number ArrowGlacier = 13"
| "fork_number GrayGlacier = 14"
| "fork_number Paris = 15"
| "fork_number Shanghai = 16"
| "fork_number Cancun = 17"
| "fork_number Prague = 18"
| "fork_number Osaka = 19"
| "fork_number BPO1 = 20"
| "fork_number BPO2 = 21"
| "fork_number BPO3 = 22"
| "fork_number BPO4 = 23"
| "fork_number BPO5 = 24"
| "fork_number Amsterdam = 25"
| "fork_number Hegota = 26"
| "fork_number LStar = 27"

definition forks :: "Fork list" where
  "forks =
     [Frontier, FrontierThawing, Homestead, DaoFork, Tangerine, SpuriousDragon, Byzantium, Constantinople,
      Petersburg, Istanbul, MuirGlacier, Berlin, London, ArrowGlacier, GrayGlacier, Paris, Shanghai, Cancun,
      Prague, Osaka, BPO1, BPO2, BPO3, BPO4, BPO5, Amsterdam, Hegota, LStar]"

lemma forks_nth: "forks ! fork_number a = a"
  unfolding forks_def by (cases a) simp_all

lemma fork_number_inj: "fork_number a = fork_number b \<Longrightarrow> a = b"
  by (metis forks_nth)

text \<open>\<open>#[derive(PartialOrd)]\<close> on a \<open>repr(u8)\<close> enum compares the discriminants.\<close>

instantiation Fork :: linorder
begin

definition less_eq_Fork :: "Fork \<Rightarrow> Fork \<Rightarrow> bool" where
  "less_eq_Fork a b \<longleftrightarrow> fork_number a \<le> fork_number b"

definition less_Fork :: "Fork \<Rightarrow> Fork \<Rightarrow> bool" where
  "less_Fork a b \<longleftrightarrow> fork_number a < fork_number b"

instance
proof
  fix a b c :: Fork
  show "a < b \<longleftrightarrow> a \<le> b \<and> \<not> b \<le> a" by (auto simp: less_eq_Fork_def less_Fork_def)
  show "a \<le> a" by (simp add: less_eq_Fork_def)
  show "a \<le> b \<Longrightarrow> b \<le> c \<Longrightarrow> a \<le> c" by (simp add: less_eq_Fork_def)
  show "a \<le> b \<or> b \<le> a" by (auto simp: less_eq_Fork_def)
  show "a \<le> b \<Longrightarrow> b \<le> a \<Longrightarrow> a = b"
    by (rule fork_number_inj) (simp add: less_eq_Fork_def)
qed

end

definition fork_default :: Fork where
  "fork_default = Cancun"

record Log =
  log_address :: address
  topics :: "h256 list"
  log_data :: bytes

type_synonym access_list = "(address \<times> h256 list) list"

end
