(* ===== verification/Evm_Substate.thy ===== *)
theory Evm_Substate
  imports Evm_Types
begin

text \<open>
  The substate of a transaction, \<open>Substate\<close> of \<open>src/crates/vm/levm/src/vm.rs\<close>: a chain of checkpoints,
  each holding what was added since it was pushed.  A hash set is a set, a hash map a finite map.
\<close>

definition SIZE_PRECOMPILES_PRE_CANCUN :: nat where "SIZE_PRECOMPILES_PRE_CANCUN = 9"
definition SIZE_PRECOMPILES_CANCUN :: nat where "SIZE_PRECOMPILES_CANCUN = 10"
definition SIZE_PRECOMPILES_PRAGUE :: nat where "SIZE_PRECOMPILES_PRAGUE = 17"

text \<open>One checkpoint: the fields of \<open>Substate\<close> but for \<open>parent\<close>.\<close>

record Checkpoint =
  fork :: Fork
  selfdestruct_set :: "address set"
  accessed_addresses :: "address set"
  accessed_storage_slots :: "(address, h256 set) fmap"
  created_accounts :: "address set"
  refunded_gas :: nat
  transient_storage :: "(address \<times> u256, u256) fmap"
  logs :: "Log list"

datatype Substate = Substate (parent: "Substate option") (here: Checkpoint)

definition Checkpoint_default :: Checkpoint where
  "Checkpoint_default = \<lparr> fork = fork_default, selfdestruct_set = {}, accessed_addresses = {},
     accessed_storage_slots = fmempty, created_accounts = {}, refunded_gas = 0, transient_storage = fmempty,
     logs = [] \<rparr>"

definition from_accesses :: "Fork \<Rightarrow> address set \<Rightarrow> (address, h256 set) fmap \<Rightarrow> Substate" where
  "from_accesses f addresses slots =
     Substate None (Checkpoint_default \<lparr> fork := f, accessed_addresses := addresses, accessed_storage_slots := slots \<rparr>)"

definition max_contiguous :: "Fork \<Rightarrow> nat" where
  "max_contiguous f =
     (if f \<ge> Prague then SIZE_PRECOMPILES_PRAGUE
      else if f \<ge> Cancun then SIZE_PRECOMPILES_CANCUN
      else SIZE_PRECOMPILES_PRE_CANCUN)"

text \<open>\<open>address.0[..18]\<close> are the top 144 bits, \<open>n\<close> the last two bytes in big-endian order.\<close>

definition is_warm_precompile :: "Fork \<Rightarrow> address \<Rightarrow> bool" where
  "is_warm_precompile f a =
     (if drop_bit 16 a \<noteq> 0 then False
      else let n = (ucast a :: 16 word)
           in (n \<ge> 1 \<and> unat n \<le> max_contiguous f) \<or> (n = 0x100 \<and> f \<ge> Osaka))"

definition push_backup :: "Substate \<Rightarrow> Substate" where
  "push_backup s =
     Substate (Some s) (Checkpoint_default \<lparr> refunded_gas := refunded_gas (here s), fork := fork (here s) \<rparr>)"

text \<open>\<open>entry(address).or_default().extend(slot_set)\<close> for every entry of \<open>delta\<close>.\<close>

definition extend_slots :: "(address, h256 set) fmap \<Rightarrow> (address, h256 set) fmap \<Rightarrow> (address, h256 set) fmap" where
  "extend_slots slots delta =
     slots ++\<^sub>f fmmap_keys (\<lambda>a slot_set. (case fmlookup slots a of Some old \<Rightarrow> old | None \<Rightarrow> {}) \<union> slot_set) delta"

definition merge_checkpoint :: "Checkpoint \<Rightarrow> Checkpoint \<Rightarrow> Checkpoint" where
  "merge_checkpoint c delta = c \<lparr>
     selfdestruct_set := selfdestruct_set c \<union> selfdestruct_set delta,
     accessed_addresses := accessed_addresses c \<union> accessed_addresses delta,
     accessed_storage_slots := extend_slots (accessed_storage_slots c) (accessed_storage_slots delta),
     created_accounts := created_accounts c \<union> created_accounts delta,
     refunded_gas := refunded_gas delta,
     transient_storage := transient_storage c ++\<^sub>f transient_storage delta,
     logs := logs c @ logs delta \<rparr>"

definition commit_backup :: "Substate \<Rightarrow> Substate" where
  "commit_backup s =
     (case parent s of None \<Rightarrow> s | Some p \<Rightarrow> Substate (parent p) (merge_checkpoint (here p) (here s)))"

definition revert_backup :: "Substate \<Rightarrow> Substate" where
  "revert_backup s = (case parent s of None \<Rightarrow> s | Some p \<Rightarrow> p)"

text \<open>The chain from the current checkpoint up; its iterators visit it in this order.\<close>

fun iter_selfdestruct :: "Substate \<Rightarrow> address set" where
  "iter_selfdestruct (Substate p c) =
     selfdestruct_set c \<union> (case p of None \<Rightarrow> {} | Some s \<Rightarrow> iter_selfdestruct s)"

fun is_selfdestruct :: "Substate \<Rightarrow> address \<Rightarrow> bool" where
  "is_selfdestruct (Substate p c) a \<longleftrightarrow>
     a \<in> selfdestruct_set c \<or> (case p of None \<Rightarrow> False | Some s \<Rightarrow> is_selfdestruct s a)"

definition parent_has :: "(Substate \<Rightarrow> bool) \<Rightarrow> Substate \<Rightarrow> bool" where
  "parent_has f s = (case parent s of None \<Rightarrow> False | Some p \<Rightarrow> f p)"

definition add_selfdestruct :: "address \<Rightarrow> Substate \<Rightarrow> bool \<times> Substate" where
  "add_selfdestruct a s =
     (if a \<in> selfdestruct_set (here s) then (True, s)
      else if parent_has (\<lambda>p. is_selfdestruct p a) s then (True, s)
      else (False, Substate (parent s) ((here s) \<lparr> selfdestruct_set := insert a (selfdestruct_set (here s)) \<rparr>)))"

fun is_slot_accessed :: "Substate \<Rightarrow> address \<Rightarrow> h256 \<Rightarrow> bool" where
  "is_slot_accessed (Substate p c) a key \<longleftrightarrow>
     (case fmlookup (accessed_storage_slots c) a of None \<Rightarrow> False | Some slot_set \<Rightarrow> key \<in> slot_set) \<or>
     (case p of None \<Rightarrow> False | Some s \<Rightarrow> is_slot_accessed s a key)"

definition or_default :: "'b set option \<Rightarrow> 'b set" where
  "or_default x = (case x of None \<Rightarrow> {} | Some v \<Rightarrow> v)"

definition add_accessed_slot :: "address \<Rightarrow> h256 \<Rightarrow> Substate \<Rightarrow> bool \<times> Substate" where
  "add_accessed_slot a key s =
     (let slots = accessed_storage_slots (here s)
      in if (case fmlookup slots a of None \<Rightarrow> False | Some slot_set \<Rightarrow> key \<in> slot_set) then (False, s)
         else if parent_has (\<lambda>p. is_slot_accessed p a key) s then (False, s)
         else (True, Substate (parent s)
                ((here s) \<lparr> accessed_storage_slots := fmupd a (insert key (or_default (fmlookup slots a))) slots \<rparr>)))"

text \<open>A \<open>BTreeMap\<close> of \<open>BTreeSet\<close>s is listed in the order of its keys.\<close>

fun merged_slots :: "Substate \<Rightarrow> (address, h256 set) fmap \<Rightarrow> (address, h256 set) fmap" where
  "merged_slots (Substate p c) entries =
     (let entries = extend_slots entries (accessed_storage_slots c)
      in case p of None \<Rightarrow> entries | Some s \<Rightarrow> merged_slots s entries)"

definition make_access_list :: "Substate \<Rightarrow> access_list" where
  "make_access_list s =
     (let entries = merged_slots s fmempty
      in map (\<lambda>a. (a, sorted_list_of_set (or_default (fmlookup entries a))))
           (sorted_list_of_fset (fmdom entries)))"

fun get_accessed_storage_slots :: "Substate \<Rightarrow> address \<Rightarrow> h256 set" where
  "get_accessed_storage_slots (Substate p c) a =
     or_default (fmlookup (accessed_storage_slots c) a) \<union>
     (case p of None \<Rightarrow> {} | Some s \<Rightarrow> get_accessed_storage_slots s a)"

fun is_address_accessed :: "Substate \<Rightarrow> address \<Rightarrow> bool" where
  "is_address_accessed (Substate p c) a \<longleftrightarrow>
     is_warm_precompile (fork c) a \<or> a \<in> accessed_addresses c \<or>
     (case p of None \<Rightarrow> False | Some s \<Rightarrow> is_address_accessed s a)"

definition add_accessed_address :: "address \<Rightarrow> Substate \<Rightarrow> bool \<times> Substate" where
  "add_accessed_address a s =
     (if is_warm_precompile (fork (here s)) a then (False, s)
      else if a \<in> accessed_addresses (here s) then (False, s)
      else if parent_has (\<lambda>p. is_address_accessed p a) s then (False, s)
      else (True, Substate (parent s) ((here s) \<lparr> accessed_addresses := insert a (accessed_addresses (here s)) \<rparr>)))"

fun is_account_created :: "Substate \<Rightarrow> address \<Rightarrow> bool" where
  "is_account_created (Substate p c) a \<longleftrightarrow>
     a \<in> created_accounts c \<or> (case p of None \<Rightarrow> False | Some s \<Rightarrow> is_account_created s a)"

definition add_created_account :: "address \<Rightarrow> Substate \<Rightarrow> bool \<times> Substate" where
  "add_created_account a s =
     (if a \<in> created_accounts (here s) then (True, s)
      else if parent_has (\<lambda>p. is_account_created p a) s then (True, s)
      else (False, Substate (parent s) ((here s) \<lparr> created_accounts := insert a (created_accounts (here s)) \<rparr>)))"

fun get_transient :: "Substate \<Rightarrow> address \<Rightarrow> u256 \<Rightarrow> u256" where
  "get_transient (Substate p c) to key =
     (case fmlookup (transient_storage c) (to, key) of
        Some v \<Rightarrow> v
      | None \<Rightarrow> (case p of None \<Rightarrow> 0 | Some s \<Rightarrow> get_transient s to key))"

definition set_transient :: "address \<Rightarrow> u256 \<Rightarrow> u256 \<Rightarrow> Substate \<Rightarrow> Substate" where
  "set_transient to key v s =
     Substate (parent s) ((here s) \<lparr> transient_storage := fmupd (to, key) v (transient_storage (here s)) \<rparr>)"

definition clear_transient_storage :: "Substate \<Rightarrow> Substate" where
  "clear_transient_storage s = Substate (parent s) ((here s) \<lparr> transient_storage := fmempty \<rparr>)"

fun extract_logs :: "Substate \<Rightarrow> Log list" where
  "extract_logs (Substate p c) = (case p of None \<Rightarrow> [] | Some s \<Rightarrow> extract_logs s) @ logs c"

definition current_logs :: "Substate \<Rightarrow> Log list" where
  "current_logs s = logs (here s)"

definition logs_len :: "Substate \<Rightarrow> nat" where
  "logs_len s = length (logs (here s))"

definition add_log :: "Log \<Rightarrow> Substate \<Rightarrow> Substate" where
  "add_log l s = Substate (parent s) ((here s) \<lparr> logs := logs (here s) @ [l] \<rparr>)"

text \<open>\<open>refunded_gas\<close> is a public field.\<close>

definition set_refunded_gas :: "nat \<Rightarrow> Substate \<Rightarrow> Substate" where
  "set_refunded_gas g s = Substate (parent s) ((here s) \<lparr> refunded_gas := g \<rparr>)"

text \<open>\<open>Substate::initialize\<close>, on the parts of the environment and the transaction it reads.\<close>

definition warm_access_list :: "access_list \<Rightarrow> address set \<times> (address, h256 set) fmap \<Rightarrow> address set \<times> (address, h256 set) fmap" where
  "warm_access_list al st =
     foldl (\<lambda>(addresses, slots) (a, keys).
       (insert a addresses, fmupd a (or_default (fmlookup slots a) \<union> set keys) slots)) st al"

definition initialize :: "Fork \<Rightarrow> address \<Rightarrow> address \<Rightarrow> access_list \<Rightarrow> Substate" where
  "initialize f origin coinbase al =
     (let addresses = {origin};
          addresses = (if f \<ge> Shanghai then insert coinbase addresses else addresses);
          (addresses, slots) = warm_access_list al (addresses, fmempty)
      in from_accesses f addresses slots)"

section \<open>The specification\<close>

text \<open>What a substate means, without the chain: one flat value per open checkpoint, the current one first.\<close>

record Flat =
  f_fork :: Fork
  f_selfdestructs :: "address set"
  f_warm :: "address set"
  f_slots :: "(address \<times> h256) set"
  f_created :: "address set"
  f_refund :: nat
  f_transient :: "address \<times> u256 \<Rightarrow> u256"
  f_logs :: "Log list"

definition flat_of :: "Substate \<Rightarrow> Flat" where
  "flat_of s = \<lparr> f_fork = fork (here s), f_selfdestructs = Collect (is_selfdestruct s),
     f_warm = Collect (is_address_accessed s), f_slots = {(a, k). is_slot_accessed s a k},
     f_created = Collect (is_account_created s), f_refund = refunded_gas (here s),
     f_transient = (\<lambda>(a, k). get_transient s a k), f_logs = extract_logs s \<rparr>"

fun views :: "Substate \<Rightarrow> Flat list" where
  "views (Substate p c) = flat_of (Substate p c) # (case p of None \<Rightarrow> [] | Some s \<Rightarrow> views s)"

text \<open>The checkpoints of a chain are of one fork.\<close>

fun one_fork :: "Substate \<Rightarrow> bool" where
  "one_fork (Substate p c) \<longleftrightarrow> (case p of None \<Rightarrow> True | Some s \<Rightarrow> fork (here s) = fork c \<and> one_fork s)"

datatype sub_op =
    PushBackup | CommitBackup | RevertBackup
  | AddSelfdestruct address | AddSlot address h256 | AddAddress address | AddCreated address
  | SetTransient address u256 u256 | AddLog Log | SetRefund nat
  | IsSelfdestruct address | IsSlot address h256 | IsAddress address | IsCreated address
  | GetTransient address u256 | GetRefund | ExtractLogs | GetSlots address | IterSelfdestruct

datatype sub_out = Done | Answer bool | Word u256 | Refund nat | Logs "Log list" | Keys "h256 set"
  | Addresses "address set"

fun sub_step :: "sub_op \<Rightarrow> Substate \<Rightarrow> sub_out \<times> Substate" where
  "sub_step PushBackup s = (Done, push_backup s)"
| "sub_step CommitBackup s = (Done, commit_backup s)"
| "sub_step RevertBackup s = (Done, revert_backup s)"
| "sub_step (AddSelfdestruct a) s = (case add_selfdestruct a s of (b, s) \<Rightarrow> (Answer b, s))"
| "sub_step (AddSlot a k) s = (case add_accessed_slot a k s of (b, s) \<Rightarrow> (Answer b, s))"
| "sub_step (AddAddress a) s = (case add_accessed_address a s of (b, s) \<Rightarrow> (Answer b, s))"
| "sub_step (AddCreated a) s = (case add_created_account a s of (b, s) \<Rightarrow> (Answer b, s))"
| "sub_step (SetTransient a k v) s = (Done, set_transient a k v s)"
| "sub_step (AddLog l) s = (Done, add_log l s)"
| "sub_step (SetRefund g) s = (Done, set_refunded_gas g s)"
| "sub_step (IsSelfdestruct a) s = (Answer (is_selfdestruct s a), s)"
| "sub_step (IsSlot a k) s = (Answer (is_slot_accessed s a k), s)"
| "sub_step (IsAddress a) s = (Answer (is_address_accessed s a), s)"
| "sub_step (IsCreated a) s = (Answer (is_account_created s a), s)"
| "sub_step (GetTransient a k) s = (Word (get_transient s a k), s)"
| "sub_step GetRefund s = (Refund (refunded_gas (here s)), s)"
| "sub_step ExtractLogs s = (Logs (extract_logs s), s)"
| "sub_step (GetSlots a) s = (Keys (get_accessed_storage_slots s a), s)"
| "sub_step IterSelfdestruct s = (Addresses (iter_selfdestruct s), s)"

fun flat_step :: "sub_op \<Rightarrow> Flat \<Rightarrow> Flat list \<Rightarrow> sub_out \<times> Flat list" where
  "flat_step PushBackup f fs = (Done, f # f # fs)"
| "flat_step CommitBackup f fs = (Done, f # tl fs)"
| "flat_step RevertBackup f fs = (Done, if fs = [] then [f] else fs)"
| "flat_step (AddSelfdestruct a) f fs =
     (Answer (a \<in> f_selfdestructs f), f \<lparr> f_selfdestructs := insert a (f_selfdestructs f) \<rparr> # fs)"
| "flat_step (AddSlot a k) f fs = (Answer ((a, k) \<notin> f_slots f), f \<lparr> f_slots := insert (a, k) (f_slots f) \<rparr> # fs)"
| "flat_step (AddAddress a) f fs = (Answer (a \<notin> f_warm f), f \<lparr> f_warm := insert a (f_warm f) \<rparr> # fs)"
| "flat_step (AddCreated a) f fs = (Answer (a \<in> f_created f), f \<lparr> f_created := insert a (f_created f) \<rparr> # fs)"
| "flat_step (SetTransient a k v) f fs = (Done, f \<lparr> f_transient := (f_transient f) ((a, k) := v) \<rparr> # fs)"
| "flat_step (AddLog l) f fs = (Done, f \<lparr> f_logs := f_logs f @ [l] \<rparr> # fs)"
| "flat_step (SetRefund g) f fs = (Done, f \<lparr> f_refund := g \<rparr> # fs)"
| "flat_step (IsSelfdestruct a) f fs = (Answer (a \<in> f_selfdestructs f), f # fs)"
| "flat_step (IsSlot a k) f fs = (Answer ((a, k) \<in> f_slots f), f # fs)"
| "flat_step (IsAddress a) f fs = (Answer (a \<in> f_warm f), f # fs)"
| "flat_step (IsCreated a) f fs = (Answer (a \<in> f_created f), f # fs)"
| "flat_step (GetTransient a k) f fs = (Word (f_transient f (a, k)), f # fs)"
| "flat_step GetRefund f fs = (Refund (f_refund f), f # fs)"
| "flat_step ExtractLogs f fs = (Logs (f_logs f), f # fs)"
| "flat_step (GetSlots a) f fs = (Keys {k. (a, k) \<in> f_slots f}, f # fs)"
| "flat_step IterSelfdestruct f fs = (Addresses (f_selfdestructs f), f # fs)"

fun sub_run :: "sub_op list \<Rightarrow> Substate \<Rightarrow> sub_out list \<times> Substate" where
  "sub_run [] s = ([], s)"
| "sub_run (op # ops) s =
     (case sub_step op s of (out, s) \<Rightarrow> case sub_run ops s of (outs, s) \<Rightarrow> (out # outs, s))"

fun flat_run :: "sub_op list \<Rightarrow> Flat list \<Rightarrow> sub_out list \<times> Flat list" where
  "flat_run [] fs = ([], fs)"
| "flat_run (op # ops) fs =
     (case flat_step op (hd fs) (tl fs) of (out, fs) \<Rightarrow> case flat_run ops fs of (outs, fs) \<Rightarrow> (out # outs, fs))"

section \<open>Queries of changed checkpoints\<close>

lemma views_ne [simp]: "views s \<noteq> []"
  by (cases s) simp

lemma hd_views: "hd (views s) = flat_of s"
  by (cases s) simp

lemma views_here: "views (Substate p c) = flat_of (Substate p c) # (case p of None \<Rightarrow> [] | Some s \<Rightarrow> views s)"
  by simp

lemma or_default_member: "k \<in> or_default x \<longleftrightarrow> (case x of None \<Rightarrow> False | Some v \<Rightarrow> k \<in> v)"
  by (simp add: or_default_def split: option.split)

lemma extend_slots_member:
  "k \<in> or_default (fmlookup (extend_slots m d) a) \<longleftrightarrow>
     k \<in> or_default (fmlookup m a) \<or> k \<in> or_default (fmlookup d a)"
  by (auto simp: extend_slots_def or_default_def fmlookup_dom_iff split: option.splits)

lemma slot_accessed_here:
  "is_slot_accessed (Substate p c) a k \<longleftrightarrow>
     k \<in> or_default (fmlookup (accessed_storage_slots c) a) \<or> (case p of None \<Rightarrow> False | Some s \<Rightarrow> is_slot_accessed s a k)"
  by (simp add: or_default_member)


lemma parent_has_selfdestruct:
  "is_selfdestruct s a \<longleftrightarrow> a \<in> selfdestruct_set (here s) \<or> parent_has (\<lambda>p. is_selfdestruct p a) s"
  by (cases s) (simp add: parent_has_def)

lemma parent_has_created:
  "is_account_created s a \<longleftrightarrow> a \<in> created_accounts (here s) \<or> parent_has (\<lambda>p. is_account_created p a) s"
  by (cases s) (simp add: parent_has_def)

lemma parent_has_slot:
  "is_slot_accessed s a k \<longleftrightarrow>
     (case fmlookup (accessed_storage_slots (here s)) a of None \<Rightarrow> False | Some slot_set \<Rightarrow> k \<in> slot_set) \<or>
     parent_has (\<lambda>p. is_slot_accessed p a k) s"
  by (cases s) (simp add: parent_has_def)

lemma parent_has_address:
  "is_address_accessed s a \<longleftrightarrow>
     is_warm_precompile (fork (here s)) a \<or> a \<in> accessed_addresses (here s) \<or> parent_has (\<lambda>p. is_address_accessed p a) s"
  by (cases s) (simp add: parent_has_def)

lemma get_slots_eq: "get_accessed_storage_slots s a = {k. is_slot_accessed s a k}"
proof (induction s a rule: get_accessed_storage_slots.induct)
  case (1 p c a)
  show ?case using 1 by (intro set_eqI) (cases p; simp add: or_default_member)
qed

lemma iter_selfdestruct_eq: "iter_selfdestruct s = Collect (is_selfdestruct s)"
proof (induction s rule: iter_selfdestruct.induct)
  case (1 p c)
  show ?case using 1 by (intro set_eqI) (cases p; simp)
qed

lemmas query_simps = flat_of_def or_default_member

section \<open>Each operation on the flat values\<close>

lemma views_same_parent:
  "views (Substate (parent s) c) = flat_of (Substate (parent s) c) # tl (views s)"
  by (cases s) simp

lemma one_fork_same_parent: "one_fork s \<Longrightarrow> fork c = fork (here s) \<Longrightarrow> one_fork (Substate (parent s) c)"
  by (cases s) (auto split: option.splits)

lemma flat_of_fields:
  "f_fork (flat_of s) = fork (here s)" "f_selfdestructs (flat_of s) = Collect (is_selfdestruct s)"
  "f_warm (flat_of s) = Collect (is_address_accessed s)" "f_slots (flat_of s) = {(a, k). is_slot_accessed s a k}"
  "f_created (flat_of s) = Collect (is_account_created s)" "f_refund (flat_of s) = refunded_gas (here s)"
  "f_transient (flat_of s) = (\<lambda>(a, k). get_transient s a k)" "f_logs (flat_of s) = extract_logs s"
  by (simp_all add: flat_of_def)

lemma push_queries:
  "is_selfdestruct (push_backup s) = is_selfdestruct s" "is_account_created (push_backup s) = is_account_created s"
  "is_slot_accessed (push_backup s) = is_slot_accessed s" "get_transient (push_backup s) = get_transient s"
  "extract_logs (push_backup s) = extract_logs s" "is_address_accessed (push_backup s) = is_address_accessed s"
  "fork (here (push_backup s)) = fork (here s)" "refunded_gas (here (push_backup s)) = refunded_gas (here s)"
proof -
  show "is_address_accessed (push_backup s) = is_address_accessed s"
    by (rule ext, cases s) (auto simp: push_backup_def Checkpoint_default_def)
qed (simp_all add: push_backup_def Checkpoint_default_def fun_eq_iff)

lemma flat_push: "flat_of (push_backup s) = flat_of s"
  unfolding flat_of_def push_queries ..

lemma commit_queries:
  fixes q c d defines "s \<equiv> Substate (Some (Substate q c)) d" and "t \<equiv> Substate q (merge_checkpoint c d)"
  shows "is_selfdestruct t = is_selfdestruct s" "is_account_created t = is_account_created s"
    "is_slot_accessed t = is_slot_accessed s" "get_transient t = get_transient s"
    "extract_logs t = extract_logs s" "fork c = fork d \<Longrightarrow> is_address_accessed t = is_address_accessed s"
proof -
  show "is_slot_accessed t = is_slot_accessed s"
    by (intro ext) (auto simp: s_def t_def slot_accessed_here merge_checkpoint_def extend_slots_member
        simp del: is_slot_accessed.simps)
qed (auto simp: s_def t_def merge_checkpoint_def fun_eq_iff fmdom_notD split: option.split)

lemma merge_checkpoint_fields:
  "fork (merge_checkpoint c d) = fork c" "refunded_gas (merge_checkpoint c d) = refunded_gas d"
  by (simp_all add: merge_checkpoint_def)

lemma flat_commit:
  assumes "one_fork s" shows "flat_of (commit_backup s) = flat_of s"
proof (cases s)
  case s: (Substate p d)
  show ?thesis
  proof (cases p)
    case (Some p')
    then obtain q c where p: "p = Some (Substate q c)" by (cases p') simp
    have "fork c = fork d" using assms by (simp add: s p)
    then show ?thesis
      unfolding flat_of_def by (simp only: s p commit_backup_def commit_queries merge_checkpoint_fields
          Substate.sel option.case)
  qed (simp add: s commit_backup_def)
qed


lemma flat_update:
  "flat_of (Substate p (c \<lparr> selfdestruct_set := insert a (selfdestruct_set c) \<rparr>)) =
     (flat_of (Substate p c)) \<lparr> f_selfdestructs := insert a (f_selfdestructs (flat_of (Substate p c))) \<rparr>"
  "flat_of (Substate p (c \<lparr> created_accounts := insert a (created_accounts c) \<rparr>)) =
     (flat_of (Substate p c)) \<lparr> f_created := insert a (f_created (flat_of (Substate p c))) \<rparr>"
  "flat_of (Substate p (c \<lparr> accessed_addresses := insert a (accessed_addresses c) \<rparr>)) =
     (flat_of (Substate p c)) \<lparr> f_warm := insert a (f_warm (flat_of (Substate p c))) \<rparr>"
  "flat_of (Substate p (c \<lparr> logs := logs c @ [l] \<rparr>)) =
     (flat_of (Substate p c)) \<lparr> f_logs := f_logs (flat_of (Substate p c)) @ [l] \<rparr>"
  "flat_of (Substate p (c \<lparr> refunded_gas := g \<rparr>)) = (flat_of (Substate p c)) \<lparr> f_refund := g \<rparr>"
  "flat_of (Substate p (c \<lparr> transient_storage := fmupd (a, k) v (transient_storage c) \<rparr>)) =
     (flat_of (Substate p c)) \<lparr> f_transient := (f_transient (flat_of (Substate p c))) ((a, k) := v) \<rparr>"
  "flat_of (Substate p (c \<lparr> accessed_storage_slots :=
       fmupd a (insert k (or_default (fmlookup (accessed_storage_slots c) a))) (accessed_storage_slots c) \<rparr>)) =
     (flat_of (Substate p c)) \<lparr> f_slots := insert (a, k) (f_slots (flat_of (Substate p c))) \<rparr>"
  by (simp_all add: flat_of_def set_eq_iff fun_eq_iff or_default_member split: option.split) blast+


lemma views_split: "flat_of s # tl (views s) = views s"
  by (cases s) simp

lemma flat_absorb:
  "a \<in> f_selfdestructs f \<Longrightarrow> f \<lparr> f_selfdestructs := insert a (f_selfdestructs f) \<rparr> = f"
  "a \<in> f_created f \<Longrightarrow> f \<lparr> f_created := insert a (f_created f) \<rparr> = f"
  "a \<in> f_warm f \<Longrightarrow> f \<lparr> f_warm := insert a (f_warm f) \<rparr> = f"
  "x \<in> f_slots f \<Longrightarrow> f \<lparr> f_slots := insert x (f_slots f) \<rparr> = f"
  by (simp_all add: insert_absorb)

lemma flat_member:
  "a \<in> f_selfdestructs (flat_of s) \<longleftrightarrow> a \<in> selfdestruct_set (here s) \<or> parent_has (\<lambda>p. is_selfdestruct p a) s"
  "a \<in> f_created (flat_of s) \<longleftrightarrow> a \<in> created_accounts (here s) \<or> parent_has (\<lambda>p. is_account_created p a) s"
  "a \<in> f_warm (flat_of s) \<longleftrightarrow>
     is_warm_precompile (fork (here s)) a \<or> a \<in> accessed_addresses (here s) \<or> parent_has (\<lambda>p. is_address_accessed p a) s"
  "(a, k) \<in> f_slots (flat_of s) \<longleftrightarrow>
     (case fmlookup (accessed_storage_slots (here s)) a of None \<Rightarrow> False | Some slot_set \<Rightarrow> k \<in> slot_set) \<or>
     parent_has (\<lambda>p. is_slot_accessed p a k) s"
  unfolding flat_of_fields mem_Collect_eq prod.case
  by (rule parent_has_selfdestruct, rule parent_has_created, rule parent_has_address, rule parent_has_slot)

lemmas add_defs = add_selfdestruct_def add_accessed_slot_def add_accessed_address_def add_created_account_def

lemma flat_step_add:
  assumes "one_fork s" "sub_step op s = (out, s')"
    "\<exists>a k. op = AddSelfdestruct a \<or> op = AddCreated a \<or> op = AddAddress a \<or> op = AddSlot a k"
  shows "one_fork s' \<and> flat_step op (flat_of s) (tl (views s)) = (out, views s')"
  using assms
  by (auto simp: add_defs Let_def flat_member flat_absorb views_split views_same_parent flat_update one_fork_same_parent
      split: if_splits simp del: views.simps one_fork.simps)

lemma sub_step_refines:
  assumes "one_fork s" "sub_step op s = (out, s')"
  shows "one_fork s' \<and> flat_step op (hd (views s)) (tl (views s)) = (out, views s')"
proof -
  have v: "views s = flat_of s # tl (views s)" by (metis hd_views list.collapse views_ne)
  show ?thesis
  proof (cases op)
    case PushBackup
    have "views (push_backup s) = flat_of s # views s"
      using flat_push [of s] by (simp add: push_backup_def)
    with assms v PushBackup show ?thesis
      by (auto simp add: hd_views push_backup_def Checkpoint_default_def)
  next
    case CommitBackup
    have "views (commit_backup s) = flat_of s # tl (tl (views s)) \<and> one_fork (commit_backup s)"
    proof (cases "parent s")
      case None
      with v assms(1) show ?thesis by (cases s) (simp add: commit_backup_def)
    next
      case (Some p)
      with flat_commit [OF assms(1)] assms(1) show ?thesis
        by (cases s, cases p) (auto simp: commit_backup_def merge_checkpoint_fields split: option.splits)
    qed
    with assms CommitBackup show ?thesis by (simp add: hd_views)
  next
    case RevertBackup
    with assms show ?thesis
      by (cases s) (auto simp: revert_backup_def split: option.splits)
  qed (use assms flat_step_add [OF assms] in \<open>auto simp: hd_views flat_of_fields get_slots_eq iter_selfdestruct_eq
      set_transient_def add_log_def set_refunded_gas_def views_same_parent views_split flat_update one_fork_same_parent simp del: views.simps one_fork.simps\<close>)
qed


lemma sub_run_refines:
  "one_fork s \<Longrightarrow> sub_run ops s = (outs, s') \<Longrightarrow> one_fork s' \<and> flat_run ops (views s) = (outs, views s')"
proof (induction ops arbitrary: s outs)
  case (Cons op ops)
  obtain out t where t: "sub_step op s = (out, t)" by fastforce
  obtain outs' where o: "sub_run ops t = (outs', s')" "outs = out # outs'"
    using Cons.prems(2) t by (auto split: prod.splits)
  from sub_step_refines [OF Cons.prems(1) t] Cons.IH [OF _ o(1)] o(2) show ?case by simp
qed simp

section \<open>Scopes\<close>

text \<open>
  What a client of a journal relies on: an opened scope remembers the state it was opened in, closing it
  drops the scope or keeps its changes, and everything else stays inside the scope.
\<close>

datatype scope_kind = Opens | Keeps | Drops | Stays

fun balanced :: "('op \<Rightarrow> scope_kind) \<Rightarrow> nat \<Rightarrow> 'op list \<Rightarrow> bool" where
  "balanced kind d [] \<longleftrightarrow> d = 0"
| "balanced kind d (op # ops) \<longleftrightarrow>
     (case kind op of
        Opens \<Rightarrow> balanced kind (Suc d) ops
      | Keeps \<Rightarrow> 0 < d \<and> balanced kind (d - 1) ops
      | Drops \<Rightarrow> 0 < d \<and> balanced kind (d - 1) ops
      | Stays \<Rightarrow> balanced kind d ops)"

locale journal =
  fixes under :: "'s \<Rightarrow> 's option" and kind :: "'op \<Rightarrow> scope_kind" and act :: "'op \<Rightarrow> 's \<Rightarrow> 's"
  assumes opens: "kind op = Opens \<Longrightarrow> under (act op s) = Some s"
    and keeps: "kind op = Keeps \<Longrightarrow> under s = Some p \<Longrightarrow> under (act op s) = under p"
    and drops: "kind op = Drops \<Longrightarrow> under s = Some p \<Longrightarrow> act op s = p"
    and stays: "kind op = Stays \<Longrightarrow> under (act op s) = under s"
begin

fun nth_under :: "nat \<Rightarrow> 's \<Rightarrow> 's option" where
  "nth_under 0 s = under s"
| "nth_under (Suc n) s = (case under s of None \<Rightarrow> None | Some p \<Rightarrow> nth_under n p)"

fun deep :: "nat \<Rightarrow> 's \<Rightarrow> bool" where
  "deep 0 s \<longleftrightarrow> True"
| "deep (Suc n) s \<longleftrightarrow> (\<exists>p. under s = Some p \<and> deep n p)"

lemma deep_cong: "under s = under t \<Longrightarrow> deep n s = deep n t"
  by (cases n) simp_all

lemma nth_under_cong: "under s = under t \<Longrightarrow> nth_under n s = nth_under n t"
  by (cases n) simp_all

lemma balanced_under:
  "balanced kind d ops \<Longrightarrow> deep d s \<Longrightarrow> under (fold act ops s) = nth_under d s"
proof (induction ops arbitrary: d s)
  case (Cons op ops)
  show ?case
  proof (cases "kind op")
    case Opens
    with Cons show ?thesis by (simp add: opens)
  next
    case Keeps
    with Cons.prems(1) obtain e where e: "d = Suc e" "balanced kind e ops" by (cases d) simp_all
    with Cons.prems(2) obtain p where p: "under s = Some p" "deep e p" by auto
    note d = e(1) p e(2)
    have u: "under (act op s) = under p" by (rule keeps [OF Keeps d(2)])
    from Cons.IH [OF d(4), of "act op s"] d show ?thesis by (simp add: deep_cong [OF u] nth_under_cong [OF u])
  next
    case Drops
    with Cons.prems(1) obtain e where e: "d = Suc e" "balanced kind e ops" by (cases d) simp_all
    with Cons.prems(2) obtain p where p: "under s = Some p" "deep e p" by auto
    note d = e(1) p e(2)
    with Cons.IH [of e p] drops [OF Drops d(2)] show ?thesis by simp
  next
    case Stays
    then have u: "under (act op s) = under s" by (rule stays)
    with Cons.IH [of d "act op s"] Cons.prems Stays show ?thesis
      by (simp add: deep_cong [OF u] nth_under_cong [OF u])
  qed
qed simp

lemma drop_restores:
  assumes "kind op = Opens" "balanced kind 0 ops" "kind cl = Drops"
  shows "fold act (op # ops @ [cl]) s = s"
proof -
  have "under (fold act ops (act op s)) = Some s"
    using balanced_under [OF assms(2)] opens [OF assms(1)] by simp
  then show ?thesis using drops [OF assms(3)] by simp
qed

lemma keep_pops:
  assumes "kind op = Opens" "balanced kind 0 ops" "kind cl = Keeps"
  shows "under (fold act (op # ops @ [cl]) s) = under s"
proof -
  have "under (fold act ops (act op s)) = Some s"
    using balanced_under [OF assms(2)] opens [OF assms(1)] by simp
  then show ?thesis using keeps [OF assms(3)] by simp
qed

end

fun sub_kind :: "sub_op \<Rightarrow> scope_kind" where
  "sub_kind PushBackup = Opens"
| "sub_kind CommitBackup = Keeps"
| "sub_kind RevertBackup = Drops"
| "sub_kind _ = Stays"

definition sub_act :: "sub_op \<Rightarrow> Substate \<Rightarrow> Substate" where
  "sub_act op s = snd (sub_step op s)"

lemma sub_act_stays: "sub_kind op = Stays \<Longrightarrow> parent (sub_act op s) = parent s"
  by (cases op) (simp_all add: sub_act_def add_defs Let_def set_transient_def add_log_def set_refunded_gas_def)

interpretation substate: journal parent sub_kind sub_act
proof
  fix op s p
  show "sub_kind op = Opens \<Longrightarrow> parent (sub_act op s) = Some s"
    by (cases op) (simp_all add: sub_act_def push_backup_def)
  show "sub_kind op = Keeps \<Longrightarrow> parent s = Some p \<Longrightarrow> parent (sub_act op s) = parent p"
    by (cases op) (simp_all add: sub_act_def commit_backup_def)
  show "sub_kind op = Drops \<Longrightarrow> parent s = Some p \<Longrightarrow> sub_act op s = p"
    by (cases op) (simp_all add: sub_act_def revert_backup_def)
qed (rule sub_act_stays)

lemma sub_run_fold: "snd (sub_run ops s) = fold sub_act ops s"
proof (induction ops arbitrary: s)
  case (Cons op ops)
  then show ?case by (simp add: sub_act_def case_prod_beta)
qed simp

section \<open>Warm precompiles\<close>

lemma is_warm_precompile_iff:
  "is_warm_precompile f a \<longleftrightarrow>
     1 \<le> unat a \<and> unat a \<le> (if f \<ge> Prague then 17 else if f \<ge> Cancun then 10 else 9) \<or> unat a = 256 \<and> f \<ge> Osaka"
proof (cases "drop_bit 16 a = 0")
  case False
  have "\<not> unat a < 2 ^ 16"
  proof
    assume "unat a < 2 ^ 16"
    then have "unat (drop_bit 16 a) = 0" unfolding unat_drop_bit_eq by (simp add: drop_bit_eq_div)
    with False show False by (simp add: unat_eq_zero)
  qed
  with False show ?thesis by (auto simp: is_warm_precompile_def)
next
  case True
  then have "unat (drop_bit 16 a) = 0" by simp
  then have "unat a < 2 ^ 16" unfolding unat_drop_bit_eq by (simp add: drop_bit_eq_div div_eq_0_iff)
  then have u: "unat (ucast a :: 16 word) = unat a" by (simp add: unsigned_ucast_eq take_bit_nat_eq_self)
  have "(unat (ucast a :: 16 word) \<le> max_contiguous f) \<longleftrightarrow> unat a \<le> max_contiguous f"
    unfolding u ..
  moreover have "(1 \<le> (ucast a :: 16 word)) \<longleftrightarrow> 1 \<le> unat a" unfolding word_le_nat_alt u by simp
  moreover have "(ucast a :: 16 word) = 0x100 \<longleftrightarrow> unat a = 256" using u by (auto simp: word_unat_eq_iff)
  moreover have "max_contiguous f = (if f \<ge> Prague then 17 else if f \<ge> Cancun then 10 else 9)"
    by (simp add: max_contiguous_def SIZE_PRECOMPILES_PRE_CANCUN_def SIZE_PRECOMPILES_CANCUN_def SIZE_PRECOMPILES_PRAGUE_def)
  ultimately show ?thesis using True by (simp add: is_warm_precompile_def Let_def)
qed

lemma warm_access_list_ok:
  "warm_access_list al (addresses, slots) = (addresses', slots') \<Longrightarrow>
   addresses' = addresses \<union> fst ` set al \<and>
   (\<forall>a k. k \<in> or_default (fmlookup slots' a) \<longleftrightarrow>
      k \<in> or_default (fmlookup slots a) \<or> (\<exists>keys. (a, keys) \<in> set al \<and> k \<in> set keys))"
proof (induction al arbitrary: addresses slots)
  case Nil
  then show ?case by (simp add: warm_access_list_def)
next
  case (Cons x al)
  obtain b keys where x: "x = (b, keys)" by fastforce
  let ?s = "fmupd b (or_default (fmlookup slots b) \<union> set keys) slots"
  have "warm_access_list al (insert b addresses, ?s) = (addresses', slots')"
    using Cons.prems by (simp add: warm_access_list_def x)
  note IH = Cons.IH [OF this]
  have "k \<in> or_default (fmlookup ?s a) \<longleftrightarrow> k \<in> or_default (fmlookup slots a) \<or> a = b \<and> k \<in> set keys" for a k
    by (auto simp: or_default_def)
  with IH show ?case by (auto simp: x)
qed

lemma initialize_views:
  "one_fork (initialize f origin coinbase al) \<and>
   views (initialize f origin coinbase al) = [\<lparr> f_fork = f, f_selfdestructs = {},
     f_warm = {a. is_warm_precompile f a} \<union> {origin} \<union> (if f \<ge> Shanghai then {coinbase} else {}) \<union> fst ` set al,
     f_slots = {(a, k). \<exists>keys. (a, keys) \<in> set al \<and> k \<in> set keys}, f_created = {}, f_refund = 0,
     f_transient = (\<lambda>_. 0), f_logs = [] \<rparr>]"
proof -
  let ?A = "if f \<ge> Shanghai then insert coinbase {origin} else {origin}"
  obtain A S where w: "warm_access_list al (?A, fmempty) = (A, S)" by fastforce
  have i: "initialize f origin coinbase al = from_accesses f A S" using w by (simp add: initialize_def)
  have slots: "is_slot_accessed (from_accesses f A S) a k \<longleftrightarrow> (\<exists>keys. (a, keys) \<in> set al \<and> k \<in> set keys)" for a k
    using warm_access_list_ok [OF w] unfolding from_accesses_def slot_accessed_here
    by (simp add: or_default_def [of None])
  have addr: "is_address_accessed (from_accesses f A S) a \<longleftrightarrow>
      is_warm_precompile f a \<or> a = origin \<or> (f \<ge> Shanghai \<and> a = coinbase) \<or> a \<in> fst ` set al" for a
    using warm_access_list_ok [OF w] by (auto simp: from_accesses_def)
  have "views (from_accesses f A S) = [flat_of (from_accesses f A S)]" by (simp add: from_accesses_def)
  moreover have "flat_of (from_accesses f A S) = \<lparr> f_fork = f, f_selfdestructs = {},
     f_warm = {a. is_warm_precompile f a} \<union> {origin} \<union> (if f \<ge> Shanghai then {coinbase} else {}) \<union> fst ` set al,
     f_slots = {(a, k). \<exists>keys. (a, keys) \<in> set al \<and> k \<in> set keys}, f_created = {}, f_refund = 0,
     f_transient = (\<lambda>_. 0), f_logs = [] \<rparr>"
    unfolding flat_of_def slots addr
    by (auto simp: from_accesses_def Checkpoint_default_def)
  ultimately show ?thesis unfolding i by (simp add: from_accesses_def)
qed

lemma merged_slots_member:
  "k \<in> or_default (fmlookup (merged_slots s e) a) \<longleftrightarrow> k \<in> or_default (fmlookup e a) \<or> is_slot_accessed s a k"
proof (induction s e rule: merged_slots.induct)
  case (1 p c e)
  show ?case
  proof (cases p)
    case None
    then show ?thesis by (simp add: extend_slots_member slot_accessed_here del: is_slot_accessed.simps)
  next
    case (Some q)
    from 1 [OF refl Some] Some show ?thesis
      by (simp add: extend_slots_member slot_accessed_here del: is_slot_accessed.simps)
  qed
qed

lemma make_access_list_ok:
  "sorted (map fst (make_access_list s)) \<and> distinct (map fst (make_access_list s)) \<and>
   (\<forall>(a, keys) \<in> set (make_access_list s). sorted keys \<and> distinct keys) \<and>
   {(a, k). \<exists>keys. (a, keys) \<in> set (make_access_list s) \<and> k \<in> set keys} = {(a, k). is_slot_accessed s a k}"
proof -
  let ?e = "merged_slots s fmempty"
  have fst: "map fst (make_access_list s) = sorted_list_of_fset (fmdom ?e)"
    by (simp add: make_access_list_def Let_def comp_def)
  have mem: "(a, keys) \<in> set (make_access_list s) \<longleftrightarrow>
      a |\<in>| fmdom ?e \<and> keys = sorted_list_of_set (or_default (fmlookup ?e a))" for a keys
    by (auto simp: make_access_list_def Let_def)
  have "a |\<in>| fmdom ?e" if "k \<in> or_default (fmlookup ?e a)" for a k
    using that by (cases "fmlookup ?e a") (auto simp: or_default_def intro: fmdomI)
  then have "(\<exists>keys. (a, keys) \<in> set (make_access_list s) \<and> k \<in> set keys) \<longleftrightarrow> is_slot_accessed s a k" for a k
    unfolding mem using merged_slots_member [of k s fmempty a] by (auto simp: or_default_def [of None])
  then show ?thesis unfolding fst by (auto simp: mem sorted_list_of_fset.rep_eq)
qed


section \<open>Properties\<close>


text \<open>
  C10: a scope that is reverted leaves no trace: after a checkpoint, any balanced sequence of operations
  (with inner checkpoints, commits and reverts) and a revert, the substate is the one the checkpoint was
  taken in; when it is committed instead, the checkpoints below are untouched and the current one has the
  values the scope ended with.
\<close>

theorem substate_scopes:
  assumes "balanced sub_kind 0 ops" "one_fork s"
  shows "snd (sub_run (PushBackup # ops @ [RevertBackup]) s) = s \<and>
    views (snd (sub_run (PushBackup # ops @ [CommitBackup]) s)) =
      hd (views (snd (sub_run (PushBackup # ops) s))) # tl (views s)"
proof
  show "snd (sub_run (PushBackup # ops @ [RevertBackup]) s) = s"
    unfolding sub_run_fold by (rule substate.drop_restores) (simp_all add: assms)
  let ?u = "snd (sub_run (PushBackup # ops) s)" and ?t = "snd (sub_run (PushBackup # ops @ [CommitBackup]) s)"
  have "parent ?t = parent s"
    unfolding sub_run_fold by (rule substate.keep_pops) (simp_all add: assms)
  moreover have "?t = commit_backup ?u" unfolding sub_run_fold by (simp add: sub_act_def)
  moreover have "one_fork ?u" using sub_run_refines [OF assms(2)] by (metis prod.collapse)
  ultimately show "views ?t = hd (views ?u) # tl (views s)"
    using flat_commit [of ?u] views_same_parent [of s "here ?t"] by (metis Substate.collapse hd_views)
qed

theorem substate_scopes_witness:
  "snd (sub_run [PushBackup, AddAddress 0xabc, PushBackup, AddLog \<lparr> log_address = 1, topics = [], log_data = [] \<rparr>,
     CommitBackup, RevertBackup] (initialize Prague 1 2 [])) = initialize Prague 1 2 []"
  using substate_scopes [of "[AddAddress 0xabc, PushBackup, AddLog \<lparr> log_address = 1, topics = [], log_data = [] \<rparr>, CommitBackup]"
    "initialize Prague 1 2 []"] initialize_views [of Prague 1 2 "[]"] by simp

text \<open>
  C28: the access list reported for a transaction is sorted, without repeated addresses or keys, and lists
  exactly the storage slots accessed in the chain of checkpoints.
\<close>

theorem access_list_exact:
  "sorted (map fst (make_access_list s)) \<and> distinct (map fst (make_access_list s)) \<and>
   list_all (\<lambda>(a, keys). sorted keys \<and> distinct keys) (make_access_list s) \<and>
   {(a, k). \<exists>keys. (a, keys) \<in> set (make_access_list s) \<and> k \<in> set keys} = {(a, k). is_slot_accessed s a k}"
  using make_access_list_ok [of s] unfolding list_all_iff .

end
