(* ===== verification/Evm_Gas.thy ===== *)
theory Evm_Gas
  imports Evm_Types Evm_Memory
begin

text \<open>
  The gas costs of \<open>src/crates/vm/levm/src/gas_cost.rs\<close>.  Its constants are abbreviations with the suffix
  \<open>_GAS\<close>, its functions have the prefix \<open>gas_\<close> where their name is that of an opcode.  Costs are \<open>u64\<close>
  values, natural numbers with checked operations; a conversion from \<open>usize\<close> to \<open>u64\<close> does not fail on the
  64-bit targets the client supports.
\<close>

section \<open>Constants\<close>

abbreviation (input) STOP_GAS :: nat where "STOP_GAS \<equiv> 0"
abbreviation (input) ADD_GAS :: nat where "ADD_GAS \<equiv> 3"
abbreviation (input) MUL_GAS :: nat where "MUL_GAS \<equiv> 5"
abbreviation (input) SUB_GAS :: nat where "SUB_GAS \<equiv> 3"
abbreviation (input) DIV_GAS :: nat where "DIV_GAS \<equiv> 5"
abbreviation (input) SDIV_GAS :: nat where "SDIV_GAS \<equiv> 5"
abbreviation (input) MOD_GAS :: nat where "MOD_GAS \<equiv> 5"
abbreviation (input) SMOD_GAS :: nat where "SMOD_GAS \<equiv> 5"
abbreviation (input) ADDMOD_GAS :: nat where "ADDMOD_GAS \<equiv> 8"
abbreviation (input) MULMOD_GAS :: nat where "MULMOD_GAS \<equiv> 8"
abbreviation (input) EXP_STATIC_GAS :: nat where "EXP_STATIC_GAS \<equiv> 10"
abbreviation (input) EXP_DYNAMIC_BASE_GAS :: nat where "EXP_DYNAMIC_BASE_GAS \<equiv> 50"
abbreviation (input) SIGNEXTEND_GAS :: nat where "SIGNEXTEND_GAS \<equiv> 5"
abbreviation (input) LT_GAS :: nat where "LT_GAS \<equiv> 3"
abbreviation (input) GT_GAS :: nat where "GT_GAS \<equiv> 3"
abbreviation (input) SLT_GAS :: nat where "SLT_GAS \<equiv> 3"
abbreviation (input) SGT_GAS :: nat where "SGT_GAS \<equiv> 3"
abbreviation (input) EQ_GAS :: nat where "EQ_GAS \<equiv> 3"
abbreviation (input) ISZERO_GAS :: nat where "ISZERO_GAS \<equiv> 3"
abbreviation (input) AND_GAS :: nat where "AND_GAS \<equiv> 3"
abbreviation (input) OR_GAS :: nat where "OR_GAS \<equiv> 3"
abbreviation (input) XOR_GAS :: nat where "XOR_GAS \<equiv> 3"
abbreviation (input) NOT_GAS :: nat where "NOT_GAS \<equiv> 3"
abbreviation (input) BYTE_GAS :: nat where "BYTE_GAS \<equiv> 3"
abbreviation (input) SHL_GAS :: nat where "SHL_GAS \<equiv> 3"
abbreviation (input) SHR_GAS :: nat where "SHR_GAS \<equiv> 3"
abbreviation (input) SAR_GAS :: nat where "SAR_GAS \<equiv> 3"
abbreviation (input) KECCAK25_STATIC_GAS :: nat where "KECCAK25_STATIC_GAS \<equiv> 30"
abbreviation (input) KECCAK25_DYNAMIC_BASE_GAS :: nat where "KECCAK25_DYNAMIC_BASE_GAS \<equiv> 6"
abbreviation (input) CALLDATALOAD_GAS :: nat where "CALLDATALOAD_GAS \<equiv> 3"
abbreviation (input) CALLDATASIZE_GAS :: nat where "CALLDATASIZE_GAS \<equiv> 2"
abbreviation (input) CALLDATACOPY_STATIC_GAS :: nat where "CALLDATACOPY_STATIC_GAS \<equiv> 3"
abbreviation (input) CALLDATACOPY_DYNAMIC_BASE_GAS :: nat where "CALLDATACOPY_DYNAMIC_BASE_GAS \<equiv> 3"
abbreviation (input) RETURNDATASIZE_GAS :: nat where "RETURNDATASIZE_GAS \<equiv> 2"
abbreviation (input) RETURNDATACOPY_STATIC_GAS :: nat where "RETURNDATACOPY_STATIC_GAS \<equiv> 3"
abbreviation (input) RETURNDATACOPY_DYNAMIC_BASE_GAS :: nat where "RETURNDATACOPY_DYNAMIC_BASE_GAS \<equiv> 3"
abbreviation (input) ADDRESS_GAS :: nat where "ADDRESS_GAS \<equiv> 2"
abbreviation (input) ORIGIN_GAS :: nat where "ORIGIN_GAS \<equiv> 2"
abbreviation (input) CALLER_GAS :: nat where "CALLER_GAS \<equiv> 2"
abbreviation (input) BLOCKHASH_GAS :: nat where "BLOCKHASH_GAS \<equiv> 20"
abbreviation (input) COINBASE_GAS :: nat where "COINBASE_GAS \<equiv> 2"
abbreviation (input) TIMESTAMP_GAS :: nat where "TIMESTAMP_GAS \<equiv> 2"
abbreviation (input) NUMBER_GAS :: nat where "NUMBER_GAS \<equiv> 2"
abbreviation (input) PREVRANDAO_GAS :: nat where "PREVRANDAO_GAS \<equiv> 2"
abbreviation (input) GASLIMIT_GAS :: nat where "GASLIMIT_GAS \<equiv> 2"
abbreviation (input) CHAINID_GAS :: nat where "CHAINID_GAS \<equiv> 2"
abbreviation (input) SELFBALANCE_GAS :: nat where "SELFBALANCE_GAS \<equiv> 5"
abbreviation (input) BASEFEE_GAS :: nat where "BASEFEE_GAS \<equiv> 2"
abbreviation (input) BLOBHASH_GAS :: nat where "BLOBHASH_GAS \<equiv> 3"
abbreviation (input) BLOBBASEFEE_GAS :: nat where "BLOBBASEFEE_GAS \<equiv> 2"
abbreviation (input) SLOTNUM_GAS :: nat where "SLOTNUM_GAS \<equiv> 2"
abbreviation (input) TXPARAM_GAS :: nat where "TXPARAM_GAS \<equiv> 2"
abbreviation (input) FRAMEDATALOAD_GAS :: nat where "FRAMEDATALOAD_GAS \<equiv> 3"
abbreviation (input) FRAMEDATACOPY_STATIC_GAS :: nat where "FRAMEDATACOPY_STATIC_GAS \<equiv> 3"
abbreviation (input) FRAMEDATACOPY_DYNAMIC_BASE_GAS :: nat where "FRAMEDATACOPY_DYNAMIC_BASE_GAS \<equiv> 3"
abbreviation (input) FRAMEPARAM_GAS :: nat where "FRAMEPARAM_GAS \<equiv> 2"
abbreviation (input) SIGPARAM_GAS :: nat where "SIGPARAM_GAS \<equiv> 2"
abbreviation (input) POP_GAS :: nat where "POP_GAS \<equiv> 2"
abbreviation (input) MLOAD_STATIC_GAS :: nat where "MLOAD_STATIC_GAS \<equiv> 3"
abbreviation (input) MSTORE_STATIC_GAS :: nat where "MSTORE_STATIC_GAS \<equiv> 3"
abbreviation (input) MSTORE8_STATIC_GAS :: nat where "MSTORE8_STATIC_GAS \<equiv> 3"
abbreviation (input) JUMP_GAS :: nat where "JUMP_GAS \<equiv> 8"
abbreviation (input) JUMPI_GAS :: nat where "JUMPI_GAS \<equiv> 10"
abbreviation (input) PC_GAS :: nat where "PC_GAS \<equiv> 2"
abbreviation (input) MSIZE_GAS :: nat where "MSIZE_GAS \<equiv> 2"
abbreviation (input) GAS_GAS :: nat where "GAS_GAS \<equiv> 2"
abbreviation (input) JUMPDEST_GAS :: nat where "JUMPDEST_GAS \<equiv> 1"
abbreviation (input) TLOAD_GAS :: nat where "TLOAD_GAS \<equiv> 100"
abbreviation (input) TSTORE_GAS :: nat where "TSTORE_GAS \<equiv> 100"
abbreviation (input) MCOPY_STATIC_GAS :: nat where "MCOPY_STATIC_GAS \<equiv> 3"
abbreviation (input) MCOPY_DYNAMIC_BASE_GAS :: nat where "MCOPY_DYNAMIC_BASE_GAS \<equiv> 3"
abbreviation (input) PUSH0_GAS :: nat where "PUSH0_GAS \<equiv> 2"
abbreviation (input) PUSHN_GAS :: nat where "PUSHN_GAS \<equiv> 3"
abbreviation (input) DUPN_GAS :: nat where "DUPN_GAS \<equiv> 3"
abbreviation (input) SWAPN_GAS :: nat where "SWAPN_GAS \<equiv> 3"
abbreviation (input) EXCHANGE_GAS :: nat where "EXCHANGE_GAS \<equiv> 3"
abbreviation (input) LOGN_STATIC_GAS :: nat where "LOGN_STATIC_GAS \<equiv> 375"
abbreviation (input) LOGN_DYNAMIC_BASE_GAS :: nat where "LOGN_DYNAMIC_BASE_GAS \<equiv> 375"
abbreviation (input) LOGN_DYNAMIC_BYTE_BASE_GAS :: nat where "LOGN_DYNAMIC_BYTE_BASE_GAS \<equiv> 8"
abbreviation (input) CALLVALUE_GAS :: nat where "CALLVALUE_GAS \<equiv> 2"
abbreviation (input) CODESIZE_GAS :: nat where "CODESIZE_GAS \<equiv> 2"
abbreviation (input) CODECOPY_STATIC_GAS :: nat where "CODECOPY_STATIC_GAS \<equiv> 3"
abbreviation (input) CODECOPY_DYNAMIC_BASE_GAS :: nat where "CODECOPY_DYNAMIC_BASE_GAS \<equiv> 3"
abbreviation (input) GASPRICE_GAS :: nat where "GASPRICE_GAS \<equiv> 2"
abbreviation (input) CLZ_GAS :: nat where "CLZ_GAS \<equiv> 5"
abbreviation (input) SELFDESTRUCT_STATIC_GAS :: nat where "SELFDESTRUCT_STATIC_GAS \<equiv> 5000"
abbreviation (input) SELFDESTRUCT_DYNAMIC_GAS :: nat where "SELFDESTRUCT_DYNAMIC_GAS \<equiv> 25000"
abbreviation (input) SELFDESTRUCT_REFUND_GAS :: nat where "SELFDESTRUCT_REFUND_GAS \<equiv> 24000"
abbreviation (input) DEFAULT_STATIC_GAS :: nat where "DEFAULT_STATIC_GAS \<equiv> 0"
abbreviation (input) DEFAULT_COLD_DYNAMIC_GAS :: nat where "DEFAULT_COLD_DYNAMIC_GAS \<equiv> 2600"
abbreviation (input) DEFAULT_WARM_DYNAMIC_GAS :: nat where "DEFAULT_WARM_DYNAMIC_GAS \<equiv> 100"
abbreviation (input) SLOAD_STATIC_GAS :: nat where "SLOAD_STATIC_GAS \<equiv> 0"
abbreviation (input) SLOAD_COLD_DYNAMIC_GAS :: nat where "SLOAD_COLD_DYNAMIC_GAS \<equiv> 2100"
abbreviation (input) SLOAD_WARM_DYNAMIC_GAS :: nat where "SLOAD_WARM_DYNAMIC_GAS \<equiv> 100"
abbreviation (input) SSTORE_STATIC_GAS :: nat where "SSTORE_STATIC_GAS \<equiv> 0"
abbreviation (input) SSTORE_COLD_DYNAMIC_GAS :: nat where "SSTORE_COLD_DYNAMIC_GAS \<equiv> 2100"
abbreviation (input) SSTORE_DEFAULT_DYNAMIC_GAS :: nat where "SSTORE_DEFAULT_DYNAMIC_GAS \<equiv> 100"
abbreviation (input) SSTORE_STORAGE_CREATION_GAS :: nat where "SSTORE_STORAGE_CREATION_GAS \<equiv> 20000"
abbreviation (input) SSTORE_STORAGE_MODIFICATION_GAS :: nat where "SSTORE_STORAGE_MODIFICATION_GAS \<equiv> 2900"
abbreviation (input) SSTORE_STIPEND_GAS :: int where "SSTORE_STIPEND_GAS \<equiv> 2300"
abbreviation (input) BALANCE_STATIC_GAS :: nat where "BALANCE_STATIC_GAS \<equiv> DEFAULT_STATIC_GAS"
abbreviation (input) BALANCE_COLD_DYNAMIC_GAS :: nat where "BALANCE_COLD_DYNAMIC_GAS \<equiv> DEFAULT_COLD_DYNAMIC_GAS"
abbreviation (input) BALANCE_WARM_DYNAMIC_GAS :: nat where "BALANCE_WARM_DYNAMIC_GAS \<equiv> DEFAULT_WARM_DYNAMIC_GAS"
abbreviation (input) EXTCODESIZE_STATIC_GAS :: nat where "EXTCODESIZE_STATIC_GAS \<equiv> DEFAULT_STATIC_GAS"
abbreviation (input) EXTCODESIZE_COLD_DYNAMIC_GAS :: nat where "EXTCODESIZE_COLD_DYNAMIC_GAS \<equiv> DEFAULT_COLD_DYNAMIC_GAS"
abbreviation (input) EXTCODESIZE_WARM_DYNAMIC_GAS :: nat where "EXTCODESIZE_WARM_DYNAMIC_GAS \<equiv> DEFAULT_WARM_DYNAMIC_GAS"
abbreviation (input) EXTCODEHASH_STATIC_GAS :: nat where "EXTCODEHASH_STATIC_GAS \<equiv> DEFAULT_STATIC_GAS"
abbreviation (input) EXTCODEHASH_COLD_DYNAMIC_GAS :: nat where "EXTCODEHASH_COLD_DYNAMIC_GAS \<equiv> DEFAULT_COLD_DYNAMIC_GAS"
abbreviation (input) EXTCODEHASH_WARM_DYNAMIC_GAS :: nat where "EXTCODEHASH_WARM_DYNAMIC_GAS \<equiv> DEFAULT_WARM_DYNAMIC_GAS"
abbreviation (input) EXTCODECOPY_STATIC_GAS :: nat where "EXTCODECOPY_STATIC_GAS \<equiv> 0"
abbreviation (input) EXTCODECOPY_DYNAMIC_BASE_GAS :: nat where "EXTCODECOPY_DYNAMIC_BASE_GAS \<equiv> 3"
abbreviation (input) EXTCODECOPY_COLD_DYNAMIC_GAS :: nat where "EXTCODECOPY_COLD_DYNAMIC_GAS \<equiv> DEFAULT_COLD_DYNAMIC_GAS"
abbreviation (input) EXTCODECOPY_WARM_DYNAMIC_GAS :: nat where "EXTCODECOPY_WARM_DYNAMIC_GAS \<equiv> DEFAULT_WARM_DYNAMIC_GAS"
abbreviation (input) CALL_STATIC_GAS :: nat where "CALL_STATIC_GAS \<equiv> DEFAULT_STATIC_GAS"
abbreviation (input) CALL_COLD_DYNAMIC_GAS :: nat where "CALL_COLD_DYNAMIC_GAS \<equiv> DEFAULT_COLD_DYNAMIC_GAS"
abbreviation (input) CALL_WARM_DYNAMIC_GAS :: nat where "CALL_WARM_DYNAMIC_GAS \<equiv> DEFAULT_WARM_DYNAMIC_GAS"
abbreviation (input) CALL_POSITIVE_VALUE_GAS :: nat where "CALL_POSITIVE_VALUE_GAS \<equiv> 9000"
abbreviation (input) CALL_POSITIVE_VALUE_STIPEND_GAS :: nat where "CALL_POSITIVE_VALUE_STIPEND_GAS \<equiv> 2300"
abbreviation (input) CALL_TO_EMPTY_ACCOUNT_GAS :: nat where "CALL_TO_EMPTY_ACCOUNT_GAS \<equiv> 25000"
abbreviation (input) CALLCODE_STATIC_GAS :: nat where "CALLCODE_STATIC_GAS \<equiv> DEFAULT_STATIC_GAS"
abbreviation (input) CALLCODE_COLD_DYNAMIC_GAS :: nat where "CALLCODE_COLD_DYNAMIC_GAS \<equiv> DEFAULT_COLD_DYNAMIC_GAS"
abbreviation (input) CALLCODE_WARM_DYNAMIC_GAS :: nat where "CALLCODE_WARM_DYNAMIC_GAS \<equiv> DEFAULT_WARM_DYNAMIC_GAS"
abbreviation (input) CALLCODE_POSITIVE_VALUE_GAS :: nat where "CALLCODE_POSITIVE_VALUE_GAS \<equiv> 9000"
abbreviation (input) CALLCODE_POSITIVE_VALUE_STIPEND_GAS :: nat where "CALLCODE_POSITIVE_VALUE_STIPEND_GAS \<equiv> 2300"
abbreviation (input) DELEGATECALL_STATIC_GAS :: nat where "DELEGATECALL_STATIC_GAS \<equiv> DEFAULT_STATIC_GAS"
abbreviation (input) DELEGATECALL_COLD_DYNAMIC_GAS :: nat where "DELEGATECALL_COLD_DYNAMIC_GAS \<equiv> DEFAULT_COLD_DYNAMIC_GAS"
abbreviation (input) DELEGATECALL_WARM_DYNAMIC_GAS :: nat where "DELEGATECALL_WARM_DYNAMIC_GAS \<equiv> DEFAULT_WARM_DYNAMIC_GAS"
abbreviation (input) STATICCALL_STATIC_GAS :: nat where "STATICCALL_STATIC_GAS \<equiv> DEFAULT_STATIC_GAS"
abbreviation (input) STATICCALL_COLD_DYNAMIC_GAS :: nat where "STATICCALL_COLD_DYNAMIC_GAS \<equiv> DEFAULT_COLD_DYNAMIC_GAS"
abbreviation (input) STATICCALL_WARM_DYNAMIC_GAS :: nat where "STATICCALL_WARM_DYNAMIC_GAS \<equiv> DEFAULT_WARM_DYNAMIC_GAS"
abbreviation (input) WARM_ADDRESS_ACCESS_COST_GAS :: nat where "WARM_ADDRESS_ACCESS_COST_GAS \<equiv> 100"
abbreviation (input) COLD_ADDRESS_ACCESS_COST_GAS :: nat where "COLD_ADDRESS_ACCESS_COST_GAS \<equiv> 2600"
abbreviation (input) NON_ZERO_VALUE_COST_GAS :: nat where "NON_ZERO_VALUE_COST_GAS \<equiv> 9000"
abbreviation (input) VALUE_TO_EMPTY_ACCOUNT_COST_GAS :: nat where "VALUE_TO_EMPTY_ACCOUNT_COST_GAS \<equiv> 25000"
abbreviation (input) INIT_CODE_WORD_COST_GAS :: nat where "INIT_CODE_WORD_COST_GAS \<equiv> 2"
abbreviation (input) CODE_DEPOSIT_COST_GAS :: nat where "CODE_DEPOSIT_COST_GAS \<equiv> 200"
abbreviation (input) CREATE_BASE_COST_GAS :: nat where "CREATE_BASE_COST_GAS \<equiv> 32000"
abbreviation (input) STATE_BYTES_PER_NEW_ACCOUNT_GAS :: nat where "STATE_BYTES_PER_NEW_ACCOUNT_GAS \<equiv> 120"
abbreviation (input) STATE_BYTES_PER_STORAGE_SET_GAS :: nat where "STATE_BYTES_PER_STORAGE_SET_GAS \<equiv> 64"
abbreviation (input) STATE_BYTES_PER_AUTH_BASE_GAS :: nat where "STATE_BYTES_PER_AUTH_BASE_GAS \<equiv> 23"
abbreviation (input) CODE_DEPOSIT_REGULAR_COST_PER_WORD_GAS :: nat where "CODE_DEPOSIT_REGULAR_COST_PER_WORD_GAS \<equiv> 6"
abbreviation (input) CALLDATA_COST_ZERO_BYTE_GAS :: nat where "CALLDATA_COST_ZERO_BYTE_GAS \<equiv> 4"
abbreviation (input) CALLDATA_COST_NON_ZERO_BYTE_GAS :: nat where "CALLDATA_COST_NON_ZERO_BYTE_GAS \<equiv> 16"
abbreviation (input) STANDARD_TOKEN_COST_GAS :: nat where "STANDARD_TOKEN_COST_GAS \<equiv> 4"
abbreviation (input) BLOB_GAS_PER_BLOB_GAS :: nat where "BLOB_GAS_PER_BLOB_GAS \<equiv> 131072"
abbreviation (input) ACCESS_LIST_STORAGE_KEY_COST_GAS :: nat where "ACCESS_LIST_STORAGE_KEY_COST_GAS \<equiv> 1900"
abbreviation (input) ACCESS_LIST_ADDRESS_COST_GAS :: nat where "ACCESS_LIST_ADDRESS_COST_GAS \<equiv> 2400"
abbreviation (input) COLD_ACCOUNT_ACCESS_AMSTERDAM_GAS :: nat where "COLD_ACCOUNT_ACCESS_AMSTERDAM_GAS \<equiv> 3000"
abbreviation (input) COLD_STORAGE_ACCESS_AMSTERDAM_GAS :: nat where "COLD_STORAGE_ACCESS_AMSTERDAM_GAS \<equiv> 2100"
abbreviation (input) ACCESS_LIST_ADDRESS_COST_AMSTERDAM_GAS :: nat where "ACCESS_LIST_ADDRESS_COST_AMSTERDAM_GAS \<equiv> COLD_ACCOUNT_ACCESS_AMSTERDAM_GAS - WARM_ADDRESS_ACCESS_COST_GAS"
abbreviation (input) ACCESS_LIST_STORAGE_KEY_COST_AMSTERDAM_GAS :: nat where "ACCESS_LIST_STORAGE_KEY_COST_AMSTERDAM_GAS \<equiv> COLD_STORAGE_ACCESS_AMSTERDAM_GAS - WARM_ADDRESS_ACCESS_COST_GAS"
abbreviation (input) STORAGE_WRITE_AMSTERDAM_GAS :: nat where "STORAGE_WRITE_AMSTERDAM_GAS \<equiv> 10000"
abbreviation (input) ACCOUNT_WRITE_AMSTERDAM_GAS :: nat where "ACCOUNT_WRITE_AMSTERDAM_GAS \<equiv> 9000"
abbreviation (input) CALL_VALUE_AMSTERDAM_GAS :: nat where "CALL_VALUE_AMSTERDAM_GAS \<equiv> ACCOUNT_WRITE_AMSTERDAM_GAS + CALL_POSITIVE_VALUE_STIPEND_GAS"
abbreviation (input) STORAGE_CLEAR_REFUND_AMSTERDAM_GAS :: int where "STORAGE_CLEAR_REFUND_AMSTERDAM_GAS \<equiv> int ((STORAGE_WRITE_AMSTERDAM_GAS + COLD_STORAGE_ACCESS_AMSTERDAM_GAS) * 4800 div 5000)"
abbreviation (input) CREATE_ACCESS_AMSTERDAM_GAS :: nat where "CREATE_ACCESS_AMSTERDAM_GAS \<equiv> ACCOUNT_WRITE_AMSTERDAM_GAS + COLD_ACCOUNT_ACCESS_AMSTERDAM_GAS"
abbreviation (input) TX_VALUE_COST_AMSTERDAM_GAS :: nat where "TX_VALUE_COST_AMSTERDAM_GAS \<equiv> 6000"
abbreviation (input) AUTH_TUPLE_BYTES_AMSTERDAM_GAS :: nat where "AUTH_TUPLE_BYTES_AMSTERDAM_GAS \<equiv> 101"
abbreviation (input) PER_AUTH_BASE_COST_AMSTERDAM_GAS :: nat where "PER_AUTH_BASE_COST_AMSTERDAM_GAS \<equiv> 7816"
abbreviation (input) ECRECOVER_COST_GAS :: nat where "ECRECOVER_COST_GAS \<equiv> 3000"
abbreviation (input) BLS12_381_G1ADD_COST_GAS :: nat where "BLS12_381_G1ADD_COST_GAS \<equiv> 375"
abbreviation (input) BLS12_381_G2ADD_COST_GAS :: nat where "BLS12_381_G2ADD_COST_GAS \<equiv> 600"
abbreviation (input) BLS12_381_MAP_FP_TO_G1_COST_GAS :: nat where "BLS12_381_MAP_FP_TO_G1_COST_GAS \<equiv> 5500"
abbreviation (input) BLS12_PAIRING_CHECK_MUL_COST_GAS :: nat where "BLS12_PAIRING_CHECK_MUL_COST_GAS \<equiv> 32600"
abbreviation (input) BLS12_PAIRING_CHECK_FIXED_COST_GAS :: nat where "BLS12_PAIRING_CHECK_FIXED_COST_GAS \<equiv> 37700"
abbreviation (input) BLS12_381_MAP_FP2_TO_G2_COST_GAS :: nat where "BLS12_381_MAP_FP2_TO_G2_COST_GAS \<equiv> 23800"
abbreviation (input) P256_VERIFY_COST_GAS :: nat where "P256_VERIFY_COST_GAS \<equiv> 6900"
abbreviation (input) TOTAL_COST_FLOOR_PER_TOKEN_GAS :: nat where "TOTAL_COST_FLOOR_PER_TOKEN_GAS \<equiv> 10"
abbreviation (input) TOTAL_COST_FLOOR_PER_TOKEN_AMSTERDAM_GAS :: nat where "TOTAL_COST_FLOOR_PER_TOKEN_AMSTERDAM_GAS \<equiv> 16"
abbreviation (input) SHA2_256_STATIC_COST_GAS :: nat where "SHA2_256_STATIC_COST_GAS \<equiv> 60"
abbreviation (input) SHA2_256_DYNAMIC_BASE_GAS :: nat where "SHA2_256_DYNAMIC_BASE_GAS \<equiv> 12"
abbreviation (input) RIPEMD_160_STATIC_COST_GAS :: nat where "RIPEMD_160_STATIC_COST_GAS \<equiv> 600"
abbreviation (input) RIPEMD_160_DYNAMIC_BASE_GAS :: nat where "RIPEMD_160_DYNAMIC_BASE_GAS \<equiv> 120"
abbreviation (input) IDENTITY_STATIC_COST_GAS :: nat where "IDENTITY_STATIC_COST_GAS \<equiv> 15"
abbreviation (input) IDENTITY_DYNAMIC_BASE_GAS :: nat where "IDENTITY_DYNAMIC_BASE_GAS \<equiv> 3"
abbreviation (input) MODEXP_STATIC_COST_GAS :: nat where "MODEXP_STATIC_COST_GAS \<equiv> 200"
abbreviation (input) MODEXP_DYNAMIC_QUOTIENT_GAS :: nat where "MODEXP_DYNAMIC_QUOTIENT_GAS \<equiv> 3"
abbreviation (input) MODEXP_EXPONENT_FACTOR_GAS :: nat where "MODEXP_EXPONENT_FACTOR_GAS \<equiv> 8"
abbreviation (input) MODEXP_STATIC_COST_OSAKA_GAS :: nat where "MODEXP_STATIC_COST_OSAKA_GAS \<equiv> 500"
abbreviation (input) MODEXP_DYNAMIC_QUOTIENT_OSAKA_GAS :: nat where "MODEXP_DYNAMIC_QUOTIENT_OSAKA_GAS \<equiv> 1"
abbreviation (input) MODEXP_EXPONENT_FACTOR_OSAKA_GAS :: nat where "MODEXP_EXPONENT_FACTOR_OSAKA_GAS \<equiv> 16"
abbreviation (input) ECADD_COST_GAS :: nat where "ECADD_COST_GAS \<equiv> 150"
abbreviation (input) ECMUL_COST_GAS :: nat where "ECMUL_COST_GAS \<equiv> 6000"
abbreviation (input) ECPAIRING_BASE_COST_GAS :: nat where "ECPAIRING_BASE_COST_GAS \<equiv> 45000"
abbreviation (input) ECPAIRING_GROUP_COST_GAS :: nat where "ECPAIRING_GROUP_COST_GAS \<equiv> 34000"
abbreviation (input) POINT_EVALUATION_COST_GAS :: nat where "POINT_EVALUATION_COST_GAS \<equiv> 50000"
abbreviation (input) BLAKE2F_ROUND_COST_GAS :: nat where "BLAKE2F_ROUND_COST_GAS \<equiv> 1"
abbreviation (input) BLS12_381_MSM_MULTIPLIER_GAS :: nat where "BLS12_381_MSM_MULTIPLIER_GAS \<equiv> 1000"
abbreviation (input) G1_MUL_COST_GAS :: nat where "G1_MUL_COST_GAS \<equiv> 12000"
abbreviation (input) G2_MUL_COST_GAS :: nat where "G2_MUL_COST_GAS \<equiv> 22500"

abbreviation (input) TX_BASE_COST :: nat where "TX_BASE_COST \<equiv> 21000"
abbreviation (input) TX_BASE_COST_AMSTERDAM :: nat where "TX_BASE_COST_AMSTERDAM \<equiv> 12000"

definition BLS12_381_G1_K_DISCOUNT :: "nat list" where
  "BLS12_381_G1_K_DISCOUNT =
     [1000, 949, 848, 797, 764, 750, 738, 728, 719, 712, 705, 698, 692, 687, 682, 677, 673, 669,
      665, 661, 658, 654, 651, 648, 645, 642, 640, 637, 635, 632, 630, 627, 625, 623, 621, 619, 617,
      615, 613, 611, 609, 608, 606, 604, 603, 601, 599, 598, 596, 595, 593, 592, 591, 589, 588, 586,
      585, 584, 582, 581, 580, 579, 577, 576, 575, 574, 573, 572, 570, 569, 568, 567, 566, 565, 564,
      563, 562, 561, 560, 559, 558, 557, 556, 555, 554, 553, 552, 551, 550, 549, 548, 547, 547, 546,
      545, 544, 543, 542, 541, 540, 540, 539, 538, 537, 536, 536, 535, 534, 533, 532, 532, 531, 530,
      529, 528, 528, 527, 526, 525, 525, 524, 523, 522, 522, 521, 520, 520, 519]"

definition BLS12_381_G2_K_DISCOUNT :: "nat list" where
  "BLS12_381_G2_K_DISCOUNT =
     [1000, 1000, 923, 884, 855, 832, 812, 796, 782, 770, 759, 749, 740, 732, 724, 717, 711, 704,
      699, 693, 688, 683, 679, 674, 670, 666, 663, 659, 655, 652, 649, 646, 643, 640, 637, 634, 632,
      629, 627, 624, 622, 620, 618, 615, 613, 611, 609, 607, 606, 604, 602, 600, 598, 597, 595, 593,
      592, 590, 589, 587, 586, 584, 583, 582, 580, 579, 578, 576, 575, 574, 573, 571, 570, 569, 568,
      567, 566, 565, 563, 562, 561, 560, 559, 558, 557, 556, 555, 554, 553, 552, 552, 551, 550, 549,
      548, 547, 546, 545, 545, 544, 543, 542, 541, 541, 540, 539, 538, 537, 537, 536, 535, 535, 534,
      533, 532, 532, 531, 530, 530, 529, 528, 528, 527, 526, 526, 525, 524, 524]"

datatype TxKind = TxCall address | TxCreate

section \<open>Costs by fork\<close>

definition cost_per_state_byte :: "nat \<Rightarrow> nat" where
  "cost_per_state_byte block_gas_limit = 1530"

definition tx_base_cost :: "Fork \<Rightarrow> nat" where
  "tx_base_cost f = (if f \<ge> Amsterdam then TX_BASE_COST_AMSTERDAM else TX_BASE_COST)"

definition cold_account_access_cost :: "Fork \<Rightarrow> nat" where
  "cold_account_access_cost f =
     (if f \<ge> Amsterdam then COLD_ACCOUNT_ACCESS_AMSTERDAM_GAS else COLD_ADDRESS_ACCESS_COST_GAS)"

definition cold_storage_access_cost :: "Fork \<Rightarrow> nat" where
  "cold_storage_access_cost f =
     (if f \<ge> Amsterdam then COLD_STORAGE_ACCESS_AMSTERDAM_GAS else SLOAD_COLD_DYNAMIC_GAS)"

definition access_list_address_cost :: "Fork \<Rightarrow> nat" where
  "access_list_address_cost f =
     (if f \<ge> Amsterdam then ACCESS_LIST_ADDRESS_COST_AMSTERDAM_GAS else ACCESS_LIST_ADDRESS_COST_GAS)"

definition access_list_storage_key_cost :: "Fork \<Rightarrow> nat" where
  "access_list_storage_key_cost f =
     (if f \<ge> Amsterdam then ACCESS_LIST_STORAGE_KEY_COST_AMSTERDAM_GAS else ACCESS_LIST_STORAGE_KEY_COST_GAS)"

definition call_positive_value_cost :: "Fork \<Rightarrow> nat" where
  "call_positive_value_cost f = (if f \<ge> Amsterdam then CALL_VALUE_AMSTERDAM_GAS else CALL_POSITIVE_VALUE_GAS)"

definition recipient_regular_gas :: "TxKind \<Rightarrow> u256 \<Rightarrow> address \<Rightarrow> Fork \<Rightarrow> nat" where
  "recipient_regular_gas to v sender f =
     (if f < Amsterdam then 0
      else if to = TxCall sender then 0
      else if to = TxCreate then CREATE_ACCESS_AMSTERDAM_GAS
      else if v = 0 then cold_account_access_cost f
      else cold_account_access_cost f + TX_VALUE_COST_AMSTERDAM_GAS)"

definition total_cost_floor_per_token :: "Fork \<Rightarrow> nat" where
  "total_cost_floor_per_token f =
     (if f \<ge> Amsterdam then TOTAL_COST_FLOOR_PER_TOKEN_AMSTERDAM_GAS else TOTAL_COST_FLOOR_PER_TOKEN_GAS)"

section \<open>Dynamic costs\<close>

abbreviation or_out_of_gas :: "'a option \<Rightarrow> vm_fail + 'a" where
  "or_out_of_gas x \<equiv> ok_or x (halt OutOfGas)"

text \<open>\<open>U256::bits\<close> and \<open>Natural::significant_bits\<close>: the length of the binary numeral.\<close>

fun bit_len :: "nat \<Rightarrow> nat" where
  "bit_len n = (if n = 0 then 0 else Suc (bit_len (n div 2)))"

declare bit_len.simps [simp del]

definition gas_exp :: "u256 \<Rightarrow> vm_fail + nat" where
  "gas_exp exponent =
     and_then (or_out_of_gas (checked_add (bit_len (unat exponent)) 7)) (\<lambda>bits.
     let exponent_byte_size = bits div 8 in
     and_then (or_out_of_gas (checked_mul EXP_DYNAMIC_BASE_GAS exponent_byte_size)) (\<lambda>exponent_byte_size_cost.
     or_out_of_gas (checked_add EXP_STATIC_GAS exponent_byte_size_cost)))"

definition copy_behavior :: "nat \<Rightarrow> nat \<Rightarrow> nat \<Rightarrow> nat \<Rightarrow> nat \<Rightarrow> vm_fail + nat" where
  "copy_behavior new_memory_size current_memory_size sz dynamic_base static_cost =
     and_then (or_out_of_gas (checked_add sz WORD_SIZE)) (\<lambda>t.
     let minimum_word_size = saturating_sub t 1 div WORD_SIZE;
         memory_expansion_cost = expansion_cost new_memory_size current_memory_size
     in and_then (or_out_of_gas (checked_mul dynamic_base minimum_word_size)) (\<lambda>minimum_word_size_cost.
        and_then (or_out_of_gas (checked_add static_cost minimum_word_size_cost)) (\<lambda>c.
        or_out_of_gas (checked_add c memory_expansion_cost))))"

definition gas_calldatacopy :: "nat \<Rightarrow> nat \<Rightarrow> nat \<Rightarrow> vm_fail + nat" where
  "gas_calldatacopy n c sz = copy_behavior n c sz CALLDATACOPY_DYNAMIC_BASE_GAS CALLDATACOPY_STATIC_GAS"

definition gas_codecopy :: "nat \<Rightarrow> nat \<Rightarrow> nat \<Rightarrow> vm_fail + nat" where
  "gas_codecopy n c sz = copy_behavior n c sz CODECOPY_DYNAMIC_BASE_GAS CODECOPY_STATIC_GAS"

definition gas_returndatacopy :: "nat \<Rightarrow> nat \<Rightarrow> nat \<Rightarrow> vm_fail + nat" where
  "gas_returndatacopy n c sz = copy_behavior n c sz RETURNDATACOPY_DYNAMIC_BASE_GAS RETURNDATACOPY_STATIC_GAS"

definition gas_framedatacopy :: "nat \<Rightarrow> nat \<Rightarrow> nat \<Rightarrow> vm_fail + nat" where
  "gas_framedatacopy n c sz = copy_behavior n c sz FRAMEDATACOPY_DYNAMIC_BASE_GAS FRAMEDATACOPY_STATIC_GAS"

definition gas_keccak256 :: "nat \<Rightarrow> nat \<Rightarrow> nat \<Rightarrow> vm_fail + nat" where
  "gas_keccak256 n c sz = copy_behavior n c sz KECCAK25_DYNAMIC_BASE_GAS KECCAK25_STATIC_GAS"

definition gas_exit_opcode :: "nat \<Rightarrow> nat \<Rightarrow> vm_fail + nat" where
  "gas_exit_opcode n c = Inr (expansion_cost n c)"

definition gas_log :: "nat \<Rightarrow> nat \<Rightarrow> nat \<Rightarrow> nat \<Rightarrow> vm_fail + nat" where
  "gas_log new_memory_size current_memory_size sz number_of_topics =
     (let memory_expansion_cost = expansion_cost new_memory_size current_memory_size in
      and_then (or_out_of_gas (checked_mul LOGN_DYNAMIC_BASE_GAS number_of_topics)) (\<lambda>topics_cost.
      and_then (or_out_of_gas (checked_mul LOGN_DYNAMIC_BYTE_BASE_GAS sz)) (\<lambda>bytes_cost.
      and_then (or_out_of_gas (checked_add topics_cost LOGN_STATIC_GAS)) (\<lambda>c.
      and_then (or_out_of_gas (checked_add c bytes_cost)) (\<lambda>c.
      or_out_of_gas (checked_add c memory_expansion_cost))))))"

definition mem_expansion_behavior :: "nat \<Rightarrow> nat \<Rightarrow> nat \<Rightarrow> vm_fail + nat" where
  "mem_expansion_behavior n c static_cost = or_out_of_gas (checked_add static_cost (expansion_cost n c))"

definition gas_mload :: "nat \<Rightarrow> nat \<Rightarrow> vm_fail + nat" where
  "gas_mload n c = mem_expansion_behavior n c MLOAD_STATIC_GAS"

definition gas_mstore :: "nat \<Rightarrow> nat \<Rightarrow> vm_fail + nat" where
  "gas_mstore n c = mem_expansion_behavior n c MSTORE_STATIC_GAS"

definition gas_mstore8 :: "nat \<Rightarrow> nat \<Rightarrow> vm_fail + nat" where
  "gas_mstore8 n c = mem_expansion_behavior n c MSTORE8_STATIC_GAS"

definition gas_sload :: "bool \<Rightarrow> Fork \<Rightarrow> vm_fail + nat" where
  "gas_sload storage_slot_was_cold f =
     or_out_of_gas (checked_add SLOAD_STATIC_GAS
       (if storage_slot_was_cold then cold_storage_access_cost f else SLOAD_WARM_DYNAMIC_GAS))"

definition gas_sstore :: "u256 \<Rightarrow> u256 \<Rightarrow> u256 \<Rightarrow> bool \<Rightarrow> Fork \<Rightarrow> vm_fail + nat" where
  "gas_sstore original_value current_value new_value storage_slot_was_cold f =
     (if f \<ge> Amsterdam then
        let access = (if storage_slot_was_cold then cold_storage_access_cost f else SSTORE_DEFAULT_DYNAMIC_GAS);
            write = (if current_value = original_value \<and> new_value \<noteq> current_value then STORAGE_WRITE_AMSTERDAM_GAS
                     else 0)
        in and_then (or_out_of_gas (checked_add SSTORE_STATIC_GAS access)) (\<lambda>c. or_out_of_gas (checked_add c write))
      else
        let base_dynamic_gas =
              (if new_value = current_value then SSTORE_DEFAULT_DYNAMIC_GAS
               else if current_value = original_value then
                 (if original_value = 0 then SSTORE_STORAGE_CREATION_GAS else SSTORE_STORAGE_MODIFICATION_GAS)
               else SSTORE_DEFAULT_DYNAMIC_GAS)
        in and_then (if storage_slot_was_cold
                     then or_out_of_gas (checked_add base_dynamic_gas (cold_storage_access_cost f))
                     else Inr base_dynamic_gas) (\<lambda>base_dynamic_gas.
           or_out_of_gas (checked_add SSTORE_STATIC_GAS base_dynamic_gas)))"

definition gas_mcopy :: "nat \<Rightarrow> nat \<Rightarrow> nat \<Rightarrow> vm_fail + nat" where
  "gas_mcopy new_memory_size current_memory_size sz =
     and_then (or_out_of_gas (checked_add sz WORD_SIZE)) (\<lambda>t.
     let words_copied = saturating_sub t 1 div WORD_SIZE;
         memory_expansion_cost = expansion_cost new_memory_size current_memory_size
     in and_then (or_out_of_gas (checked_mul MCOPY_DYNAMIC_BASE_GAS words_copied)) (\<lambda>copied_words_cost.
        and_then (or_out_of_gas (checked_add MCOPY_STATIC_GAS copied_words_cost)) (\<lambda>c.
        or_out_of_gas (checked_add c memory_expansion_cost))))"

definition compute_gas_create :: "nat \<Rightarrow> nat \<Rightarrow> nat \<Rightarrow> bool \<Rightarrow> Fork \<Rightarrow> vm_fail + nat" where
  "compute_gas_create new_memory_size current_memory_size code_size_in_memory is_create_2 f =
     and_then (or_out_of_gas (checked_add code_size_in_memory 31)) (\<lambda>t.
     let minimum_word_size = t div 32 in
     and_then (if f \<ge> Shanghai then or_out_of_gas (checked_mul minimum_word_size INIT_CODE_WORD_COST_GAS)
               else Inr 0) (\<lambda>init_code_cost.
     let memory_expansion_cost = expansion_cost new_memory_size current_memory_size in
     and_then (if is_create_2 then or_out_of_gas (checked_mul minimum_word_size KECCAK25_DYNAMIC_BASE_GAS)
               else Inr 0) (\<lambda>hash_cost.
     let create_base_cost = (if f \<ge> Amsterdam then CREATE_ACCESS_AMSTERDAM_GAS else CREATE_BASE_COST_GAS) in
     and_then (or_out_of_gas (checked_add memory_expansion_cost init_code_cost)) (\<lambda>c.
     and_then (or_out_of_gas (checked_add c create_base_cost)) (\<lambda>c.
     or_out_of_gas (checked_add c hash_cost))))))"

definition gas_create :: "nat \<Rightarrow> nat \<Rightarrow> nat \<Rightarrow> Fork \<Rightarrow> vm_fail + nat" where
  "gas_create n c code_size f = compute_gas_create n c code_size False f"

definition gas_create_2 :: "nat \<Rightarrow> nat \<Rightarrow> nat \<Rightarrow> Fork \<Rightarrow> vm_fail + nat" where
  "gas_create_2 n c code_size f = compute_gas_create n c code_size True f"

definition selfdestruct_base :: "bool \<Rightarrow> Fork \<Rightarrow> vm_fail + nat" where
  "selfdestruct_base address_was_cold f =
     or_out_of_gas (checked_add SELFDESTRUCT_STATIC_GAS (if address_was_cold then cold_account_access_cost f else 0))"

definition gas_selfdestruct :: "bool \<Rightarrow> bool \<Rightarrow> u256 \<Rightarrow> Fork \<Rightarrow> vm_fail + nat" where
  "gas_selfdestruct address_was_cold account_is_empty balance_to_transfer f =
     (let dynamic_cost = (if address_was_cold then cold_account_access_cost f else 0) in
      and_then (if account_is_empty \<and> balance_to_transfer > 0 then
                  (if f \<ge> Amsterdam then or_out_of_gas (checked_add dynamic_cost ACCOUNT_WRITE_AMSTERDAM_GAS)
                   else or_out_of_gas (checked_add dynamic_cost SELFDESTRUCT_DYNAMIC_GAS))
                else Inr dynamic_cost) (\<lambda>dynamic_cost.
      or_out_of_gas (checked_add SELFDESTRUCT_STATIC_GAS dynamic_cost)))"

definition tx_calldata :: "bytes \<Rightarrow> vm_fail + nat" where
  "tx_calldata calldata =
     (let len = length calldata;
          non_zero_bytes = length (filter (\<lambda>byte. byte \<noteq> 0) calldata);
          zero_bytes = saturating_sub len non_zero_bytes
      in and_then (or_out_of_gas (checked_mul non_zero_bytes CALLDATA_COST_NON_ZERO_BYTE_GAS)) (\<lambda>non_zero_cost.
         and_then (or_out_of_gas (checked_mul zero_bytes CALLDATA_COST_ZERO_BYTE_GAS)) (\<lambda>zero_cost.
         or_out_of_gas (checked_add non_zero_cost zero_cost))))"

definition access_list_bytes :: "access_list \<Rightarrow> nat" where
  "access_list_bytes al =
     foldl (\<lambda>b (a, keys). saturating_add (saturating_add b 20) (saturating_mul 32 (length keys))) 0 al"

definition floor_tokens_in_access_list :: "access_list \<Rightarrow> nat" where
  "floor_tokens_in_access_list al = saturating_mul (access_list_bytes al) STANDARD_TOKEN_COST_GAS"

definition address_access_cost :: "bool \<Rightarrow> nat \<Rightarrow> nat \<Rightarrow> nat \<Rightarrow> Fork \<Rightarrow> vm_fail + nat" where
  "address_access_cost address_was_cold static_cost cold_dynamic_cost warm_dynamic_cost f =
     or_out_of_gas (checked_add static_cost
       (if address_was_cold then cold_account_access_cost f else warm_dynamic_cost))"

definition gas_balance :: "bool \<Rightarrow> Fork \<Rightarrow> vm_fail + nat" where
  "gas_balance cold f = address_access_cost cold BALANCE_STATIC_GAS BALANCE_COLD_DYNAMIC_GAS BALANCE_WARM_DYNAMIC_GAS f"

definition gas_extcodesize :: "bool \<Rightarrow> Fork \<Rightarrow> vm_fail + nat" where
  "gas_extcodesize cold f =
     and_then (address_access_cost cold EXTCODESIZE_STATIC_GAS EXTCODESIZE_COLD_DYNAMIC_GAS EXTCODESIZE_WARM_DYNAMIC_GAS f)
       (\<lambda>access_cost. or_out_of_gas (checked_add access_cost (if f \<ge> Amsterdam then WARM_ADDRESS_ACCESS_COST_GAS else 0)))"

definition gas_extcodecopy :: "nat \<Rightarrow> nat \<Rightarrow> nat \<Rightarrow> bool \<Rightarrow> Fork \<Rightarrow> vm_fail + nat" where
  "gas_extcodecopy sz new_memory_size current_memory_size cold f =
     and_then (copy_behavior new_memory_size current_memory_size sz EXTCODECOPY_DYNAMIC_BASE_GAS EXTCODECOPY_STATIC_GAS)
       (\<lambda>base_access_cost.
     and_then (address_access_cost cold EXTCODECOPY_STATIC_GAS EXTCODECOPY_COLD_DYNAMIC_GAS EXTCODECOPY_WARM_DYNAMIC_GAS f)
       (\<lambda>expansion_access_cost.
     let extra = (if f \<ge> Amsterdam then WARM_ADDRESS_ACCESS_COST_GAS else 0) in
     and_then (or_out_of_gas (checked_add base_access_cost expansion_access_cost)) (\<lambda>c.
     or_out_of_gas (checked_add c extra))))"

definition gas_extcodehash :: "bool \<Rightarrow> Fork \<Rightarrow> vm_fail + nat" where
  "gas_extcodehash cold f =
     address_access_cost cold EXTCODEHASH_STATIC_GAS EXTCODEHASH_COLD_DYNAMIC_GAS EXTCODEHASH_WARM_DYNAMIC_GAS f"

section \<open>Calls\<close>

definition calculate_cost_and_gas_limit_call :: "bool \<Rightarrow> u256 \<Rightarrow> nat \<Rightarrow> nat \<Rightarrow> nat \<Rightarrow> vm_fail + nat \<times> nat" where
  "calculate_cost_and_gas_limit_call value_is_zero gas_from_stack gas_left call_gas_costs stipend =
     (let gas_stipend = (if value_is_zero then 0 else stipend) in
      and_then (or_out_of_gas (checked_sub gas_left call_gas_costs)) (\<lambda>gas_left.
      and_then (or_out_of_gas (checked_sub gas_left (gas_left div 64))) (\<lambda>max_gas_for_call.
      let gas = unat (min gas_from_stack (word_of_nat max_gas_for_call)) in
      and_then (if gas < 2 ^ 64 then Inr gas else Inl (halt OutOfGas)) (\<lambda>gas.
      and_then (or_out_of_gas (checked_add gas call_gas_costs)) (\<lambda>cost.
      and_then (or_out_of_gas (checked_add gas gas_stipend)) (\<lambda>gas_limit.
      Inr (cost, gas_limit)))))))"

definition gas_call :: "nat \<Rightarrow> nat \<Rightarrow> bool \<Rightarrow> bool \<Rightarrow> u256 \<Rightarrow> u256 \<Rightarrow> nat \<Rightarrow> Fork \<Rightarrow> vm_fail + nat \<times> nat" where
  "gas_call new_memory_size current_memory_size address_was_cold address_is_empty value_to_transfer gas_from_stack gas_left f =
     (let memory_expansion_cost = expansion_cost new_memory_size current_memory_size in
      and_then (address_access_cost address_was_cold CALL_STATIC_GAS CALL_COLD_DYNAMIC_GAS CALL_WARM_DYNAMIC_GAS f)
        (\<lambda>access_cost.
      let positive_value_cost = (if value_to_transfer \<noteq> 0 then call_positive_value_cost f else 0);
          value_to_empty_account =
            (if address_is_empty \<and> value_to_transfer \<noteq> 0 \<and> f < Amsterdam then CALL_TO_EMPTY_ACCOUNT_GAS else 0)
      in and_then (or_out_of_gas (checked_add memory_expansion_cost access_cost)) (\<lambda>c.
         and_then (or_out_of_gas (checked_add c positive_value_cost)) (\<lambda>c.
         and_then (or_out_of_gas (checked_add c value_to_empty_account)) (\<lambda>call_gas_costs.
         calculate_cost_and_gas_limit_call (value_to_transfer = 0) gas_from_stack gas_left call_gas_costs
           CALL_POSITIVE_VALUE_STIPEND_GAS)))))"

definition gas_callcode :: "nat \<Rightarrow> nat \<Rightarrow> bool \<Rightarrow> u256 \<Rightarrow> u256 \<Rightarrow> nat \<Rightarrow> Fork \<Rightarrow> vm_fail + nat \<times> nat" where
  "gas_callcode new_memory_size current_memory_size address_was_cold value_to_transfer gas_from_stack gas_left f =
     (let memory_expansion_cost = expansion_cost new_memory_size current_memory_size in
      and_then (address_access_cost address_was_cold DELEGATECALL_STATIC_GAS DELEGATECALL_COLD_DYNAMIC_GAS DELEGATECALL_WARM_DYNAMIC_GAS f)
        (\<lambda>access_cost.
      let positive_value_cost = (if value_to_transfer \<noteq> 0 then call_positive_value_cost f else 0)
      in and_then (or_out_of_gas (checked_add memory_expansion_cost access_cost)) (\<lambda>c.
         and_then (or_out_of_gas (checked_add c positive_value_cost)) (\<lambda>call_gas_costs.
         calculate_cost_and_gas_limit_call (value_to_transfer = 0) gas_from_stack gas_left call_gas_costs
           CALLCODE_POSITIVE_VALUE_STIPEND_GAS))))"

definition gas_delegatecall :: "nat \<Rightarrow> nat \<Rightarrow> bool \<Rightarrow> u256 \<Rightarrow> nat \<Rightarrow> Fork \<Rightarrow> vm_fail + nat \<times> nat" where
  "gas_delegatecall new_memory_size current_memory_size address_was_cold gas_from_stack gas_left f =
     (let memory_expansion_cost = expansion_cost new_memory_size current_memory_size in
      and_then (address_access_cost address_was_cold DELEGATECALL_STATIC_GAS DELEGATECALL_COLD_DYNAMIC_GAS DELEGATECALL_WARM_DYNAMIC_GAS f)
        (\<lambda>access_cost.
      and_then (or_out_of_gas (checked_add memory_expansion_cost access_cost)) (\<lambda>call_gas_costs.
      calculate_cost_and_gas_limit_call True gas_from_stack gas_left call_gas_costs 0)))"

definition gas_staticcall :: "nat \<Rightarrow> nat \<Rightarrow> bool \<Rightarrow> u256 \<Rightarrow> nat \<Rightarrow> Fork \<Rightarrow> vm_fail + nat \<times> nat" where
  "gas_staticcall new_memory_size current_memory_size address_was_cold gas_from_stack gas_left f =
     (let memory_expansion_cost = expansion_cost new_memory_size current_memory_size in
      and_then (address_access_cost address_was_cold STATICCALL_STATIC_GAS STATICCALL_COLD_DYNAMIC_GAS STATICCALL_WARM_DYNAMIC_GAS f)
        (\<lambda>access_cost.
      and_then (or_out_of_gas (checked_add memory_expansion_cost access_cost)) (\<lambda>call_gas_costs.
      calculate_cost_and_gas_limit_call True gas_from_stack gas_left call_gas_costs 0)))"

text \<open>\<open>i64\<close> division truncates; \<open>as u64\<close> keeps the bits.\<close>

definition max_message_call_gas :: "int \<Rightarrow> vm_fail + nat" where
  "max_message_call_gas gas_remaining =
     (let remaining_gas = wrap_i64 (gas_remaining - sgn gas_remaining * (\<bar>gas_remaining\<bar> div 64))
      in Inr (nat (remaining_gas mod 2 ^ 64)))"

section \<open>Precompiles\<close>

definition gas_precompile :: "nat \<Rightarrow> nat \<Rightarrow> nat \<Rightarrow> vm_fail + nat" where
  "gas_precompile data_size static_cost dynamic_base =
     and_then (or_out_of_gas (checked_add data_size (32 - 1))) (\<lambda>t.
     let data_word_cost = t div 32 in
     and_then (or_out_of_gas (checked_mul dynamic_base data_word_cost)) (\<lambda>dynamic_gas.
     or_out_of_gas (checked_add static_cost dynamic_gas)))"

definition gas_sha2_256 :: "nat \<Rightarrow> vm_fail + nat" where
  "gas_sha2_256 data_size = gas_precompile data_size SHA2_256_STATIC_COST_GAS SHA2_256_DYNAMIC_BASE_GAS"

definition gas_ripemd_160 :: "nat \<Rightarrow> vm_fail + nat" where
  "gas_ripemd_160 data_size = gas_precompile data_size RIPEMD_160_STATIC_COST_GAS RIPEMD_160_DYNAMIC_BASE_GAS"

definition gas_identity :: "nat \<Rightarrow> vm_fail + nat" where
  "gas_identity data_size = gas_precompile data_size IDENTITY_STATIC_COST_GAS IDENTITY_DYNAMIC_BASE_GAS"

definition checked_pow2 :: "nat \<Rightarrow> nat option" where
  "checked_pow2 a = checked_mul a a"

definition gas_modexp :: "nat \<Rightarrow> nat \<Rightarrow> nat \<Rightarrow> nat \<Rightarrow> Fork \<Rightarrow> vm_fail + nat" where
  "gas_modexp exponent_first_32_bytes base_size exponent_size modulus_size f =
     (let max_length = max base_size modulus_size in
      and_then (or_out_of_gas (checked_add max_length 7)) (\<lambda>t.
      let words = t div 8 in
      and_then
        (if f \<ge> Osaka then
           (if max_length > 32 then
              and_then (or_out_of_gas (checked_pow2 words)) (\<lambda>sq. or_out_of_gas (checked_mul 2 sq))
            else Inr 16)
         else or_out_of_gas (checked_pow2 words)) (\<lambda>multiplication_complexity.
      let modexp_exponent_factor =
            (if f \<ge> Osaka then MODEXP_EXPONENT_FACTOR_OSAKA_GAS else MODEXP_EXPONENT_FACTOR_GAS)
      in and_then
        (if exponent_size \<le> 32 \<and> exponent_first_32_bytes \<noteq> 0 then
           ok_or (checked_sub (bit_len exponent_first_32_bytes) 1) (internal Underflow)
         else if exponent_size > 32 then
           and_then (ok_or (checked_sub exponent_size 32) (internal Underflow)) (\<lambda>e.
           and_then (or_out_of_gas (checked_mul e modexp_exponent_factor)) (\<lambda>extra_size.
           and_then (or_out_of_gas (checked_add extra_size (max (bit_len exponent_first_32_bytes) 1))) (\<lambda>t.
           ok_or (checked_sub t 1) (internal Underflow))))
         else Inr 0) (\<lambda>count.
      let calculate_iteration_count = max count 1;
          modexp_static_cost = (if f \<ge> Osaka then MODEXP_STATIC_COST_OSAKA_GAS else MODEXP_STATIC_COST_GAS);
          modexp_dynamic_quotient =
            (if f \<ge> Osaka then MODEXP_DYNAMIC_QUOTIENT_OSAKA_GAS else MODEXP_DYNAMIC_QUOTIENT_GAS)
      in and_then (or_out_of_gas (checked_mul multiplication_complexity calculate_iteration_count)) (\<lambda>product.
         Inr (max modexp_static_cost (product div modexp_dynamic_quotient)))))))"

definition gas_ecpairing :: "nat \<Rightarrow> vm_fail + nat" where
  "gas_ecpairing groups_number =
     and_then (or_out_of_gas (checked_mul groups_number ECPAIRING_GROUP_COST_GAS)) (\<lambda>groups_cost.
     or_out_of_gas (checked_add groups_cost ECPAIRING_BASE_COST_GAS))"

definition bls12_msm :: "nat \<Rightarrow> nat list \<Rightarrow> nat \<Rightarrow> vm_fail + nat" where
  "bls12_msm k discount_table mul_cost =
     (if k = 0 then Inr 0
      else
        and_then
          (if k < length discount_table then
             and_then (ok_or (checked_sub k 1) (internal Underflow)) (\<lambda>i.
             if i < length discount_table then Inr (discount_table ! i) else Inl (internal Slicing))
           else if discount_table = [] then Inl (internal Slicing) else Inr (last discount_table)) (\<lambda>discount.
        and_then (ok_or (checked_mul k mul_cost) (halt VeryLargeNumber)) (\<lambda>c.
        and_then (ok_or (checked_mul c discount) (halt VeryLargeNumber)) (\<lambda>c.
        Inr (c div BLS12_381_MSM_MULTIPLIER_GAS)))))"

definition bls12_pairing_check :: "nat \<Rightarrow> vm_fail + nat" where
  "bls12_pairing_check k =
     and_then (ok_or (checked_mul k BLS12_PAIRING_CHECK_MUL_COST_GAS) (internal Overflow)) (\<lambda>c.
     ok_or (checked_add c BLS12_PAIRING_CHECK_FIXED_COST_GAS) (internal Overflow))"


section \<open>Exact costs\<close>

lemma checked_small: "a + b < 2 ^ 64 \<Longrightarrow> checked_add a b = Some (a + b)"
  "a * b < 2 ^ 64 \<Longrightarrow> checked_mul a b = Some (a * b)"
  "b \<le> a \<Longrightarrow> checked_sub a b = Some (a - b)"
  by (simp_all add: width_simps)

text \<open>Memory sizes that the virtual machine can reach are at most \<open>2^34\<close>.\<close>

definition grow :: "nat \<Rightarrow> nat \<Rightarrow> nat" where
  "grow n c = spec_cost n - spec_cost c"

lemma expansion_grow:
  assumes "n \<le> 2 ^ 34" "c \<le> 2 ^ 34"
  shows "expansion_cost n c = grow n c" "grow n c < 2 ^ 63"
  using expansion_cost_exact [OF assms] spec_cost_bound [OF assms(1)] by (simp_all add: grow_def)

definition words :: "nat \<Rightarrow> nat" where
  "words sz = (sz + 31) div 32"

lemma words_le: "sz \<le> 2 ^ 34 \<Longrightarrow> words sz \<le> 2 ^ 30"
  by (simp add: words_def)

lemma copy_behavior_exact:
  assumes "n \<le> 2 ^ 34" "c \<le> 2 ^ 34" "sz \<le> 2 ^ 34" "dyn \<le> 100" "st \<le> 1000"
  shows "copy_behavior n c sz dyn st = Inr (st + dyn * words sz + grow n c)"
proof -
  have w: "dyn * words sz \<le> 100 * 2 ^ 30" using words_le [OF assms(3)] assms(4) by (intro mult_le_mono) simp_all
  note g = expansion_grow [OF assms(1,2)]
  have "checked_add sz WORD_SIZE = Some (sz + 32)" using assms(3) by (simp add: WORD_SIZE_def checked_add_def)
  moreover have "saturating_sub (sz + 32) 1 div WORD_SIZE = words sz" by (simp add: saturating_sub_def WORD_SIZE_def words_def)
  moreover have "checked_mul dyn (words sz) = Some (dyn * words sz)" using w by (simp add: checked_mul_def)
  moreover have "checked_add st (dyn * words sz) = Some (st + dyn * words sz)" using w assms(5) by (simp add: checked_add_def)
  moreover have "checked_add (st + dyn * words sz) (grow n c) = Some (st + dyn * words sz + grow n c)"
    using w assms(5) g(2) by (simp add: checked_add_def)
  ultimately show ?thesis by (simp add: copy_behavior_def g(1) Let_def)
qed

lemma call_split_exact:
  assumes "gas_left < 2 ^ 64" "stipend \<le> 2300" "\<not> z \<Longrightarrow> 2300 \<le> costs"
  shows "calculate_cost_and_gas_limit_call z g gas_left costs stipend =
    (if gas_left < costs then Inl (halt OutOfGas)
     else let avail = gas_left - costs; gas = min (unat g) (avail - avail div 64)
          in Inr (costs + gas, gas + (if z then 0 else stipend)))"
proof (cases "gas_left < costs")
  case True
  then show ?thesis by (simp add: calculate_cost_and_gas_limit_call_def checked_sub_def)
next
  case False
  define avail m where "avail = gas_left - costs" and "m = avail - avail div 64"
  have m: "m \<le> avail" "avail < 2 ^ 64" using assms(1) by (simp_all add: m_def avail_def)
  have f1: "unat (min g (word_of_nat m)) = min (unat g) m"
    using m by (auto simp: min_def word_le_nat_alt unat_of_nat)
  have f2: "min (unat g) m + costs < 2 ^ 64" using m False assms(1) min.cobounded2 [of "unat g" m] unfolding avail_def by linarith
  have f3: "min (unat g) m + (if z then 0 else stipend) < 2 ^ 64"
  proof -
    have "min (unat g) m \<le> gas_left - costs" using m(1) by (simp add: avail_def)
    moreover have "(if z then 0 else stipend) \<le> costs" using assms(2,3) by (cases z) simp_all
    ultimately show ?thesis using assms(1) False by linarith
  qed
  have s1: "checked_sub gas_left costs = Some avail" and s2: "checked_sub avail (avail div 64) = Some m"
    using False by (simp_all add: checked_sub_def avail_def m_def)
  have "min (unat g) m < 2 ^ 64" using m by (simp add: min_def)
  then show ?thesis unfolding calculate_cost_and_gas_limit_call_def Let_def using False f1 f2 f3
    by (simp add: s1 s2 checked_small(1,2) avail_def [symmetric] m_def [symmetric] add.commute)
qed

lemma access_cost_le: "cold_account_access_cost f \<le> 3000" "cold_storage_access_cost f \<le> 2100"
  "call_positive_value_cost f \<le> 11300" "9000 \<le> call_positive_value_cost f"
  by (simp_all add: cold_account_access_cost_def cold_storage_access_cost_def call_positive_value_cost_def)

definition access :: "bool \<Rightarrow> Fork \<Rightarrow> nat" where
  "access cold f = (if cold then cold_account_access_cost f else 100)"

lemma access_le: "access cold f \<le> 3000"
  using access_cost_le(1) [of f] by (simp add: access_def)

lemma address_access_exact: "w = 100 \<Longrightarrow> address_access_cost cold 0 k w f = Inr (access cold f)"
  using access_cost_le(1) [of f] by (simp add: address_access_cost_def access_def checked_add_def)

text \<open>The specification of EIP-150: all but a 64th of what is left after the base cost can be given to the callee.\<close>

definition eip150 :: "nat \<Rightarrow> nat \<Rightarrow> nat \<Rightarrow> nat \<Rightarrow> vm_fail + nat \<times> nat" where
  "eip150 base requested gas_left stipend =
     (if gas_left < base then Inl (halt OutOfGas)
      else let avail = gas_left - base; gas = min requested (avail - avail div 64)
           in Inr (base + gas, gas + stipend))"

text \<open>
  C16: the four call opcodes are charged memory expansion, account access and, where value moves, the
  transfer (and before Amsterdam the new-account charge), plus the gas given to the callee, which is what the
  caller asked for but at most all but a 64th of the rest; the stipend is on top of it.  None of the checked sums
  overflows: the only failure is that the base cost exceeds the gas left.
\<close>

theorem call_gas_exact:
  assumes "n \<le> 2 ^ 34" "c \<le> 2 ^ 34" "gas_left < 2 ^ 64"
    and v_cost_def: "v_cost = (if v \<noteq> 0 then call_positive_value_cost f else 0)"
  shows "gas_call n c cold emp v g gas_left f =
      eip150 (grow n c + access cold f + v_cost + (if emp \<and> v \<noteq> 0 \<and> f < Amsterdam then 25000 else 0))
        (unat g) gas_left (if v = 0 then 0 else 2300) \<and>
    gas_callcode n c cold v g gas_left f =
      eip150 (grow n c + access cold f + v_cost) (unat g) gas_left (if v = 0 then 0 else 2300) \<and>
    gas_delegatecall n c cold g gas_left f = eip150 (grow n c + access cold f) (unat g) gas_left 0 \<and>
    gas_staticcall n c cold g gas_left f = eip150 (grow n c + access cold f) (unat g) gas_left 0"
proof -
  note e = expansion_grow [OF assms(1,2)]
  have v: "v_cost \<le> 11300" "v \<noteq> 0 \<Longrightarrow> 9000 \<le> v_cost" using access_cost_le [of f] by (simp_all add: v_cost_def)
  have a: "grow n c + access cold f < 2 ^ 64" "grow n c + access cold f + v_cost < 2 ^ 64"
    "grow n c + access cold f + v_cost + (if emp \<and> v \<noteq> 0 \<and> f < Amsterdam then 25000 else 0) < 2 ^ 64"
    using e(2) access_le [of cold f] v(1) by auto
  have split: "calculate_cost_and_gas_limit_call (v = 0) g gas_left costs 2300 =
      eip150 costs (unat g) gas_left (if v = 0 then 0 else 2300)" if "v_cost \<le> costs" for costs
    using call_split_exact [OF assms(3), of 2300 "v = 0" costs g] v(2) that by (auto simp: eip150_def Let_def)
  have split0: "calculate_cost_and_gas_limit_call True g gas_left costs 0 = eip150 costs (unat g) gas_left 0" for costs
    using call_split_exact [OF assms(3), of 0 True costs g] by (simp add: eip150_def Let_def)
  show ?thesis
    using a unfolding gas_call_def gas_callcode_def gas_delegatecall_def gas_staticcall_def Let_def e(1) v_cost_def [symmetric]
    by (simp add: address_access_exact checked_small split split0)
qed

theorem call_gas_exact_witness:
  "gas_call 64 0 True False 1 100000 50000 Prague = Inr (6 + 2600 + 9000 + 37795, 37795 + 2300)"
  using call_gas_exact [of 64 0 50000 9000 1 Prague True False 100000]
  by (simp add: eip150_def grow_def spec_cost_def access_def cold_account_access_cost_def call_positive_value_cost_def
      less_eq_Fork_def less_Fork_def)

lemma bit_len_le: "n < 2 ^ k \<Longrightarrow> bit_len n \<le> k"
proof (induction k arbitrary: n)
  case 0
  then show ?case by (simp add: bit_len.simps)
next
  case (Suc k)
  then have "bit_len (n div 2) \<le> k" by (simp add: less_mult_imp_div_less mult.commute)
  then show ?case by (simp add: bit_len.simps [of n])
qed

lemma log_exact:
  assumes "n \<le> 2 ^ 34" "c \<le> 2 ^ 34" "sz \<le> 2 ^ 34" "t \<le> 4"
  shows "gas_log n c sz t = Inr (375 * t + 375 + 8 * sz + grow n c)"
  using assms expansion_grow [OF assms(1,2)] by (simp add: gas_log_def checked_small Let_def)

lemma create_exact:
  assumes "n \<le> 2 ^ 34" "c \<le> 2 ^ 34" "sz \<le> 2 ^ 34"
  shows "compute_gas_create n c sz b f =
    Inr (grow n c + (if f \<ge> Shanghai then 2 * words sz else 0) + (if f \<ge> Amsterdam then 12000 else 32000) +
      (if b then 6 * words sz else 0))"
  using assms expansion_grow [OF assms(1,2)] words_le [OF assms(3)]
  by (simp add: compute_gas_create_def checked_small Let_def words_def)

text \<open>
  C17: for memory sizes and lengths the virtual machine can reach, the costs of the copying, hashing, logging,
  memory and create opcodes are the formulas of the protocol: no checked operation fails and nothing
  saturates.
\<close>

theorem opcode_gas_exact:
  assumes "n \<le> 2 ^ 34" "c \<le> 2 ^ 34" "sz \<le> 2 ^ 34" "t \<le> 4"
  shows "gas_calldatacopy n c sz = Inr (3 + 3 * words sz + grow n c) \<and>
    gas_codecopy n c sz = Inr (3 + 3 * words sz + grow n c) \<and>
    gas_returndatacopy n c sz = Inr (3 + 3 * words sz + grow n c) \<and>
    gas_framedatacopy n c sz = Inr (3 + 3 * words sz + grow n c) \<and>
    gas_mcopy n c sz = Inr (3 + 3 * words sz + grow n c) \<and>
    gas_keccak256 n c sz = Inr (30 + 6 * words sz + grow n c) \<and>
    gas_extcodecopy sz n c cold f = Inr (3 * words sz + grow n c + access cold f + (if f \<ge> Amsterdam then 100 else 0)) \<and>
    gas_log n c sz t = Inr (375 * t + 375 + 8 * sz + grow n c) \<and>
    gas_mload n c = Inr (3 + grow n c) \<and> gas_mstore n c = Inr (3 + grow n c) \<and> gas_mstore8 n c = Inr (3 + grow n c) \<and>
    gas_exit_opcode n c = Inr (grow n c) \<and>
    gas_exp e = Inr (10 + 50 * ((bit_len (unat e) + 7) div 8)) \<and>
    gas_create n c sz f =
      Inr (grow n c + (if f \<ge> Shanghai then 2 * words sz else 0) + (if f \<ge> Amsterdam then 12000 else 32000)) \<and>
    gas_create_2 n c sz f =
      Inr (grow n c + (if f \<ge> Shanghai then 2 * words sz else 0) + (if f \<ge> Amsterdam then 12000 else 32000) + 6 * words sz)"
proof -
  note cp = copy_behavior_exact [OF assms(1-3)]
  note e = expansion_grow [OF assms(1,2)]
  have w: "words sz \<le> 2 ^ 30" by (rule words_le [OF assms(3)])
  have m: "gas_mcopy n c sz = copy_behavior n c sz 3 3" by (simp add: gas_mcopy_def copy_behavior_def)
  have "checked_add (3 * words sz + grow n c) (access cold f) = Some (3 * words sz + grow n c + access cold f)"
    "checked_add (3 * words sz + grow n c + access cold f) (if f \<ge> Amsterdam then 100 else 0) =
       Some (3 * words sz + grow n c + access cold f + (if f \<ge> Amsterdam then 100 else 0))"
    using w e(2) access_le [of cold f] by (auto intro!: checked_small)
  moreover have "bit_len (unat e) \<le> 256" using unsigned_less [of e] by (intro bit_len_le) simp
  ultimately show ?thesis
    using e(2) unfolding gas_create_def gas_create_2_def create_exact [OF assms(1-3)] log_exact [OF assms]
      gas_calldatacopy_def gas_codecopy_def gas_returndatacopy_def gas_framedatacopy_def gas_keccak256_def m
      gas_extcodecopy_def gas_mload_def gas_mstore_def gas_mstore8_def mem_expansion_behavior_def gas_exit_opcode_def e(1)
      gas_exp_def
    by (simp add: cp address_access_exact checked_small)
qed


theorem opcode_gas_exact_witness:
  "gas_keccak256 64 32 33 = Inr (30 + 12 + 3) \<and> gas_log 64 32 33 2 = Inr (750 + 375 + 264 + 3) \<and>
   gas_create_2 64 32 33 Prague = Inr (3 + 4 + 32000 + 12)"
  using opcode_gas_exact [of 64 32 33 2 False Prague 0]
  by (simp add: grow_def spec_cost_def words_def less_eq_Fork_def)



section \<open>Precompile costs\<close>

definition modexp_complexity :: "Fork \<Rightarrow> nat \<Rightarrow> nat \<Rightarrow> nat" where
  "modexp_complexity f b m =
     (let len = max b m; w = (len + 7) div 8 in
      if f \<ge> Osaka then (if len > 32 then 2 * w\<^sup>2 else 16) else w\<^sup>2)"

definition modexp_iterations :: "Fork \<Rightarrow> nat \<Rightarrow> nat \<Rightarrow> nat" where
  "modexp_iterations f e head =
     max ((if e \<le> 32 then 0 else (if f \<ge> Osaka then 16 else 8) * (e - 32)) + (bit_len head - 1)) 1"

lemma bit_len_pos: "bit_len n = 0 \<longleftrightarrow> n = 0"
  by (simp add: bit_len.simps [of n])

lemma complexity_exact:
  assumes "b < 2 ^ 32" "m < 2 ^ 32"
  defines "w \<equiv> (max b m + 7) div 8"
  shows "checked_add (max b m) 7 = Some (max b m + 7)"
    "(if f \<ge> Osaka then
        (if max b m > 32 then and_then (or_out_of_gas (checked_pow2 w)) (\<lambda>sq. or_out_of_gas (checked_mul 2 sq))
         else Inr 16)
      else or_out_of_gas (checked_pow2 w)) = Inr (modexp_complexity f b m)"
proof -
  have len: "max b m + 7 < 2 ^ 33" using assms by (simp add: max_def)
  then have "w \<le> 2 ^ 33 div 8" unfolding w_def by (intro div_le_mono) simp
  then have "w * w \<le> 2 ^ 30 * 2 ^ 30" by (intro mult_le_mono) simp_all
  then show "(if f \<ge> Osaka then
        (if max b m > 32 then and_then (or_out_of_gas (checked_pow2 w)) (\<lambda>sq. or_out_of_gas (checked_mul 2 sq))
         else Inr 16)
      else or_out_of_gas (checked_pow2 w)) = Inr (modexp_complexity f b m)"
    by (auto simp: checked_pow2_def checked_small modexp_complexity_def Let_def power2_eq_square w_def [symmetric])
  show "checked_add (max b m) 7 = Some (max b m + 7)" using len by (intro checked_small) simp
qed

lemma iterations_exact:
  assumes "e < 2 ^ 32" "head < 2 ^ 256"
  shows "(if e \<le> 32 \<and> head \<noteq> 0 then ok_or (checked_sub (bit_len head) 1) (internal Underflow)
     else if e > 32 then
       and_then (ok_or (checked_sub e 32) (internal Underflow)) (\<lambda>d.
       and_then (or_out_of_gas (checked_mul d (if f \<ge> Osaka then 16 else 8))) (\<lambda>extra.
       and_then (or_out_of_gas (checked_add extra (max (bit_len head) 1))) (\<lambda>t.
       ok_or (checked_sub t 1) (internal Underflow))))
     else Inr 0) =
   Inr ((if e \<le> 32 then 0 else (if f \<ge> Osaka then 16 else 8) * (e - 32)) + (bit_len head - 1))"
proof -
  have l: "bit_len head \<le> 256" by (rule bit_len_le [OF assms(2)])
  show ?thesis
  proof (cases "e \<le> 32")
    case True
    then show ?thesis using bit_len_pos [of head] by (cases "head = 0") (simp_all add: checked_sub_def)
  next
    case False
    let ?x = "(e - 32) * (if f \<ge> Osaka then 16 else 8)"
    have "?x < 2 ^ 40" using assms(1) by auto
    moreover have "max (bit_len head) 1 \<le> 256" "1 \<le> max (bit_len head) 1" using l by simp_all
    ultimately have "checked_mul (e - 32) (if f \<ge> Osaka then 16 else 8) = Some ?x"
      "checked_add ?x (max (bit_len head) 1) = Some (?x + max (bit_len head) 1)"
      "checked_sub (?x + max (bit_len head) 1) 1 = Some (?x + (bit_len head - 1))"
      by (simp_all add: checked_add_def checked_mul_def checked_sub_def max_def)
    then show ?thesis using False by (simp add: checked_small(3) mult.commute)
  qed
qed

lemma linear_precompile:
  assumes "n < 2 ^ 32" "d \<le> 200" "st \<le> 1000"
  shows "gas_precompile n st d = Inr (st + d * words n)"
proof -
  have "words n \<le> 2 ^ 28" using assms(1) by (simp add: words_def)
  then have "d * words n \<le> 200 * 2 ^ 28" using assms(2) by (intro mult_le_mono) simp_all
  then show ?thesis using assms by (simp add: gas_precompile_def checked_small words_def)
qed

lemma msm_exact:
  assumes "length tbl = 128" "list_all (\<lambda>d. d \<le> 1000) tbl" "mul \<le> 22500" "n < 2 ^ 32"
  shows "bls12_msm n tbl mul = Inr (if n = 0 then 0 else n * mul * (tbl ! (min n 128 - 1)) div 1000)"
proof (cases "n = 0")
  case False
  define d where "d = tbl ! (min n 128 - 1)"
  have i: "min n 128 - 1 < length tbl" using assms(1) False by (auto simp: min_def)
  then have d: "d \<le> 1000" using assms(2) by (simp add: d_def list_all_length)
  have "(if n < length tbl then and_then (ok_or (checked_sub n 1) (internal Underflow)) (\<lambda>i.
             if i < length tbl then Inr (tbl ! i) else Inl (internal Slicing))
         else if tbl = [] then Inl (internal Slicing) else Inr (last tbl)) = Inr d"
  proof (cases "n < 128")
    case True
    then show ?thesis using assms(1) False by (simp add: checked_small(3) d_def min_def)
  next
    case False
    moreover have "tbl \<noteq> []" using assms(1) by auto
    ultimately show ?thesis using assms(1) by (simp add: d_def min_def last_conv_nth)
  qed
  moreover have nm: "n * mul \<le> 2 ^ 32 * 22500" using assms(3,4) by (intro mult_le_mono) simp_all
  moreover have "n * mul * d \<le> 2 ^ 32 * 22500 * 1000" using nm d by (rule mult_le_mono)
  ultimately show ?thesis using False by (simp add: bls12_msm_def checked_small d_def)
qed (simp add: bls12_msm_def)

lemma modexp_exact:
  assumes "b < 2 ^ 32" "e < 2 ^ 32" "m < 2 ^ 32" "head < 2 ^ 256"
  shows "gas_modexp head b e m f =
      (let p = modexp_complexity f b m * modexp_iterations f e head in
       if p < 2 ^ 64 then Inr (if f \<ge> Osaka then max 500 p else max 200 (p div 3)) else Inl (halt OutOfGas))"
proof -
  let ?p = "modexp_complexity f b m * modexp_iterations f e head"
  have "gas_modexp head b e m f = and_then (or_out_of_gas (checked_mul (modexp_complexity f b m) (modexp_iterations f e head)))
      (\<lambda>product. Inr (max (if f \<ge> Osaka then 500 else 200) (product div (if f \<ge> Osaka then 1 else 3))))"
    unfolding gas_modexp_def Let_def modexp_iterations_def
    by (simp only: complexity_exact(1) [OF assms(1,3)] complexity_exact(2) [OF assms(1,3)] iterations_exact [OF assms(2,4)]
        ok_or_simps and_then_Inr)
  then show ?thesis by (simp add: checked_mul_def Let_def)
qed



end
