(* ===== verification/Evm_Db.thy ===== *)
theory Evm_Db
  imports Evm_Substate Evm_Code_Blocks
begin

text \<open>
  Accounts as the virtual machine caches them: \<open>LevmAccount\<close> (\<open>src/crates/vm/levm/src/account.rs\<close>), the
  backups a call frame keeps of what it overwrites (\<open>CallFrameBackup\<close>, \<open>call_frame.rs\<close>) and
  \<open>GeneralizedDatabase\<close> (\<open>db/gen_db.rs\<close>) over the \<open>Database\<close> trait, which is a parameter: a record of the
  answers of its methods.  Hash maps are finite maps.  The access-list recorder and the lazy access-list
  cursor are optional fields that are \<open>None\<close> outside of block building and parallel execution; the model is of
  a database in which they are \<open>None\<close>.  Where a loop over a hash map produces a list, its order is an argument.
\<close>

section \<open>Accounts\<close>

definition EMPTY_KECCAK_HASH :: h256 where
  "EMPTY_KECCAK_HASH = 0xc5d2460186f7233c927e7db2dcc703c0e500b653ca82273b7bfad8045d85a470"

text \<open>The value of \<open>keccak([RLP_NULL])\<close>, the root of the empty trie.\<close>

definition EMPTY_TRIE_HASH :: h256 where
  "EMPTY_TRIE_HASH = 0x56e81f171bcc55a6ff8345e692c0f86e5b48e01b996cadc001622fb5e363b421"

record AccountInfo =
  info_code_hash :: h256
  balance :: u256
  nonce :: nat

record AccountState =
  state_nonce :: nat
  state_balance :: u256
  storage_root :: h256
  state_code_hash :: h256

definition AccountInfo_default :: AccountInfo where
  "AccountInfo_default = \<lparr> info_code_hash = EMPTY_KECCAK_HASH, balance = 0, nonce = 0 \<rparr>"

definition AccountState_default :: AccountState where
  "AccountState_default =
     \<lparr> state_nonce = 0, state_balance = 0, storage_root = EMPTY_TRIE_HASH, state_code_hash = EMPTY_KECCAK_HASH \<rparr>"

definition info_is_empty :: "AccountInfo \<Rightarrow> bool" where
  "info_is_empty i \<longleftrightarrow> balance i = 0 \<and> nonce i = 0 \<and> info_code_hash i = EMPTY_KECCAK_HASH"

datatype AccountStatus = Unmodified | Modified | Destroyed | DestroyedModified

record LevmAccount =
  info :: AccountInfo
  storage :: "(h256, u256) fmap"
  has_storage :: bool
  status :: AccountStatus
  exists :: bool

definition LevmAccount_default :: LevmAccount where
  "LevmAccount_default =
     \<lparr> info = AccountInfo_default, storage = fmempty, has_storage = False, status = Unmodified, exists = False \<rparr>"

definition from_account_state :: "AccountState \<Rightarrow> LevmAccount" where
  "from_account_state s =
     \<lparr> info = \<lparr> info_code_hash = state_code_hash s, balance = state_balance s, nonce = state_nonce s \<rparr>,
       storage = fmempty, has_storage = storage_root s \<noteq> EMPTY_TRIE_HASH, status = Unmodified,
       exists = s \<noteq> AccountState_default \<rparr>"

definition mark_destroyed :: "LevmAccount \<Rightarrow> LevmAccount" where
  "mark_destroyed a = a \<lparr> status := Destroyed \<rparr>"

definition mark_modified :: "LevmAccount \<Rightarrow> LevmAccount" where
  "mark_modified a =
     (let a = (if status a = Unmodified then a \<lparr> status := Modified \<rparr> else a);
          a = (if status a = Destroyed then a \<lparr> status := DestroyedModified \<rparr> else a)
      in a \<lparr> exists := True \<rparr>)"

definition has_nonce :: "LevmAccount \<Rightarrow> bool" where
  "has_nonce a \<longleftrightarrow> nonce (info a) \<noteq> 0"

definition has_code :: "LevmAccount \<Rightarrow> bool" where
  "has_code a \<longleftrightarrow> info_code_hash (info a) \<noteq> EMPTY_KECCAK_HASH"

definition create_would_collide :: "LevmAccount \<Rightarrow> bool" where
  "create_would_collide a \<longleftrightarrow> has_code a \<or> has_nonce a \<or> has_storage a"

definition account_is_empty :: "LevmAccount \<Rightarrow> bool" where
  "account_is_empty a = info_is_empty (info a)"

definition is_unmodified :: "LevmAccount \<Rightarrow> bool" where
  "is_unmodified a \<longleftrightarrow> status a = Unmodified"

definition clone_without_storage :: "LevmAccount \<Rightarrow> LevmAccount" where
  "clone_without_storage a = a \<lparr> storage := fmempty \<rparr>"

section \<open>Backups\<close>

type_synonym CacheDB = "(address, LevmAccount) fmap"

record CallFrameBackup =
  original_accounts_info :: CacheDB
  original_account_storage_slots :: "(address, (h256, u256) fmap) fmap"
  inserted_code_hashes :: "h256 list"

definition CallFrameBackup_default :: CallFrameBackup where
  "CallFrameBackup_default =
     \<lparr> original_accounts_info = fmempty, original_account_storage_slots = fmempty, inserted_code_hashes = [] \<rparr>"

text \<open>\<open>entry(k).or_insert(v)\<close>: the first value stays.\<close>

definition or_insert :: "'k \<Rightarrow> 'v \<Rightarrow> ('k, 'v) fmap \<Rightarrow> ('k, 'v) fmap" where
  "or_insert k v m = (case fmlookup m k of Some _ \<Rightarrow> m | None \<Rightarrow> fmupd k v m)"

definition or_empty :: "('k, 'v) fmap option \<Rightarrow> ('k, 'v) fmap" where
  "or_empty o' = (case o' of Some m \<Rightarrow> m | None \<Rightarrow> fmempty)"

definition backup_account_info :: "address \<Rightarrow> LevmAccount \<Rightarrow> CallFrameBackup \<Rightarrow> CallFrameBackup" where
  "backup_account_info a account b =
     b \<lparr> original_accounts_info :=
       or_insert a (account \<lparr> storage := fmempty \<rparr>) (original_accounts_info b) \<rparr>"

definition backup_slot :: "address \<Rightarrow> h256 \<Rightarrow> u256 \<Rightarrow> CallFrameBackup \<Rightarrow> CallFrameBackup" where
  "backup_slot a k v b =
     b \<lparr> original_account_storage_slots :=
       fmupd a (or_insert k v (or_empty (fmlookup (original_account_storage_slots b) a)))
         (original_account_storage_slots b) \<rparr>"

definition backup_clear :: "CallFrameBackup \<Rightarrow> CallFrameBackup" where
  "backup_clear b = CallFrameBackup_default"

text \<open>
  The three ways of combining backups.  For a key in both maps, \<open>extend\<close> keeps the value of \<open>other\<close>, \<open>absorb\<close>
  and the merge with the parent keep the value already there.
\<close>

definition backup_extend :: "CallFrameBackup \<Rightarrow> CallFrameBackup \<Rightarrow> CallFrameBackup" where
  "backup_extend b other =
     b \<lparr> original_account_storage_slots := original_account_storage_slots b ++\<^sub>f
           fmmap_keys (\<lambda>a slots. or_empty (fmlookup (original_account_storage_slots b) a) ++\<^sub>f slots)
             (original_account_storage_slots other),
         original_accounts_info := original_accounts_info b ++\<^sub>f original_accounts_info other,
         inserted_code_hashes := inserted_code_hashes b @ inserted_code_hashes other \<rparr>"

definition absorb :: "CallFrameBackup \<Rightarrow> CallFrameBackup \<Rightarrow> CallFrameBackup" where
  "absorb b other =
     b \<lparr> original_accounts_info := original_accounts_info other ++\<^sub>f original_accounts_info b,
         original_account_storage_slots := original_account_storage_slots b ++\<^sub>f
           fmmap_keys (\<lambda>a slots. slots ++\<^sub>f or_empty (fmlookup (original_account_storage_slots b) a))
             (original_account_storage_slots other) \<rparr>"

definition merge_backup :: "CallFrameBackup \<Rightarrow> CallFrameBackup \<Rightarrow> CallFrameBackup" where
  "merge_backup b child =
     b \<lparr> original_accounts_info := original_accounts_info child ++\<^sub>f original_accounts_info b,
         original_account_storage_slots := original_account_storage_slots b ++\<^sub>f
           fmmap_keys (\<lambda>a slots. slots ++\<^sub>f or_empty (fmlookup (original_account_storage_slots b) a))
             (original_account_storage_slots child),
         inserted_code_hashes := inserted_code_hashes b @ inserted_code_hashes child \<rparr>"

section \<open>The database\<close>

record Database =
  get_account_state :: "address \<Rightarrow> database_error + AccountState"
  store_storage_value :: "address \<Rightarrow> h256 \<Rightarrow> database_error + u256"
  get_block_hash :: "nat \<Rightarrow> database_error + h256"
  store_account_code :: "h256 \<Rightarrow> database_error + Code"
  store_code_metadata :: "h256 \<Rightarrow> database_error + nat"

record GeneralizedDatabase =
  store :: Database
  current_accounts_state :: CacheDB
  initial_accounts_state :: CacheDB
  shared_base :: "CacheDB option"
  codes :: "(h256, Code) fmap"
  code_metadata :: "(h256, nat) fmap"
  tx_backup :: "CallFrameBackup option"
  skip_initial_tracking :: bool
  accessed_accounts :: "address set option"

definition db_new :: "Database \<Rightarrow> GeneralizedDatabase" where
  "db_new st =
     \<lparr> store = st, current_accounts_state = fmempty, initial_accounts_state = fmempty, shared_base = None,
       codes = fmempty, code_metadata = fmempty, tx_backup = None, skip_initial_tracking = False,
       accessed_accounts = None \<rparr>"

definition new_with_shared_base :: "Database \<Rightarrow> CacheDB \<Rightarrow> GeneralizedDatabase" where
  "new_with_shared_base st base = (db_new st) \<lparr> shared_base := Some base, skip_initial_tracking := True \<rparr>"

text \<open>Errors of the store are converted by \<open>?\<close> to \<open>InternalError::Database\<close>.\<close>

definition from_store :: "database_error + 'a \<Rightarrow> vm_fail + 'a" where
  "from_store r = map_err (\<lambda>e. internal (Database e)) r"

definition cache_account :: "address \<Rightarrow> LevmAccount \<Rightarrow> GeneralizedDatabase \<Rightarrow> GeneralizedDatabase" where
  "cache_account a acc db = db \<lparr> current_accounts_state := fmupd a acc (current_accounts_state db) \<rparr>"

definition track_initial :: "address \<Rightarrow> LevmAccount \<Rightarrow> GeneralizedDatabase \<Rightarrow> GeneralizedDatabase" where
  "track_initial a acc db =
     (if skip_initial_tracking db then db
      else db \<lparr> initial_accounts_state := fmupd a acc (initial_accounts_state db) \<rparr>)"

definition load_account :: "address \<Rightarrow> (GeneralizedDatabase, LevmAccount) action" where
  "load_account a db0 =
     (let db = db0 \<lparr> accessed_accounts := map_option (insert a) (accessed_accounts db0) \<rparr> in
      case fmlookup (current_accounts_state db) a of
        Some acc \<Rightarrow> (Inr acc, db)
      | None \<Rightarrow>
        (case fmlookup (initial_accounts_state db) a of
           Some acc \<Rightarrow>
             let clone = (if status acc \<in> {Destroyed, DestroyedModified} then acc else clone_without_storage acc)
             in (Inr clone, cache_account a clone db)
         | None \<Rightarrow>
           (case Option.bind (shared_base db) (\<lambda>base. fmlookup base a) of
              Some acc \<Rightarrow> (Inr acc, cache_account a acc (track_initial a acc db))
            | None \<Rightarrow>
              (case from_store (get_account_state (store db) a) of
                 Inl e \<Rightarrow> (Inl e, db)
               | Inr state \<Rightarrow>
                   let acc = from_account_state state
                   in (Inr acc, cache_account a acc (track_initial a acc db))))))"

definition get_account :: "address \<Rightarrow> (GeneralizedDatabase, LevmAccount) action" where
  "get_account a = load_account a"

text \<open>
  \<open>get_account_mut\<close> returns a mutable reference: it takes the update the caller makes through it and gives
  the account with the update made.
\<close>

definition db_get_account_mut :: "address \<Rightarrow> (LevmAccount \<Rightarrow> LevmAccount) \<Rightarrow> (GeneralizedDatabase, LevmAccount) action" where
  "db_get_account_mut a upd =
     bind (load_account a) (\<lambda>acc.
       let acc' = upd (mark_modified acc) in bind (modify (cache_account a acc')) (\<lambda>_. ret acc'))"

definition get_code :: "h256 \<Rightarrow> (GeneralizedDatabase, Code) action" where
  "get_code h db =
     (case fmlookup (codes db) h of
        Some code \<Rightarrow> (Inr code, db)
      | None \<Rightarrow>
        (case from_store (store_account_code (store db) h) of
           Inl e \<Rightarrow> (Inl e, db)
         | Inr code \<Rightarrow> (Inr code, db \<lparr> codes := fmupd h code (codes db) \<rparr>)))"

definition get_account_code :: "address \<Rightarrow> (GeneralizedDatabase, Code) action" where
  "get_account_code a = bind (get_account a) (\<lambda>acc. get_code (info_code_hash (info acc)))"

definition get_code_metadata :: "h256 \<Rightarrow> (GeneralizedDatabase, nat) action" where
  "get_code_metadata h db =
     (case fmlookup (code_metadata db) h of
        Some n \<Rightarrow> (Inr n, db)
      | None \<Rightarrow>
        (case (case fmlookup (codes db) h of
                 Some code \<Rightarrow> Inr (code_len code)
               | None \<Rightarrow> from_store (store_code_metadata (store db) h)) of
           Inl e \<Rightarrow> (Inl e, db)
         | Inr n \<Rightarrow> (Inr n, db \<lparr> code_metadata := fmupd h n (code_metadata db) \<rparr>)))"

definition get_code_length :: "address \<Rightarrow> (GeneralizedDatabase, nat) action" where
  "get_code_length a =
     bind (get_account a) (\<lambda>acc.
       if info_code_hash (info acc) = EMPTY_KECCAK_HASH then ret 0
       else get_code_metadata (info_code_hash (info acc)))"

definition get_value_from_database :: "address \<Rightarrow> h256 \<Rightarrow> (GeneralizedDatabase, u256) action" where
  "get_value_from_database a k db =
     (case from_store (store_storage_value (store db) a k) of
        Inl e \<Rightarrow> (Inl e, db)
      | Inr v \<Rightarrow>
          if skip_initial_tracking db then (Inr v, db)
          else (case fmlookup (initial_accounts_state db) a of
              Some acc \<Rightarrow>
                (Inr v, db \<lparr> initial_accounts_state :=
                   fmupd a (acc \<lparr> storage := fmupd k v (storage acc) \<rparr>) (initial_accounts_state db) \<rparr>)
            | None \<Rightarrow>
                (Inl (internal (InternalCustom ''Account not found in InMemoryDB when fetching storage'')), db)))"

definition get_tx_backup :: "GeneralizedDatabase \<Rightarrow> vm_fail + CallFrameBackup" where
  "get_tx_backup db =
     ok_or (tx_backup db)
       (internal (InternalCustom ''Transaction backup not found. Was BackupHook enabled?''))"

text \<open>
  The part of a cached account that \<open>restore_cache_state\<close> takes back from a backup entry.  A missing account
  among the slots is an error, found after the account entries have been restored.
\<close>

definition restore_info :: "LevmAccount \<Rightarrow> LevmAccount \<Rightarrow> LevmAccount" where
  "restore_info old acc =
     acc \<lparr> info := info old, status := status old, has_storage := has_storage old, exists := exists old \<rparr>"

definition restore_cache_state :: "CallFrameBackup \<Rightarrow> (GeneralizedDatabase, unit) action" where
  "restore_cache_state b db =
     (let infos = fmmap_keys (\<lambda>a acc. case fmlookup (original_accounts_info b) a of
            Some old \<Rightarrow> restore_info old acc | None \<Rightarrow> acc) (current_accounts_state db);
          slots = fmmap_keys (\<lambda>a acc. acc \<lparr> storage := storage acc ++\<^sub>f
            or_empty (fmlookup (original_account_storage_slots b) a) \<rparr>) infos
      in if \<not> fmdom (original_account_storage_slots b) |\<subseteq>| fmdom infos
         then (Inl (internal AccountNotFound), db \<lparr> current_accounts_state := infos \<rparr>)
         else (Inr (), db \<lparr> current_accounts_state := slots,
           codes := fmfilter (\<lambda>h. h \<notin> set (inserted_code_hashes b)) (codes db) \<rparr>))"

definition undo_last_transaction :: "(GeneralizedDatabase, unit) action" where
  "undo_last_transaction = bind (\<lambda>db. (get_tx_backup db, db)) restore_cache_state"

section \<open>State transitions\<close>

record AccountUpdate =
  update_address :: address
  removed :: bool
  update_info :: "AccountInfo option"
  update_code :: "Code option"
  added_storage :: "(h256, u256) fmap"
  removed_storage :: bool

definition missing :: "string \<Rightarrow> vm_fail" where
  "missing msg = internal (InternalCustom msg)"

text \<open>The body of the loop: the update of one cached account, if it has one.\<close>

definition account_transition :: "GeneralizedDatabase \<Rightarrow> address \<Rightarrow> LevmAccount \<Rightarrow> vm_fail + AccountUpdate option" where
  "account_transition db a new =
     (if is_unmodified new then Inr None
      else and_then (ok_or (fmlookup (initial_accounts_state db) a)
        (missing ''Failed to get account from immutable cache'')) (\<lambda>ini.
      let code_changed = info_code_hash (info ini) \<noteq> info_code_hash (info new);
          acc_info_updated = balance (info ini) \<noteq> balance (info new) \<or> nonce (info ini) \<noteq> nonce (info new) \<or> code_changed
      in and_then
        (if code_changed
         then and_then (ok_or (fmlookup (codes db) (info_code_hash (info new)))
           (missing ''Failed to get code for account'')) (\<lambda>c. Inr (Some c))
         else Inr None) (\<lambda>code.
      let was_destroyed = (status new = DestroyedModified);
          removed_storage' = (was_destroyed \<and> has_storage ini);
          old_value = (\<lambda>k. if was_destroyed then 0 else case fmlookup (storage ini) k of Some v \<Rightarrow> v | None \<Rightarrow> 0)
      in if \<not> was_destroyed \<and> \<not> fmdom (storage new) |\<subseteq>| fmdom (storage ini)
         then Inl (missing ''Failed to get old value from account's initial storage'')
         else
           let added = fmfilter (\<lambda>k. fmlookup (storage new) k \<noteq> Some (old_value k)) (storage new);
               storage_updated = (added \<noteq> fmempty);
               was_empty = account_is_empty ini;
               removed' = (account_is_empty new \<and> \<not> was_empty)
           in if \<not> removed' \<and> \<not> acc_info_updated \<and> \<not> storage_updated \<and> \<not> removed_storage' then Inr None
              else Inr (Some \<lparr> update_address = a, removed = removed',
                update_info = (if acc_info_updated then Some (info new) else None), update_code = code,
                added_storage = added, removed_storage = removed_storage' \<rparr>))))"

text \<open>\<open>order\<close> is the order in which the hash map is iterated.\<close>

primrec collect_transitions :: "GeneralizedDatabase \<Rightarrow> (address \<times> LevmAccount) list \<Rightarrow> vm_fail + AccountUpdate list" where
  "collect_transitions db [] = Inr []"
| "collect_transitions db (x # xs) =
     and_then (account_transition db (fst x) (snd x)) (\<lambda>u.
     and_then (collect_transitions db xs) (\<lambda>us. Inr (case u of None \<Rightarrow> us | Some u' \<Rightarrow> u' # us)))"

definition get_state_transitions :: "(address \<times> LevmAccount) list \<Rightarrow> (GeneralizedDatabase, AccountUpdate list) action" where
  "get_state_transitions order db =
     (case collect_transitions db order of
        Inl e \<Rightarrow> (Inl e, db)
      | Inr us \<Rightarrow> (Inr us, db \<lparr> initial_accounts_state := fmempty, current_accounts_state := fmempty,
          codes := fmempty, code_metadata := fmempty \<rparr>))"

text \<open>The transaction-wise variant also makes the flushed account the new baseline.\<close>

definition fold_baseline :: "address \<Rightarrow> LevmAccount \<Rightarrow> GeneralizedDatabase \<Rightarrow> GeneralizedDatabase" where
  "fold_baseline a new db =
     db \<lparr> initial_accounts_state := fmupd a
       (case fmlookup (initial_accounts_state db) a of
          Some ini \<Rightarrow>
            if status new \<notin> {Destroyed, DestroyedModified}
            then ini \<lparr> info := info new, status := status new, has_storage := has_storage new, exists := exists new,
                   storage := storage ini ++\<^sub>f storage new \<rparr>
            else new
        | None \<Rightarrow> new) (initial_accounts_state db) \<rparr>"

fun drain_transitions :: "(address \<times> LevmAccount) list \<Rightarrow> (GeneralizedDatabase, AccountUpdate list) action" where
  "drain_transitions [] db = (Inr [], db)"
| "drain_transitions ((a, new) # xs) db =
     (case account_transition db a new of
        Inl e \<Rightarrow> (Inl e, db)
      | Inr None \<Rightarrow> drain_transitions xs db
      | Inr (Some u) \<Rightarrow>
          bind (drain_transitions xs) (\<lambda>us. ret (u # us)) (fold_baseline a new db))"

definition get_state_transitions_tx :: "(address \<times> LevmAccount) list \<Rightarrow> (GeneralizedDatabase, AccountUpdate list) action" where
  "get_state_transitions_tx order db = drain_transitions order (db \<lparr> current_accounts_state := fmempty \<rparr>)"

end
