(* ===== verification/Evm_Alu.thy ===== *)
theory Evm_Alu
  imports Evm_Gas "HOL-Library.Signed_Division"
begin

text \<open>
  What the arithmetic, comparison and bitwise opcodes compute
  (\<open>src/crates/vm/levm/src/opcode_handlers/arithmetic.rs\<close> and \<open>bitwise_comparison.rs\<close>, and
  \<open>Crypto::mulmod256\<close> of \<open>src/crates/common/crypto/provider.rs\<close>).  A \<open>U256\<close> is a 256-bit word and a
  \<open>U512\<close> a 512-bit word; \<open>overflowing_add(..).0\<close> and its kin are the operations of the word type.
  The lemmas give each function its meaning on signed or unsigned integers.
\<close>

unbundle bit_operations_syntax

section \<open>Code\<close>

definition u256_checked_div :: "u256 \<Rightarrow> u256 \<Rightarrow> u256 option" where
  "u256_checked_div a b = (if b = 0 then None else Some (a div b))"

definition u256_checked_rem :: "u256 \<Rightarrow> u256 \<Rightarrow> u256 option" where
  "u256_checked_rem a b = (if b = 0 then None else Some (a mod b))"

definition unwrap_or :: "'a option \<Rightarrow> 'a \<Rightarrow> 'a" where
  "unwrap_or o' x = (case o' of None \<Rightarrow> x | Some y \<Rightarrow> y)"

definition op_sdiv :: "u256 \<Rightarrow> u256 \<Rightarrow> u256" where
  "op_sdiv lhs rhs =
     (let sign = False;
          (lhs, sign) = (if bit lhs 255 then (0 - lhs, \<not> sign) else (lhs, sign));
          (rhs, sign) = (if bit rhs 255 then (0 - rhs, \<not> sign) else (rhs, sign))
      in case u256_checked_div lhs rhs of
           Some res \<Rightarrow> if sign then 0 - res else res
         | None \<Rightarrow> 0)"

definition op_smod :: "u256 \<Rightarrow> u256 \<Rightarrow> u256" where
  "op_smod lhs rhs =
     (let sign = bit lhs 255;
          lhs = (if sign then NOT lhs + 1 else lhs);
          rhs = (if bit rhs 255 then NOT rhs + 1 else rhs)
      in case u256_checked_rem lhs rhs of
           Some res \<Rightarrow> if sign then NOT res + 1 else res
         | None \<Rightarrow> 0)"

text \<open>The sum of two words is taken in 512 bits; the result keeps the four low limbs.\<close>

definition op_addmod :: "u256 \<Rightarrow> u256 \<Rightarrow> u256 \<Rightarrow> u256" where
  "op_addmod lhs rhs m = ucast ((ucast lhs + ucast rhs :: 512 word) mod ucast m)"

definition mulmod256 :: "bytes \<Rightarrow> bytes \<Rightarrow> bytes \<Rightarrow> bytes" where
  "mulmod256 a_bytes b_bytes m_bytes =
     (let a = u256_from_big_endian_const a_bytes;
          b = u256_from_big_endian_const b_bytes;
          m = u256_from_big_endian_const m_bytes;
          result =
            if m = 0 then 0
            else let product = (ucast a * ucast b :: 512 word);
                     m512 = (ucast m :: 512 word) in
              if product < m512 then (if product < 2 ^ 256 then ucast product else 0)
              else let rem' = product mod m512 in if rem' < 2 ^ 256 then ucast rem' else 0
      in u256_to_big_endian result)"

definition op_exp :: "u256 \<Rightarrow> u256 \<Rightarrow> u256" where
  "op_exp base exponent = base ^ unat exponent"

text \<open>\<open>usize::try_from(index)\<close> succeeds below \<open>2^64\<close>, \<open>u8::try_from(shift)\<close> below 256.\<close>

definition try_usize :: "u256 \<Rightarrow> nat option" where
  "try_usize v = (if unat v < 2 ^ 64 then Some (unat v) else None)"

definition try_u8 :: "u256 \<Rightarrow> nat option" where
  "try_u8 v = (if unat v < 256 then Some (unat v) else None)"

definition op_signextend :: "u256 \<Rightarrow> u256 \<Rightarrow> u256" where
  "op_signextend index v =
     (case try_usize index of
        Some x \<Rightarrow>
          if x < 32 then
            if bit v (8 * x + 7) then v OR push_bit (8 * (x + 1)) (- 1)
            else if x \<noteq> 31 then v AND (push_bit (8 * (x + 1)) 1 - 1)
            else v
          else v
      | None \<Rightarrow> v)"

definition op_clz :: "u256 \<Rightarrow> u256" where
  "op_clz v = word_of_nat (256 - bit_len (unat v))"

definition op_slt :: "u256 \<Rightarrow> u256 \<Rightarrow> u256" where
  "op_slt lhs rhs =
     (case (bit lhs 255, bit rhs 255) of
        (False, True) \<Rightarrow> 0
      | (True, False) \<Rightarrow> 1
      | _ \<Rightarrow> of_bool (lhs < rhs))"

definition op_sgt :: "u256 \<Rightarrow> u256 \<Rightarrow> u256" where
  "op_sgt lhs rhs =
     (case (bit lhs 255, bit rhs 255) of
        (False, True) \<Rightarrow> 1
      | (True, False) \<Rightarrow> 0
      | _ \<Rightarrow> of_bool (lhs > rhs))"

text \<open>\<open>U256::byte(i)\<close> is byte \<open>i\<close> counted from the least significant one.\<close>

definition u256_byte :: "u256 \<Rightarrow> nat \<Rightarrow> byte" where
  "u256_byte v i = ucast (drop_bit (8 * i) v)"

definition op_byte :: "u256 \<Rightarrow> u256 \<Rightarrow> u256" where
  "op_byte index v =
     (case try_usize index of
        Some x \<Rightarrow> if x < 32 then ucast (u256_byte v (31 - x)) else 0
      | None \<Rightarrow> 0)"

definition op_shl :: "u256 \<Rightarrow> u256 \<Rightarrow> u256" where
  "op_shl shift v = (case try_u8 shift of Some n \<Rightarrow> push_bit n v | None \<Rightarrow> 0)"

definition op_shr :: "u256 \<Rightarrow> u256 \<Rightarrow> u256" where
  "op_shr shift v = (case try_u8 shift of Some n \<Rightarrow> drop_bit n v | None \<Rightarrow> 0)"

definition op_sar :: "u256 \<Rightarrow> u256 \<Rightarrow> u256" where
  "op_sar shift v =
     (case (try_u8 shift, bit v 255) of
        (Some n, False) \<Rightarrow> drop_bit n v
      | (Some n, True) \<Rightarrow> NOT (drop_bit n (NOT v))
      | (None, False) \<Rightarrow> 0
      | (None, True) \<Rightarrow> - 1)"

section \<open>Meaning\<close>

lemma u256_msb: "bit v 255 \<longleftrightarrow> 2 ^ 255 \<le> uint v" for v :: u256
proof -
  have lt: "uint v < 2 ^ 256" using unsigned_less [of v, where ?'a = int] by simp
  have "bit v 255 \<longleftrightarrow> bit (uint v) 255" by (simp add: bit_uint_iff)
  also have "\<dots> \<longleftrightarrow> odd (uint v div 2 ^ 255)" by (rule bit_iff_odd)
  also have "\<dots> \<longleftrightarrow> 2 ^ 255 \<le> uint v"
  proof (cases "2 ^ 255 \<le> uint v")
    case True
    then have "uint v div 2 ^ 255 = 1" using lt by (intro int_div_pos_eq [where r = "uint v - 2 ^ 255"]) simp_all
    with True show ?thesis by simp
  next
    case False
    then have "uint v div 2 ^ 255 = 0" by (intro div_pos_pos_trivial) simp_all
    with False show ?thesis by simp
  qed
  finally show ?thesis .
qed

lemma u256_sint: "sint v = (if bit v 255 then uint v - 2 ^ 256 else uint v)" for v :: u256
proof -
  have lt: "0 \<le> uint v" "uint v < 2 ^ 256" using unsigned_less [of v, where ?'a = int] by simp_all
  have "sint v = (uint v + 2 ^ 255) mod 2 ^ 256 - 2 ^ 255"
    by (simp add: sint_uint signed_take_bit_eq_take_bit_shift take_bit_eq_mod)
  moreover have "(uint v + 2 ^ 255) mod 2 ^ 256 = uint v + 2 ^ 255 - 2 ^ 256" if "2 ^ 255 \<le> uint v"
    using that lt by (simp add: mod_pos_geq)
  ultimately show ?thesis using lt by (simp add: u256_msb)
qed

lemma u256_neg_iff: "sint v < 0 \<longleftrightarrow> bit v 255" for v :: u256
  using unsigned_less [of v, where ?'a = int] by (simp add: u256_sint)

text \<open>Both ways the code negates, \<open>0 - v\<close> and \<open>!v + 1\<close>, take the magnitude of a negative word.\<close>

lemma u256_magnitude: "uint (if bit v 255 then - v else v) = \<bar>sint v\<bar>" for v :: u256
proof (cases "bit v 255")
  case True
  then have "v \<noteq> 0" by auto
  moreover have "0 \<le> uint v" "uint v < 2 ^ 256" using unsigned_less [of v, where ?'a = int] by simp_all
  moreover have "uint v \<noteq> 0" using \<open>v \<noteq> 0\<close> by (simp add: uint_0_iff)
  ultimately have "uint (- v) = 2 ^ 256 - uint v"
    by (simp add: uint_word_ariths zmod_zminus1_eq_if)
  with True show ?thesis using unsigned_less [of v, where ?'a = int] by (simp add: u256_sint)
qed (simp add: u256_sint)

lemma not_plus_one: "NOT v + 1 = - v" for v :: u256
  by (simp add: not_eq_complement)

lemma op_sdiv_eq: "op_sdiv a b = (if b = 0 then 0 else word_of_int (sint a sdiv sint b))"
proof (cases "b = 0")
  case False
  define x where "x = (if bit a 255 then - a else a)"
  define y where "y = (if bit b 255 then - b else b)"
  have "y \<noteq> 0" using False by (simp add: y_def)
  have "x div y = word_of_int (\<bar>sint a\<bar> div \<bar>sint b\<bar>)"
    using u256_magnitude [of a] u256_magnitude [of b]
    by (simp add: word_div_def x_def y_def)
  moreover have "op_sdiv a b = (if bit a 255 \<noteq> bit b 255 then - (x div y) else x div y)"
    using \<open>y \<noteq> 0\<close> by (auto simp: op_sdiv_def u256_checked_div_def x_def y_def Let_def)
  moreover have "sint a sdiv sint b =
      (if bit a 255 \<noteq> bit b 255 then - (\<bar>sint a\<bar> div \<bar>sint b\<bar>) else \<bar>sint a\<bar> div \<bar>sint b\<bar>)"
    by (auto simp: signed_divide_int_def sgn_if u256_neg_iff [symmetric])
  ultimately show ?thesis using False by simp
qed (simp add: op_sdiv_def u256_checked_div_def Let_def)

lemma op_smod_eq: "op_smod a b = (if b = 0 then 0 else word_of_int (sint a smod sint b))"
proof (cases "b = 0")
  case False
  define x where "x = (if bit a 255 then - a else a)"
  define y where "y = (if bit b 255 then - b else b)"
  have "y \<noteq> 0" using False by (simp add: y_def)
  have "x mod y = word_of_int (\<bar>sint a\<bar> mod \<bar>sint b\<bar>)"
    using u256_magnitude [of a] u256_magnitude [of b]
    by (simp add: word_mod_def x_def y_def)
  moreover have "op_smod a b = (if bit a 255 then - (x mod y) else x mod y)"
    using \<open>y \<noteq> 0\<close> by (auto simp: op_smod_def u256_checked_rem_def x_def y_def Let_def not_plus_one)
  moreover have "sint a smod sint b = (if bit a 255 then - (\<bar>sint a\<bar> mod \<bar>sint b\<bar>) else \<bar>sint a\<bar> mod \<bar>sint b\<bar>)"
    by (auto simp: signed_modulo_int_def signed_divide_int_def sgn_if u256_neg_iff [symmetric]
        minus_mult_div_eq_mod [symmetric] algebra_simps abs_if)
  ultimately show ?thesis using False by simp
qed (simp add: op_smod_def u256_checked_rem_def Let_def)

lemma unat_ucast_512: "unat (ucast (v :: u256) :: 512 word) = unat v"
  by (simp add: unsigned_ucast_eq take_bit_nat_eq_self unat_u256_less [THEN less_le_trans])

lemma op_addmod_eq: "m \<noteq> 0 \<Longrightarrow> op_addmod a b m = word_of_nat ((unat a + unat b) mod unat m)"
proof -
  assume m: "m \<noteq> 0"
  have "unat (ucast a + ucast b :: 512 word) = unat a + unat b"
    using unat_u256_less [of a] unat_u256_less [of b]
    by (subst unat_add_lem [THEN iffD1]) (simp_all add: unat_ucast_512)
  then have "unat ((ucast a + ucast b :: 512 word) mod ucast m) = (unat a + unat b) mod unat m"
    by (simp add: unat_mod_distrib unat_ucast_512)
  then show ?thesis
    unfolding op_addmod_def by (metis of_nat_unat)
qed

lemma mulmod256_eq:
  assumes "length a = 32" "length b = 32" "length m = 32"
  shows "mulmod256 a b m = be_bytes 32 (if be_nat m = 0 then 0 else be_nat a * be_nat b mod be_nat m)"
proof -
  define A where "A = u256_from_big_endian_const a"
  define B where "B = u256_from_big_endian_const b"
  define M where "M = u256_from_big_endian_const m"
  have u: "unat A = be_nat a" "unat B = be_nat b" "unat M = be_nat m"
    using assms be_nat_u256_to_big_endian [of A] be_nat_u256_to_big_endian [of B] be_nat_u256_to_big_endian [of M]
    by (simp_all add: A_def B_def M_def)
  define P where "P = (ucast A * ucast B :: 512 word)"
  have "unat A * unat B < 2 ^ 512"
    using mult_strict_mono [OF unat_u256_less [of A] unat_u256_less [of B]] by simp
  then have P: "unat P = be_nat a * be_nat b"
    by (simp add: P_def unat_mult_lem [THEN iffD1] unat_ucast_512 u)
  have m: "unat (ucast M :: 512 word) = be_nat m" by (simp add: unat_ucast_512 u)
  have lt: "be_nat m < 2 ^ 256" using unat_u256_less [of M] u by simp
  define r where "r = (if P < ucast M then P else P mod ucast M)"
  have r: "unat r = be_nat a * be_nat b mod be_nat m" if "be_nat m \<noteq> 0"
    by (simp add: r_def unat_mod_distrib P m word_less_nat_alt)
  have "r < 2 ^ 256" if "be_nat m \<noteq> 0"
  proof -
    have "unat r < 2 ^ 256" using r [OF that] that lt by (metis mod_less_divisor neq0_conv order_less_trans)
    then show ?thesis by (simp add: word_less_nat_alt)
  qed
  moreover have "(M = 0) = (be_nat m = 0)" using u(3) by (metis unat_eq_zero)
  ultimately have "mulmod256 a b m = u256_to_big_endian (if be_nat m = 0 then 0 else ucast r)"
    by (auto simp: mulmod256_def Let_def A_def [symmetric] B_def [symmetric] M_def [symmetric] P_def [symmetric] r_def)
  moreover have "unat (ucast r :: u256) = be_nat a * be_nat b mod be_nat m" if "be_nat m \<noteq> 0"
    using r [OF that] order_less_trans [OF mod_less_divisor lt, of "be_nat a * be_nat b"] that
    by (simp add: unsigned_ucast_eq take_bit_nat_eq_self)
  ultimately show ?thesis by (simp add: u256_to_big_endian_eq)
qed

lemma try_u8_None: "try_u8 s = None \<longleftrightarrow> 256 \<le> unat s"
  by (simp add: try_u8_def)

lemma op_shl_eq: "op_shl s v = word_of_nat (unat v * 2 ^ unat s)"
proof (cases "unat s < 256")
  case True
  then show ?thesis
    by (simp add: op_shl_def try_u8_def push_bit_eq_mult mult.commute)
next
  case False
  then have "2 ^ 256 dvd (2::nat) ^ unat s" by (intro le_imp_power_dvd) simp
  then have "2 ^ 256 dvd unat v * 2 ^ unat s" by (rule dvd_mult)
  then have "word_of_nat (unat v * 2 ^ unat s) = (0 :: u256)"
    by (subst word_of_nat_eq_0_iff) simp
  with False show ?thesis by (simp add: op_shl_def try_u8_def)
qed

lemma op_shr_eq: "op_shr s v = word_of_nat (unat v div 2 ^ unat s)"
proof (cases "unat s < 256")
  case True
  have "unat (drop_bit (unat s) v) = unat v div 2 ^ unat s"
    by (simp only: unat_drop_bit_eq) (rule drop_bit_eq_div)
  with True show ?thesis
    by (simp only: op_shr_def try_u8_def if_True option.case) (metis of_nat_unat ucast_id)
next
  case False
  then have "(2::nat) ^ 256 \<le> 2 ^ unat s" by (intro power_increasing) simp_all
  with unat_u256_less [of v] have "unat v div 2 ^ unat s = 0" by (intro div_less) linarith
  with False show ?thesis by (simp add: op_shr_def try_u8_def)
qed

lemma op_sar_eq: "op_sar s v = word_of_int (sint v div 2 ^ unat s)"
proof -
  have "op_sar s v = signed_drop_bit (unat s) v"
  proof (cases "unat s < 256")
    case True
    then show ?thesis
      by (intro bit_word_eqI)
        (auto simp: op_sar_def try_u8_def bit_signed_drop_bit_iff bit_drop_bit_eq bit_not_iff split: bool.split dest: bit_imp_le_length)
  next
    case False
    then show ?thesis
      by (simp add: op_sar_def try_u8_def signed_drop_bit_beyond split: bool.split)
  qed
  then have "sint (op_sar s v) = sint v div 2 ^ unat s"
    by (simp only: sint_signed_drop_bit_eq) (rule drop_bit_eq_div)
  then show ?thesis by (metis of_int_sint scast_id)
qed

lemma op_signextend_eq:
  "op_signextend i v = (if unat i < 32 then signed_take_bit (8 * unat i + 7) v else v)"
proof (cases "unat i < 32")
  case True
  define x where "x = unat i"
  have x: "x < 32" "8 * x + 8 \<le> 256" using True by (simp_all add: x_def)
  have "op_signextend i v = (if bit v (8 * x + 7) then v OR push_bit (8 * (x + 1)) (- 1)
            else if x \<noteq> 31 then v AND (push_bit (8 * (x + 1)) 1 - 1) else v)"
    using True by (simp add: op_signextend_def try_usize_def x_def)
  also have "\<dots> = signed_take_bit (8 * x + 7) v"
  proof (rule bit_word_eqI)
    fix n assume "n < LENGTH(256)"
    then have n: "n < 256" by simp
    have mask: "(push_bit (8 * (x + 1)) 1 - 1 :: u256) = mask (8 * (x + 1))"
      by (simp only: mask_eq_exp_minus_1 push_bit_eq_mult mult_1)
    show "bit (if bit v (8 * x + 7) then v OR push_bit (8 * (x + 1)) (- 1)
            else if x \<noteq> 31 then v AND (push_bit (8 * (x + 1)) 1 - 1) else v) n \<longleftrightarrow>
        bit (signed_take_bit (8 * x + 7) v) n"
    proof (cases "n \<le> 8 * x + 7")
      case True
      then show ?thesis unfolding mask using n x
        by (auto simp: bit_signed_take_bit_iff bit_or_iff bit_and_iff bit_push_bit_iff bit_mask_iff bit_not_iff min_def)
    next
      case False
      then show ?thesis unfolding mask using n x
        by (auto simp: bit_signed_take_bit_iff bit_or_iff bit_and_iff bit_push_bit_iff bit_mask_iff bit_not_iff min_def)
    qed
  qed
  finally show ?thesis using True by (simp add: x_def)
qed (simp add: op_signextend_def try_usize_def)

lemma op_byte_eq: "op_byte i v = (if unat i < 32 then word_of_nat (unat v div 256 ^ (31 - unat i) mod 256) else 0)"
proof (cases "unat i < 32")
  case True
  define k where "k = 31 - unat i"
  have "unat (ucast (u256_byte v k) :: u256) = unat v div 256 ^ k mod 256"
  proof -
    have "unat (drop_bit (8 * k) v) = unat v div 2 ^ (8 * k)"
      by (simp only: unat_drop_bit_eq) (rule drop_bit_eq_div)
    then have "unat (u256_byte v k) = unat v div 256 ^ k mod 256"
      by (simp add: u256_byte_def unsigned_ucast_eq take_bit_eq_mod power_mult)
    moreover have "unat (u256_byte v k) < 2 ^ 256"
      using unat_byte_less [of "u256_byte v k"] by (rule less_le_trans) simp
    ultimately show ?thesis
      by (simp add: unsigned_ucast_eq take_bit_nat_eq_self)
  qed
  then have "ucast (u256_byte v k) = (word_of_nat (unat v div 256 ^ k mod 256) :: u256)"
    by (metis of_nat_unat ucast_id)
  with True show ?thesis by (simp add: op_byte_def try_usize_def k_def)
qed (simp add: op_byte_def try_usize_def)

lemma op_signed_compare: "op_slt a b = of_bool (sint a < sint b)" "op_sgt a b = of_bool (sint a > sint b)"
proof -
  have less: "a < b \<longleftrightarrow> sint a < sint b" if "bit a 255 \<longleftrightarrow> bit b 255" for a b :: u256
    using that by (simp add: u256_sint word_less_def)
  have neg: "sint a < sint b" if "bit a 255" "\<not> bit b 255" for a b :: u256
    using that u256_neg_iff [of a] u256_neg_iff [of b] by linarith
  show "op_slt a b = of_bool (sint a < sint b)" "op_sgt a b = of_bool (sint a > sint b)"
    using less [of a b] less [of b a] neg [of a b] neg [of b a]
    by (auto simp: op_slt_def op_sgt_def split: bool.split)
qed

lemma op_exp_eq: "op_exp b e = word_of_nat (unat b ^ unat e)"
  by (simp add: op_exp_def)

lemma bit_len_bounds: "0 < n \<Longrightarrow> 2 ^ (bit_len n - 1) \<le> n \<and> n < 2 ^ bit_len n"
proof (induction n rule: bit_len.induct)
  case (1 n)
  show ?case
  proof (cases "n div 2 = 0")
    case True
    with 1 have "n = 1" by auto
    then show ?thesis by (simp add: bit_len.simps)
  next
    case False
    with 1 have ih: "2 ^ (bit_len (n div 2) - 1) \<le> n div 2" "n div 2 < 2 ^ bit_len (n div 2)" by simp_all
    obtain m where m: "bit_len (n div 2) = Suc m" using False bit_len_pos by (metis not0_implies_Suc)
    from ih "1.prems" show ?thesis by (simp add: bit_len.simps [of n] m) linarith
  qed
qed

lemma op_clz_eq:
  "op_clz 0 = 256"
  "v \<noteq> 0 \<Longrightarrow> 2 ^ (255 - unat (op_clz v)) \<le> unat v \<and> unat v < 2 ^ (256 - unat (op_clz v))"
proof -
  show "op_clz 0 = 256" by (simp add: op_clz_def bit_len.simps)
  assume "v \<noteq> 0"
  then have pos: "0 < unat v" by (simp add: unat_gt_0)
  have le: "bit_len (unat v) \<le> 256" using unat_u256_less by (rule bit_len_le)
  have "unat (word_of_nat k :: u256) = k" if "k \<le> 256" for k using that by (simp add: unat_of_nat)
  then have "unat (op_clz v) = 256 - bit_len (unat v)"
    unfolding op_clz_def by (meson diff_le_self)
  moreover have "bit_len (unat v) \<noteq> 0" using pos by (simp add: bit_len_pos)
  ultimately show "2 ^ (255 - unat (op_clz v)) \<le> unat v \<and> unat v < 2 ^ (256 - unat (op_clz v))"
    using bit_len_bounds [OF pos] le by (simp add: diff_diff_eq)
qed

end
