(* ===== verification/Evm_Vm.thy ===== *)
theory Evm_Vm
  imports Evm_Db Evm_Alu Evm_Stack
begin

text \<open>
  The state of the virtual machine and the operations its opcode handlers are made of: \<open>CallFrame\<close>
  (\<open>src/crates/vm/levm/src/call_frame.rs\<close>), \<open>Environment\<close> (\<open>environment.rs\<close>), the fields of \<open>VM\<close>
  (\<open>vm.rs\<close>) that execution of code reads and writes, the state-gas accounting of EIP-8037 (\<open>vm.rs\<close>) and the
  account operations that keep backups (\<open>db/gen_db.rs\<close>).  The memory buffer the frames share is a field of the
  machine.  Tracers, the validation observer, the debug mode and the access-list recorder are observers that are
  inactive in block execution; the model is of a machine without them.  Cryptography is a field, as in the code;
  the host's instruction set and the precompiles are further parameters.
\<close>

section \<open>State\<close>

record ForkBlobSchedule =
  blob_target :: nat
  blob_max :: nat
  base_fee_update_fraction :: nat

record Environment =
  origin :: address
  env_gas_limit :: nat
  env_fork :: Fork
  blob_schedule :: ForkBlobSchedule
  block_number :: nat
  coinbase :: address
  timestamp :: nat
  prev_randao :: "h256 option"
  difficulty :: u256
  slot_number :: u256
  chain_id :: u256
  base_fee_per_gas :: u256
  base_blob_fee_per_gas :: u256
  gas_price :: u256
  block_excess_blob_gas :: "nat option"
  block_blob_gas_used :: "nat option"
  tx_blob_hashes :: "h256 list"
  tx_max_priority_fee_per_gas :: "u256 option"
  tx_max_fee_per_gas :: "u256 option"
  tx_max_fee_per_blob_gas :: "u256 option"
  tx_nonce :: nat
  block_gas_limit :: nat
  is_privileged :: bool
  fee_token :: "address option"
  disable_balance_check :: bool
  disable_nonce_check :: bool
  disable_gas_allowance_check :: bool
  disable_sender_eoa_check :: bool
  is_system_call :: bool

record CallFrame =
  gas_limit :: nat
  gas_remaining :: int
  pc :: nat
  msg_sender :: address
  to_address :: address
  code_address :: address
  frame_code :: Code
  msg_value :: u256
  stack :: Stack
  memory :: Memory
  calldata :: bytes
  frame_output :: bytes
  sub_return_data :: bytes
  is_static :: bool
  depth :: nat
  is_create :: bool
  call_frame_backup :: CallFrameBackup
  ret_offset :: nat
  ret_size :: nat
  should_transfer_value :: bool
  state_gas_used_at_entry :: int
  frame_state_gas_spilled :: nat
  target_alive :: bool
  new_account_state_gas_charged :: bool

record Crypto =
  keccak256 :: "bytes \<Rightarrow> h256"
  crypto_mulmod256 :: "bytes \<Rightarrow> bytes \<Rightarrow> bytes \<Rightarrow> bytes"

record VM =
  call_frames :: "CallFrame list"
  current_call_frame :: CallFrame
  mem_buffer :: bytes
  env :: Environment
  substate :: Substate
  db :: GeneralizedDatabase
  storage_original_values :: "(address, (h256, u256) fmap) fmap"
  stack_pool :: "Stack list"
  state_gas_used :: int
  state_gas_reservoir :: nat
  state_gas_spill :: nat
  vm_cost_per_state_byte :: nat
  state_gas_new_account :: nat
  state_gas_storage_set :: nat
  preserve_top_level_backup :: bool
  pending_prep_oog :: bool
  value_new_account_charged :: bool
  crypto :: Crypto
  keccak_hash :: "bytes \<Rightarrow> h256"
  host_target :: "lanes_target option"
  precompiles :: "Fork \<Rightarrow> address \<Rightarrow> (bytes \<Rightarrow> nat \<Rightarrow> (vm_error + bytes) \<times> nat) option"

abbreviation cf :: "VM \<Rightarrow> CallFrame" where
  "cf vm \<equiv> current_call_frame vm"

abbreviation vm_fork :: "VM \<Rightarrow> Fork" where
  "vm_fork vm \<equiv> env_fork (env vm)"

text \<open>Running a method of the current frame, its stack, its memory, the database or the substate.\<close>

definition on_frame :: "(CallFrame, 'a) action \<Rightarrow> (VM, 'a) action" where
  "on_frame = zoom current_call_frame (\<lambda>f vm. vm \<lparr> current_call_frame := f \<rparr>)"

definition on_stack :: "(Stack, 'a) action \<Rightarrow> (VM, 'a) action" where
  "on_stack m = on_frame (zoom stack (\<lambda>s f. f \<lparr> stack := s \<rparr>) m)"

definition on_memory :: "(mem_state, 'a) action \<Rightarrow> (VM, 'a) action" where
  "on_memory = zoom (\<lambda>vm. (mem_buffer vm, memory (cf vm)))
     (\<lambda>(buf, m) vm. vm \<lparr> mem_buffer := buf, current_call_frame := (cf vm) \<lparr> memory := m \<rparr> \<rparr>)"

definition on_db :: "(GeneralizedDatabase, 'a) action \<Rightarrow> (VM, 'a) action" where
  "on_db = zoom db (\<lambda>d vm. vm \<lparr> db := d \<rparr>)"

definition on_substate :: "(Substate \<Rightarrow> 'a \<times> Substate) \<Rightarrow> (VM, 'a) action" where
  "on_substate f vm = (let (x, s) = f (substate vm) in (Inr x, vm \<lparr> substate := s \<rparr>))"

definition modify_frame :: "(CallFrame \<Rightarrow> CallFrame) \<Rightarrow> (VM, unit) action" where
  "modify_frame f = modify (\<lambda>vm. vm \<lparr> current_call_frame := f (cf vm) \<rparr>)"

definition try_update :: "('s \<Rightarrow> 'b option) \<Rightarrow> ('b \<Rightarrow> 's \<Rightarrow> 's) \<Rightarrow> internal_error \<Rightarrow> ('s, unit) action" where
  "try_update f put e s = (case f s of None \<Rightarrow> (Inl (internal e), s) | Some v \<Rightarrow> (Inr (), put v s))"

section \<open>Frames\<close>

definition CallFrame_new ::
  "address \<Rightarrow> address \<Rightarrow> address \<Rightarrow> Code \<Rightarrow> u256 \<Rightarrow> bytes \<Rightarrow> bool \<Rightarrow> nat \<Rightarrow> nat \<Rightarrow> bool \<Rightarrow> bool \<Rightarrow> nat \<Rightarrow> nat \<Rightarrow>
    Stack \<Rightarrow> Memory \<Rightarrow> CallFrame" where
  "CallFrame_new sender to' code_addr code value data static gas d transfer create ro rs st mem =
     \<lparr> gas_limit = gas, gas_remaining = wrap_i64 (int gas), pc = 0, msg_sender = sender, to_address = to',
       code_address = code_addr, frame_code = code, msg_value = value, stack = st, memory = mem, calldata = data,
       frame_output = [], sub_return_data = [], is_static = static, depth = d, is_create = create,
       call_frame_backup = CallFrameBackup_default, ret_offset = ro, ret_size = rs,
       should_transfer_value = transfer, state_gas_used_at_entry = 0, frame_state_gas_spilled = 0,
       target_alive = False, new_account_state_gas_charged = False \<rparr>"

text \<open>The opcode is read without a bounds check.\<close>

definition next_opcode :: "CallFrame \<Rightarrow> vm_fail + byte" where
  "next_opcode f = get_unchecked (dispatch_buf (frame_code f)) (pc f)"

definition increase_consumed_gas :: "nat \<Rightarrow> (CallFrame, unit) action" where
  "increase_consumed_gas gas f =
     (let f' = f \<lparr> gas_remaining := wrap_i64 (gas_remaining f - wrap_i64 (int gas)) \<rparr>
      in if gas_remaining f' < 0 then (Inl (halt OutOfGas), f') else (Inr (), f'))"

text \<open>\<open>as u64\<close> on a signed number.\<close>

definition as_u64 :: "int \<Rightarrow> nat" where
  "as_u64 x = nat (x mod 2 ^ 64)"

definition check_gas :: "nat \<Rightarrow> CallFrame \<Rightarrow> vm_fail + unit" where
  "check_gas gas f =
     (if gas_remaining f < 0 \<or> as_u64 (gas_remaining f) < gas then Inl (halt OutOfGas) else Inr ())"

definition charge :: "vm_fail + nat \<Rightarrow> (VM, unit) action" where
  "charge cost = bind (lift_result cost) (\<lambda>g. on_frame (increase_consumed_gas g))"

definition add_callframe :: "CallFrame \<Rightarrow> VM \<Rightarrow> VM" where
  "add_callframe new vm = vm \<lparr> call_frames := call_frames vm @ [cf vm], current_call_frame := new \<rparr>"

definition pop_call_frame :: "(VM, CallFrame) action" where
  "pop_call_frame vm =
     (if call_frames vm = [] then (Inl (internal NoCallFrame), vm)
      else (Inr (cf vm), vm \<lparr> call_frames := butlast (call_frames vm),
        current_call_frame := last (call_frames vm) \<rparr>))"

definition is_initial_call_frame :: "VM \<Rightarrow> bool" where
  "is_initial_call_frame vm \<longleftrightarrow> call_frames vm = []"

definition vm_restore_cache_state :: "(VM, unit) action" where
  "vm_restore_cache_state vm = on_db (restore_cache_state (call_frame_backup (cf vm))) vm"

definition restore_cache_state_consuming :: "(VM, unit) action" where
  "restore_cache_state_consuming vm =
     on_db (restore_cache_state (call_frame_backup (cf vm)))
       (vm \<lparr> current_call_frame := (cf vm) \<lparr> call_frame_backup := CallFrameBackup_default \<rparr> \<rparr>)"

definition merge_call_frame_backup_with_parent :: "CallFrameBackup \<Rightarrow> (VM, unit) action" where
  "merge_call_frame_backup_with_parent child =
     modify_frame (\<lambda>f. f \<lparr> call_frame_backup := merge_backup (call_frame_backup f) child \<rparr>)"

definition advance_pc :: "VM \<Rightarrow> VM" where
  "advance_pc vm = vm \<lparr> current_call_frame := (cf vm) \<lparr> pc := wrapping_add (pc (cf vm)) 1 \<rparr> \<rparr>"

section \<open>State gas\<close>

definition checked_i64 :: "int \<Rightarrow> int option" where
  "checked_i64 x = (if - (2 ^ 63) \<le> x \<and> x < 2 ^ 63 then Some x else None)"

definition try_i64 :: "nat \<Rightarrow> int option" where
  "try_i64 n = (if n < 2 ^ 63 then Some (int n) else None)"

abbreviation put_gas_remaining :: "int \<Rightarrow> VM \<Rightarrow> VM" where
  "put_gas_remaining g vm \<equiv> vm \<lparr> current_call_frame := (cf vm) \<lparr> gas_remaining := g \<rparr> \<rparr>"

abbreviation put_frame_spill :: "nat \<Rightarrow> VM \<Rightarrow> VM" where
  "put_frame_spill n vm \<equiv> vm \<lparr> current_call_frame := (cf vm) \<lparr> frame_state_gas_spilled := n \<rparr> \<rparr>"

abbreviation put_state_gas_used :: "int \<Rightarrow> VM \<Rightarrow> VM" where
  "put_state_gas_used g vm \<equiv> vm \<lparr> state_gas_used := g \<rparr>"

abbreviation put_state_gas_spill :: "nat \<Rightarrow> VM \<Rightarrow> VM" where
  "put_state_gas_spill n vm \<equiv> vm \<lparr> state_gas_spill := n \<rparr>"

abbreviation put_reservoir :: "nat \<Rightarrow> VM \<Rightarrow> VM" where
  "put_reservoir n vm \<equiv> vm \<lparr> state_gas_reservoir := n \<rparr>"

text \<open>Giving gas back to the frame: \<open>checked_add(i64::try_from(n)?)\<close>.\<close>

definition return_gas :: "nat \<Rightarrow> (VM, unit) action" where
  "return_gas n =
     bind (lift_result (ok_or (try_i64 n) (internal Overflow))) (\<lambda>k.
     try_update (\<lambda>vm. checked_i64 (gas_remaining (cf vm) + k)) put_gas_remaining Overflow)"

definition increase_state_gas :: "nat \<Rightarrow> (VM, unit) action" where
  "increase_state_gas gas =
     bind (gets (\<lambda>vm. min (state_gas_reservoir vm) gas)) (\<lambda>from_reservoir.
     let spill = gas - from_reservoir in
     bind (if spill > 0 then on_frame (increase_consumed_gas spill) else ret ()) (\<lambda>_.
     bind (modify (\<lambda>vm. put_reservoir (state_gas_reservoir vm - from_reservoir) vm)) (\<lambda>_.
     bind (lift_result (ok_or (try_i64 gas) (internal Overflow))) (\<lambda>g.
     bind (try_update (\<lambda>vm. checked_i64 (state_gas_used vm + g)) put_state_gas_used Overflow) (\<lambda>_.
     bind (try_update (\<lambda>vm. checked_add (state_gas_spill vm) spill) put_state_gas_spill Overflow) (\<lambda>_.
     try_update (\<lambda>vm. checked_add (frame_state_gas_spilled (cf vm)) spill) put_frame_spill Overflow))))))"

definition credit_state_gas_refund :: "nat \<Rightarrow> (VM, unit) action" where
  "credit_state_gas_refund amount =
     bind (gets (\<lambda>vm. min (frame_state_gas_spilled (cf vm)) amount)) (\<lambda>from_gas_left.
     bind (return_gas from_gas_left) (\<lambda>_.
     bind (modify (\<lambda>vm. put_frame_spill (frame_state_gas_spilled (cf vm) - from_gas_left) vm)) (\<lambda>_.
     bind (try_update (\<lambda>vm. checked_sub (state_gas_spill vm) from_gas_left) put_state_gas_spill Underflow) (\<lambda>_.
     bind (try_update (\<lambda>vm. checked_add (state_gas_reservoir vm) (amount - from_gas_left)) put_reservoir Overflow) (\<lambda>_.
     bind (lift_result (ok_or (try_i64 amount) (internal Overflow))) (\<lambda>g.
     try_update (\<lambda>vm. checked_i64 (state_gas_used vm - g)) put_state_gas_used Overflow))))))"

definition refund_new_account_state_gas :: "bool \<Rightarrow> (VM, unit) action" where
  "refund_new_account_state_gas charged =
     (if charged then bind (gets state_gas_new_account) credit_state_gas_refund else ret ())"

definition repay_state_gas_spill :: "(VM, unit) action" where
  "repay_state_gas_spill =
     bind (gets (\<lambda>vm. min (state_gas_reservoir vm) (frame_state_gas_spilled (cf vm)))) (\<lambda>repayment.
     if repayment = 0 then ret ()
     else
       bind (return_gas repayment) (\<lambda>_.
       bind (modify (\<lambda>vm. put_reservoir (state_gas_reservoir vm - repayment) vm)) (\<lambda>_.
       bind (modify (\<lambda>vm. put_frame_spill (frame_state_gas_spilled (cf vm) - repayment) vm)) (\<lambda>_.
       try_update (\<lambda>vm. checked_sub (state_gas_spill vm) repayment) put_state_gas_spill Underflow))))"

definition refill_frame_state_gas :: "int \<Rightarrow> (VM, unit) action" where
  "refill_frame_state_gas entry =
     bind (\<lambda>vm. (ok_or (checked_i64 (state_gas_used vm - entry)) (internal Underflow), vm)) (\<lambda>frame_used.
     bind (gets (\<lambda>vm. frame_state_gas_spilled (cf vm))) (\<lambda>spilled.
     bind (return_gas spilled) (\<lambda>_.
     bind (lift_result (and_then (ok_or (try_i64 spilled) (internal Overflow)) (\<lambda>k.
       ok_or (checked_i64 (frame_used - k)) (internal Overflow)))) (\<lambda>to_reservoir.
     bind (try_update (\<lambda>vm. Option.bind (try_i64 (state_gas_reservoir vm)) (\<lambda>r.
       map_option (\<lambda>x. nat (max x 0)) (checked_i64 (r + to_reservoir)))) put_reservoir Overflow) (\<lambda>_.
     bind (modify (put_state_gas_used entry)) (\<lambda>_.
     bind (try_update (\<lambda>vm. checked_sub (state_gas_spill vm) spilled) put_state_gas_spill Underflow) (\<lambda>_.
     modify (put_frame_spill 0))))))))"

section \<open>Accounts\<close>

definition u256_checked_add :: "u256 \<Rightarrow> u256 \<Rightarrow> u256 option" where
  "u256_checked_add a b = (if unat a + unat b < 2 ^ 256 then Some (a + b) else None)"

definition u256_checked_sub :: "u256 \<Rightarrow> u256 \<Rightarrow> u256 option" where
  "u256_checked_sub a b = (if b \<le> a then Some (a - b) else None)"

definition get_account_mut :: "address \<Rightarrow> (LevmAccount \<Rightarrow> LevmAccount) \<Rightarrow> (VM, LevmAccount) action" where
  "get_account_mut a upd =
     bind (on_db (get_account a)) (\<lambda>acc.
     bind (modify_frame (\<lambda>f. f \<lparr> call_frame_backup := backup_account_info a acc (call_frame_backup f) \<rparr>)) (\<lambda>_.
     on_db (db_get_account_mut a upd)))"

definition put_balance :: "address \<Rightarrow> LevmAccount \<Rightarrow> u256 \<Rightarrow> (VM, unit) action" where
  "put_balance a acc b = on_db (modify (cache_account a (acc \<lparr> info := (info acc) \<lparr> balance := b \<rparr> \<rparr>)))"

definition increase_account_balance :: "address \<Rightarrow> u256 \<Rightarrow> (VM, unit) action" where
  "increase_account_balance a increase =
     (if increase = 0 then ret ()
      else bind (get_account_mut a (\<lambda>acc. acc)) (\<lambda>acc.
        bind (lift_result (ok_or (u256_checked_add (balance (info acc)) increase) (internal Overflow)))
          (put_balance a acc)))"

definition decrease_account_balance :: "address \<Rightarrow> u256 \<Rightarrow> (VM, unit) action" where
  "decrease_account_balance a decrease =
     (if decrease = 0 then ret ()
      else bind (get_account_mut a (\<lambda>acc. acc)) (\<lambda>acc.
        bind (lift_result (ok_or (u256_checked_sub (balance (info acc)) decrease) (internal Underflow)))
          (put_balance a acc)))"

definition transfer :: "address \<Rightarrow> address \<Rightarrow> u256 \<Rightarrow> (VM, unit) action" where
  "transfer from to' value =
     (if value \<noteq> 0
      then bind (decrease_account_balance from value) (\<lambda>_. increase_account_balance to' value)
      else ret ())"

definition update_account_bytecode :: "address \<Rightarrow> Code \<Rightarrow> (VM, unit) action" where
  "update_account_bytecode a new =
     bind (get_account_mut a (\<lambda>acc. acc \<lparr> info := (info acc) \<lparr> info_code_hash := code_hash new \<rparr> \<rparr>)) (\<lambda>_ vm.
       case fmlookup (codes (db vm)) (code_hash new) of
         Some _ \<Rightarrow> (Inr (), vm)
       | None \<Rightarrow>
           (Inr (), vm \<lparr> db := (db vm) \<lparr> codes := fmupd (code_hash new) new (codes (db vm)) \<rparr>,
              current_call_frame := (cf vm) \<lparr> call_frame_backup := (call_frame_backup (cf vm))
                \<lparr> inserted_code_hashes := inserted_code_hashes (call_frame_backup (cf vm)) @ [code_hash new] \<rparr> \<rparr> \<rparr>))"

definition increment_account_nonce :: "address \<Rightarrow> (VM, nat) action" where
  "increment_account_nonce a =
     bind (get_account_mut a (\<lambda>acc. acc)) (\<lambda>acc.
     bind (lift_result (ok_or (checked_add (nonce (info acc)) 1) (internal Overflow))) (\<lambda>n.
     bind (on_db (modify (cache_account a (acc \<lparr> info := (info acc) \<lparr> nonce := n \<rparr> \<rparr>)))) (\<lambda>_. ret n)))"

text \<open>A slot is looked for in the cached account, in the committed baseline and in the store.\<close>

definition cache_slot :: "address \<Rightarrow> h256 \<Rightarrow> u256 \<Rightarrow> (GeneralizedDatabase, u256) action" where
  "cache_slot a k v d =
     (case fmlookup (current_accounts_state d) a of
        Some acc \<Rightarrow> (Inr v, cache_account a (acc \<lparr> storage := fmupd k v (storage acc) \<rparr>) d)
      | None \<Rightarrow> (Inl (internal AccountNotFound), d))"

definition get_storage_value :: "address \<Rightarrow> h256 \<Rightarrow> (VM, u256) action" where
  "get_storage_value a k = on_db (\<lambda>d.
     case fmlookup (current_accounts_state d) a of
       None \<Rightarrow> (Inl (internal AccountNotFound), d)
     | Some acc \<Rightarrow>
       (case fmlookup (storage acc) k of
          Some v \<Rightarrow> (Inr v, d)
        | None \<Rightarrow>
          if status acc = DestroyedModified then (Inr 0, d)
          else (case Option.bind (fmlookup (initial_accounts_state d) a) (\<lambda>ini. fmlookup (storage ini) k) of
              Some v \<Rightarrow> cache_slot a k v d
            | None \<Rightarrow> bind (get_value_from_database a k) (cache_slot a k) d)))"

definition access_storage_slot_for_sstore :: "address \<Rightarrow> h256 \<Rightarrow> (VM, u256 \<times> u256 \<times> bool) action" where
  "access_storage_slot_for_sstore a k =
     bind (on_substate (add_accessed_slot a k)) (\<lambda>cold.
     bind (get_storage_value a k) (\<lambda>current_value vm.
       let slots = or_empty (fmlookup (storage_original_values vm) a);
           original_value = (case fmlookup slots k of Some v \<Rightarrow> v | None \<Rightarrow> current_value)
       in (Inr (current_value, original_value, cold),
           vm \<lparr> storage_original_values :=
             fmupd a (or_insert k current_value slots) (storage_original_values vm) \<rparr>)))"

definition backup_storage_slot :: "address \<Rightarrow> h256 \<Rightarrow> u256 \<Rightarrow> (VM, unit) action" where
  "backup_storage_slot a k current_value =
     modify_frame (\<lambda>f. f \<lparr> call_frame_backup := backup_slot a k current_value (call_frame_backup f) \<rparr>)"

definition update_account_storage :: "address \<Rightarrow> h256 \<Rightarrow> u256 \<Rightarrow> u256 \<Rightarrow> (VM, unit) action" where
  "update_account_storage a k new_value current_value =
     bind (backup_storage_slot a k current_value) (\<lambda>_.
     bind (get_account_mut a (\<lambda>acc. acc \<lparr> storage := fmupd k new_value (storage acc) \<rparr>)) (\<lambda>_. ret ()))"

end
