(* ===== verification/Evm_Handlers.thy ===== *)
theory Evm_Handlers
  imports Evm_Vm
begin

text \<open>
  The opcode handlers of \<open>src/crates/vm/levm/src/opcode_handlers\<close> that work inside one frame: arithmetic,
  comparison, stack, memory, storage, control flow, environment and block opcodes, \<open>KECCAK256\<close>, \<open>LOG\<close>,
  \<open>RETURN\<close>, \<open>REVERT\<close>, \<open>STOP\<close> and \<open>INVALID\<close>.  A handler is the action its \<open>eval\<close> performs, in the
  order of its statements, so a failed handler leaves the state the code leaves.
\<close>

unbundle bit_operations_syntax

section \<open>Words, addresses and hashes\<close>

text \<open>
  An address or hash is an array of bytes, most significant first.  The handlers reverse the array and reinterpret
  it as four little-endian limbs, or the other way round.
\<close>

definition address_bytes :: "address \<Rightarrow> bytes" where
  "address_bytes a = be_bytes 20 (unat a)"

definition address_from_slice :: "bytes \<Rightarrow> address" where
  "address_from_slice bs = word_of_nat (be_nat bs)"

definition transmute_limbs :: "bytes \<Rightarrow> u256" where
  "transmute_limbs bs = of_limbs (map (\<lambda>i. be_nat (rev (slice_range (8 * i) (8 * i + 8) bs))) [0..<4])"

definition transmute_bytes :: "u256 \<Rightarrow> bytes" where
  "transmute_bytes v = concat (map (\<lambda>i. rev (be_bytes 8 (limb v i))) [0..<4])"

definition bytes_word :: "bytes \<Rightarrow> u256" where
  "bytes_word bs = transmute_limbs (rev bs)"

definition word_hash :: "u256 \<Rightarrow> h256" where
  "word_hash v = word_of_nat (be_nat (rev (transmute_bytes v)))"

definition hash_bytes :: "h256 \<Rightarrow> bytes" where
  "hash_bytes h = be_bytes 32 (unat h)"

definition padded_address :: "address \<Rightarrow> bytes" where
  "padded_address a = replicate 12 0 @ address_bytes a"

definition address_to_word :: "address \<Rightarrow> u256" where
  "address_to_word a = u256_from_big_endian_const (padded_address a)"

definition word_to_address :: "u256 \<Rightarrow> address" where
  "word_to_address v = address_from_slice (drop 12 (u256_to_big_endian v))"

definition u256_of_bool :: "bool \<Rightarrow> u256" where
  "u256_of_bool b = of_bool b"

text \<open>Conversion of a signed number to \<open>U256\<close> panics below zero.\<close>

definition u256_from_i64 :: "int \<Rightarrow> vm_fail + u256" where
  "u256_from_i64 x = (if x < 0 then Inl VmPanic else Inr (word_of_int x))"

section \<open>Shapes the handlers share\<close>

definition continue :: "(VM, 'a) action \<Rightarrow> (VM, opcode_result) action" where
  "continue m = bind m (\<lambda>_. ret Continue)"

definition binary_op :: "nat \<Rightarrow> (u256 \<Rightarrow> u256 \<Rightarrow> u256) \<Rightarrow> (VM, opcode_result) action" where
  "binary_op gas f = bind (charge (Inr gas)) (\<lambda>_. continue (on_stack (pop1_and_top_mut f)))"

definition unary_op :: "nat \<Rightarrow> (u256 \<Rightarrow> u256) \<Rightarrow> (VM, opcode_result) action" where
  "unary_op gas f = bind (charge (Inr gas)) (\<lambda>_. continue (on_stack (top_mut f)))"

definition push_op :: "nat \<Rightarrow> (VM \<Rightarrow> u256) \<Rightarrow> (VM, opcode_result) action" where
  "push_op gas f = bind (charge (Inr gas)) (\<lambda>_. bind (gets f) (\<lambda>v. continue (on_stack (push v))))"

definition pop2 :: "(u256 \<Rightarrow> u256 \<Rightarrow> (VM, 'a) action) \<Rightarrow> (VM, 'a) action" where
  "pop2 k = bind (on_stack (pop 2)) (\<lambda>xs. k (xs ! 0) (xs ! 1))"

definition pop3 :: "(u256 \<Rightarrow> u256 \<Rightarrow> u256 \<Rightarrow> (VM, 'a) action) \<Rightarrow> (VM, 'a) action" where
  "pop3 k = bind (on_stack (pop 3)) (\<lambda>xs. k (xs ! 0) (xs ! 1) (xs ! 2))"

definition pop4 :: "(u256 \<Rightarrow> u256 \<Rightarrow> u256 \<Rightarrow> u256 \<Rightarrow> (VM, 'a) action) \<Rightarrow> (VM, 'a) action" where
  "pop4 k = bind (on_stack (pop 4)) (\<lambda>xs. k (xs ! 0) (xs ! 1) (xs ! 2) (xs ! 3))"

text \<open>A charge that depends on the current size of the memory.\<close>

definition charge_with :: "(nat \<Rightarrow> vm_fail + nat) \<Rightarrow> (VM, unit) action" where
  "charge_with cost = bind (gets (\<lambda>vm. mem_len (memory (cf vm)))) (\<lambda>current_size. charge (cost current_size))"

section \<open>Arithmetic\<close>

definition OpAddHandler :: "(VM, opcode_result) action" where
  "OpAddHandler = binary_op ADD_GAS (\<lambda>lhs rhs. lhs + rhs)"

definition OpSubHandler :: "(VM, opcode_result) action" where
  "OpSubHandler = binary_op SUB_GAS (\<lambda>lhs rhs. lhs - rhs)"

definition OpMulHandler :: "(VM, opcode_result) action" where
  "OpMulHandler = binary_op MUL_GAS (\<lambda>lhs rhs. lhs * rhs)"

definition OpDivHandler :: "(VM, opcode_result) action" where
  "OpDivHandler = binary_op DIV_GAS (\<lambda>lhs rhs. unwrap_or (u256_checked_div lhs rhs) 0)"

definition OpSDivHandler :: "(VM, opcode_result) action" where
  "OpSDivHandler = binary_op SDIV_GAS op_sdiv"

definition OpModHandler :: "(VM, opcode_result) action" where
  "OpModHandler = binary_op MOD_GAS (\<lambda>lhs rhs. unwrap_or (u256_checked_rem lhs rhs) 0)"

definition OpSModHandler :: "(VM, opcode_result) action" where
  "OpSModHandler = binary_op SMOD_GAS op_smod"

definition OpAddModHandler :: "(VM, opcode_result) action" where
  "OpAddModHandler =
     bind (charge (Inr ADDMOD_GAS)) (\<lambda>_. pop3 (\<lambda>lhs rhs m.
       if m = 0 \<or> m = 1 then continue (on_stack push_zero)
       else continue (on_stack (push (op_addmod lhs rhs m)))))"

definition OpMulModHandler :: "(VM, opcode_result) action" where
  "OpMulModHandler =
     bind (charge (Inr MULMOD_GAS)) (\<lambda>_. pop3 (\<lambda>multiplicand multiplier modulus.
       if modulus = 0 \<or> multiplicand = 0 \<or> multiplier = 0 then continue (on_stack push_zero)
       else bind (gets (\<lambda>vm. crypto_mulmod256 (crypto vm) (u256_to_big_endian multiplicand)
              (u256_to_big_endian multiplier) (u256_to_big_endian modulus))) (\<lambda>result_bytes.
         continue (on_stack (push (u256_from_big_endian_const result_bytes))))))"

definition OpExpHandler :: "(VM, opcode_result) action" where
  "OpExpHandler =
     pop2 (\<lambda>base ex. bind (charge (gas_exp ex)) (\<lambda>_. continue (on_stack (push (op_exp base ex)))))"

definition OpSignExtendHandler :: "(VM, opcode_result) action" where
  "OpSignExtendHandler = binary_op SIGNEXTEND_GAS op_signextend"

definition OpClzHandler :: "(VM, opcode_result) action" where
  "OpClzHandler = unary_op CLZ_GAS op_clz"

section \<open>Comparison and bits\<close>

definition OpLtHandler :: "(VM, opcode_result) action" where
  "OpLtHandler = binary_op LT_GAS (\<lambda>lhs rhs. u256_of_bool (lhs < rhs))"

definition OpGtHandler :: "(VM, opcode_result) action" where
  "OpGtHandler = binary_op GT_GAS (\<lambda>lhs rhs. u256_of_bool (lhs > rhs))"

definition OpSLtHandler :: "(VM, opcode_result) action" where
  "OpSLtHandler = binary_op SLT_GAS op_slt"

definition OpSGtHandler :: "(VM, opcode_result) action" where
  "OpSGtHandler = binary_op SGT_GAS op_sgt"

definition OpEqHandler :: "(VM, opcode_result) action" where
  "OpEqHandler = binary_op EQ_GAS (\<lambda>lhs rhs. u256_of_bool (lhs = rhs))"

definition OpIsZeroHandler :: "(VM, opcode_result) action" where
  "OpIsZeroHandler = unary_op ISZERO_GAS (\<lambda>v. u256_of_bool (v = 0))"

definition OpAndHandler :: "(VM, opcode_result) action" where
  "OpAndHandler = binary_op AND_GAS (\<lambda>lhs rhs. lhs AND rhs)"

definition OpOrHandler :: "(VM, opcode_result) action" where
  "OpOrHandler = binary_op OR_GAS (\<lambda>lhs rhs. lhs OR rhs)"

definition OpXorHandler :: "(VM, opcode_result) action" where
  "OpXorHandler = binary_op XOR_GAS (\<lambda>lhs rhs. lhs XOR rhs)"

definition OpNotHandler :: "(VM, opcode_result) action" where
  "OpNotHandler = unary_op NOT_GAS (\<lambda>v. NOT v)"

definition OpByteHandler :: "(VM, opcode_result) action" where
  "OpByteHandler = binary_op BYTE_GAS op_byte"

definition OpShlHandler :: "(VM, opcode_result) action" where
  "OpShlHandler = binary_op SHL_GAS op_shl"

definition OpShrHandler :: "(VM, opcode_result) action" where
  "OpShrHandler = binary_op SHR_GAS op_shr"

definition OpSarHandler :: "(VM, opcode_result) action" where
  "OpSarHandler = binary_op SAR_GAS op_sar"

section \<open>Stack\<close>

definition OpPopHandler :: "(VM, opcode_result) action" where
  "OpPopHandler = bind (charge (Inr POP_GAS)) (\<lambda>_. continue (on_stack pop1))"

definition OpPush0Handler :: "(VM, opcode_result) action" where
  "OpPush0Handler = bind (charge (Inr PUSH0_GAS)) (\<lambda>_. continue (on_stack push_zero))"

definition OpPushHandler :: "nat \<Rightarrow> (VM, opcode_result) action" where
  "OpPushHandler n =
     bind (gets (\<lambda>vm. pc (cf vm))) (\<lambda>literal_offset.
     bind (lift_result (ok_or (checked_add literal_offset n) (internal Overflow))) (\<lambda>literal_end.
     bind (modify_frame (\<lambda>f. f \<lparr> pc := literal_end \<rparr>)) (\<lambda>_.
     bind (charge (Inr PUSHN_GAS)) (\<lambda>_.
     bind (gets (\<lambda>vm. dispatch_buf (frame_code (cf vm)))) (\<lambda>code.
     bind (lift_result (read_unchecked literal_offset literal_end code)) (\<lambda>buf.
     continue (on_stack (push (u256_from_big_endian_const buf)))))))))"

definition OpDupHandler :: "nat \<Rightarrow> (VM, opcode_result) action" where
  "OpDupHandler n = bind (charge (Inr DUPN_GAS)) (\<lambda>_. continue (on_stack (dup n)))"

definition OpSwapHandler :: "nat \<Rightarrow> (VM, opcode_result) action" where
  "OpSwapHandler n = bind (charge (Inr SWAPN_GAS)) (\<lambda>_. continue (on_stack (stack_swap n)))"

text \<open>The immediate byte of \<open>DUPN\<close>, \<open>SWAPN\<close> and \<open>EXCHANGE\<close>, zero past the end.\<close>

definition immediate :: "VM \<Rightarrow> byte" where
  "immediate vm =
     (let code = dispatch_buf (frame_code (cf vm)) in if pc (cf vm) < length code then code ! pc (cf vm) else 0)"

definition skip_immediate :: "(VM, opcode_result) action" where
  "skip_immediate = continue (modify_frame (\<lambda>f. f \<lparr> pc := wrapping_add (pc f) 1 \<rparr>))"

text \<open>Two distinct array elements without a bounds check, exchanged.\<close>

definition swap_unchecked :: "nat \<Rightarrow> nat \<Rightarrow> (Stack, unit) action" where
  "swap_unchecked i j s =
     (if i < length (vals s) \<and> j < length (vals s) \<and> i \<noteq> j
      then (Inr (), s \<lparr> vals := (vals s)[i := vals s ! j, j := vals s ! i] \<rparr>) else (Inl UndefinedBehaviour, s))"

definition OpDupNHandler :: "(VM, opcode_result) action" where
  "OpDupNHandler =
     bind (charge (Inr DUPN_GAS)) (\<lambda>_.
     bind (gets immediate) (\<lambda>byte.
     bind (guard_err (0x5B \<le> byte \<and> byte < 0x80) (halt InvalidOpcode)) (\<lambda>_.
     let relative_offset = byte + 145 in
     bind (gets (\<lambda>vm. stack (cf vm))) (\<lambda>s.
     bind (lift_result (ok_or (checked_add (offset s) (wrapping_sub (unat relative_offset) 1)) (halt StackUnderflow)))
       (\<lambda>absolute_offset.
     bind (guard_err (absolute_offset \<ge> length (vals s)) (halt StackUnderflow)) (\<lambda>_.
     bind (lift_result (get_unchecked (vals s) absolute_offset)) (\<lambda>v.
     bind (on_stack (push v)) (\<lambda>_. skip_immediate))))))))"

definition OpSwapNHandler :: "(VM, opcode_result) action" where
  "OpSwapNHandler =
     bind (charge (Inr SWAPN_GAS)) (\<lambda>_.
     bind (gets immediate) (\<lambda>byte.
     bind (guard_err (0x5B \<le> byte \<and> byte < 0x80) (halt InvalidOpcode)) (\<lambda>_.
     let relative_offset = byte + 145 in
     bind (gets (\<lambda>vm. offset (stack (cf vm)))) (\<lambda>top_offset.
     bind (lift_result (ok_or (checked_add top_offset (unat relative_offset)) (halt StackUnderflow)))
       (\<lambda>absolute_offset.
     bind (guard_err (absolute_offset \<ge> STACK_LIMIT) (halt StackUnderflow)) (\<lambda>_.
     bind (on_stack (swap_unchecked top_offset absolute_offset)) (\<lambda>_. skip_immediate)))))))"

definition exchange_offsets :: "byte \<Rightarrow> byte \<times> byte" where
  "exchange_offsets b =
     (let byte = b XOR 0x8F; q = drop_bit 4 byte; r = byte AND 0x0F
      in if q < r then (q + 1, r + 1) else (r + 1, 29 - q))"

definition OpExchangeHandler :: "(VM, opcode_result) action" where
  "OpExchangeHandler =
     bind (charge (Inr EXCHANGE_GAS)) (\<lambda>_.
     bind (gets immediate) (\<lambda>byte.
     bind (guard_err (0x52 \<le> byte \<and> byte < 0x80) (halt InvalidOpcode)) (\<lambda>_.
     bind (gets (\<lambda>vm. offset (stack (cf vm)))) (\<lambda>stack_offset.
     bind (lift_result (ok_or (checked_add stack_offset (unat (fst (exchange_offsets byte)))) (halt StackUnderflow)))
       (\<lambda>q.
     bind (lift_result (ok_or (checked_add stack_offset (unat (snd (exchange_offsets byte)))) (halt StackUnderflow)))
       (\<lambda>r.
     bind (guard_err (q \<ge> STACK_LIMIT \<or> r \<ge> STACK_LIMIT) (halt StackUnderflow)) (\<lambda>_.
     bind (on_stack (swap_unchecked q r)) (\<lambda>_. skip_immediate))))))))"

section \<open>Memory, storage and control flow\<close>

definition OpGasHandler :: "(VM, opcode_result) action" where
  "OpGasHandler =
     bind (charge (Inr GAS_GAS)) (\<lambda>_.
     bind (gets (\<lambda>vm. gas_remaining (cf vm))) (\<lambda>g.
     bind (lift_result (u256_from_i64 g)) (\<lambda>v. continue (on_stack (push v)))))"

definition OpPcHandler :: "(VM, opcode_result) action" where
  "OpPcHandler = push_op PC_GAS (\<lambda>vm. word_of_nat (wrapping_sub (pc (cf vm)) 1))"

definition OpMLoadHandler :: "(VM, opcode_result) action" where
  "OpMLoadHandler =
     bind (on_stack (top_mut (\<lambda>v. v))) (\<lambda>top.
     bind (lift_result (u256_to_usize top)) (\<lambda>off.
     bind (lift_result (calculate_memory_size off 32)) (\<lambda>new_size.
     bind (charge_with (gas_mload new_size)) (\<lambda>_.
     bind (on_memory (load_word_prerounded off new_size)) (\<lambda>word.
     continue (on_stack (set_top_unchecked word)))))))"

definition OpMStoreHandler :: "(VM, opcode_result) action" where
  "OpMStoreHandler = pop2 (\<lambda>off value.
     bind (lift_result (u256_to_usize off)) (\<lambda>off.
     bind (lift_result (calculate_memory_size off 32)) (\<lambda>new_size.
     bind (charge_with (gas_mstore new_size)) (\<lambda>_.
     continue (on_memory (store_word_prerounded off value new_size))))))"

definition OpMStore8Handler :: "(VM, opcode_result) action" where
  "OpMStore8Handler = pop2 (\<lambda>off value.
     bind (lift_result (u256_to_usize off)) (\<lambda>off.
     bind (lift_result (calculate_memory_size off 1)) (\<lambda>new_size.
     bind (charge_with (gas_mstore8 new_size)) (\<lambda>_.
     continue (on_memory (store_data off [u256_byte value 0]))))))"

text \<open>\<open>u256_to_usize(v).unwrap_or(usize::MAX)\<close>\<close>

definition usize_or_max :: "u256 \<Rightarrow> nat" where
  "usize_or_max v = (case u256_to_usize v of Inl _ \<Rightarrow> U64_MAX | Inr n \<Rightarrow> n)"

definition OpMCopyHandler :: "(VM, opcode_result) action" where
  "OpMCopyHandler = pop3 (\<lambda>dst_offset src_offset len.
     bind (lift_result (size_offset_to_usize len dst_offset)) (\<lambda>(len, dst_offset).
     let src_offset = usize_or_max src_offset in
     bind (lift_result (calculate_memory_size (max src_offset dst_offset) len)) (\<lambda>new_size.
     bind (charge_with (\<lambda>current. gas_mcopy new_size current len)) (\<lambda>_.
     continue (on_memory (copy_within src_offset dst_offset len))))))"

definition OpMSizeHandler :: "(VM, opcode_result) action" where
  "OpMSizeHandler = push_op MSIZE_GAS (\<lambda>vm. word_of_nat (mem_len (memory (cf vm))))"

definition OpTLoadHandler :: "(VM, opcode_result) action" where
  "OpTLoadHandler =
     bind (charge (Inr TLOAD_GAS)) (\<lambda>_.
     bind (on_stack pop1) (\<lambda>key.
     bind (gets (\<lambda>vm. get_transient (substate vm) (to_address (cf vm)) key)) (\<lambda>v.
     continue (on_stack (push v)))))"

text \<open>The check that starts every handler that changes state.\<close>

definition not_static :: "(VM, unit) action" where
  "not_static vm = guard_err (is_static (cf vm)) (halt OpcodeNotAllowedInStaticContext) vm"

definition OpTStoreHandler :: "(VM, opcode_result) action" where
  "OpTStoreHandler =
     bind not_static (\<lambda>_.
     bind (charge (Inr TSTORE_GAS)) (\<lambda>_. pop2 (\<lambda>key value.
     continue (modify (\<lambda>vm. vm \<lparr> substate := set_transient (to_address (cf vm)) key value (substate vm) \<rparr>)))))"

definition OpSLoadHandler :: "(VM, opcode_result) action" where
  "OpSLoadHandler =
     bind (on_stack pop1) (\<lambda>storage_slot_key.
     bind (gets (\<lambda>vm. to_address (cf vm))) (\<lambda>address.
     let key = word_hash storage_slot_key in
     bind (on_substate (add_accessed_slot address key)) (\<lambda>cold.
     bind (gets vm_fork) (\<lambda>f.
     bind (charge (gas_sload cold f)) (\<lambda>_.
     bind (get_storage_value address key) (\<lambda>value.
     continue (on_stack (push value))))))))"

text \<open>The change of the refund counter on a write, \<open>delta\<close>.\<close>

definition sstore_delta :: "Fork \<Rightarrow> u256 \<Rightarrow> u256 \<Rightarrow> u256 \<Rightarrow> int" where
  "sstore_delta f original_value current_value value =
     (let (remove_slot_cost, restore_empty_slot_cost, restore_slot_cost) =
        (if f \<ge> Amsterdam then (STORAGE_CLEAR_REFUND_AMSTERDAM_GAS, 10000, 10000) else (4800, 19900, 2800))
      in if current_value = original_value
         then (if original_value \<noteq> 0 \<and> value = 0 then remove_slot_cost else 0)
         else (if original_value \<noteq> 0
               then (if current_value = 0 then - remove_slot_cost
                     else if value = 0 then remove_slot_cost else 0) else 0) +
              (if value = original_value
               then (if original_value = 0 then restore_empty_slot_cost else restore_slot_cost) else 0))"

definition checked_add_signed :: "nat \<Rightarrow> int \<Rightarrow> nat option" where
  "checked_add_signed n d = (if 0 \<le> int n + d \<and> int n + d < 2 ^ 64 then Some (nat (int n + d)) else None)"

definition add_refund :: "int \<Rightarrow> (VM, unit) action" where
  "add_refund delta vm =
     (case checked_add_signed (refunded_gas (here (substate vm))) delta of
        Some r \<Rightarrow> (Inr (), vm \<lparr> substate := set_refunded_gas r (substate vm) \<rparr>)
      | None \<Rightarrow> (Inl (internal (if delta < 0 then Underflow else Overflow)), vm))"

definition sstore_gate :: "address \<Rightarrow> h256 \<Rightarrow> (VM, unit) action" where
  "sstore_gate a key vm =
     (let access_cost = (if \<not> is_slot_accessed (substate vm) a key then cold_storage_access_cost (vm_fork vm)
            else SSTORE_DEFAULT_DYNAMIC_GAS)
      in (check_gas (max access_cost (nat SSTORE_STIPEND_GAS + 1)) (cf vm), vm))"

definition OpSStoreHandler :: "(VM, opcode_result) action" where
  "OpSStoreHandler =
     bind not_static (\<lambda>_.
     bind (gets vm_fork) (\<lambda>f.
     bind (\<lambda>vm. guard_err (f < Amsterdam \<and> gas_remaining (cf vm) \<le> SSTORE_STIPEND_GAS) (halt OutOfGas) vm) (\<lambda>_.
     pop2 (\<lambda>storage_slot_key value.
     bind (gets (\<lambda>vm. to_address (cf vm))) (\<lambda>a.
     let key = word_hash storage_slot_key in
     bind (if f \<ge> Amsterdam then sstore_gate a key else ret ()) (\<lambda>_.
     bind (access_storage_slot_for_sstore a key) (\<lambda>(current_value, original_value, storage_slot_was_cold).
     let needs_state_gas = f \<ge> Amsterdam \<and> value \<noteq> current_value \<and> current_value = original_value \<and>
           original_value = 0 \<and> value \<noteq> 0 in
     bind (charge (gas_sstore original_value current_value value storage_slot_was_cold f)) (\<lambda>_.
     bind (if needs_state_gas then bind (gets state_gas_storage_set) increase_state_gas else ret ()) (\<lambda>_.
     let is_zero_to_n_to_zero_amsterdam = f \<ge> Amsterdam \<and> value \<noteq> current_value \<and> current_value \<noteq> original_value \<and>
           value = original_value \<and> original_value = 0 in
     bind (if value \<noteq> current_value then add_refund (sstore_delta f original_value current_value value) else ret ())
       (\<lambda>_.
     bind (if is_zero_to_n_to_zero_amsterdam then bind (gets state_gas_storage_set) credit_state_gas_refund else ret ())
       (\<lambda>_.
     continue (if value \<noteq> current_value then update_account_storage a key value current_value else ret ()))))))))))))"

definition OpJumpDestHandler :: "(VM, opcode_result) action" where
  "OpJumpDestHandler = continue (charge (Inr JUMPDEST_GAS))"

definition jump :: "nat \<Rightarrow> (VM, unit) action" where
  "jump target =
     bind (gets (\<lambda>vm. is_valid_jumpdest (frame_code (cf vm)) target)) (\<lambda>valid.
       if valid
       then bind (modify_frame (\<lambda>f. f \<lparr> pc := wrapping_add target 1 \<rparr>)) (\<lambda>_. charge (Inr JUMPDEST_GAS))
       else err (halt InvalidJump))"

definition OpJumpHandler :: "(VM, opcode_result) action" where
  "OpJumpHandler =
     bind (charge (Inr JUMP_GAS)) (\<lambda>_.
     bind (on_stack pop1) (\<lambda>target. continue (jump (unwrap_or (try_usize target) U64_MAX))))"

definition OpJumpIHandler :: "(VM, opcode_result) action" where
  "OpJumpIHandler =
     bind (charge (Inr JUMPI_GAS)) (\<lambda>_. pop2 (\<lambda>target condition.
     continue (if condition \<noteq> 0 then jump (unwrap_or (try_usize target) U64_MAX) else ret ())))"

section \<open>Hashing and logs\<close>

definition EMPTY_KECCAK_U256 :: u256 where
  "EMPTY_KECCAK_U256 = of_limbs [0x7bfad8045d85a470, 0xe500b653ca82273b, 0x927e7db2dcc703c0, 0xc5d2460186f7233c]"

definition OpKeccak256Handler :: "(VM, opcode_result) action" where
  "OpKeccak256Handler = pop2 (\<lambda>off len.
     bind (lift_result (size_offset_to_usize len off)) (\<lambda>(len, off).
     bind (lift_result (calculate_memory_size off len)) (\<lambda>new_size.
     bind (charge_with (\<lambda>current. gas_keccak256 new_size current len)) (\<lambda>_.
     bind (if len = 0 then ret EMPTY_KECCAK_U256
           else bind (gets crypto) (\<lambda>c.
             bind (on_memory (with_range off len (keccak256 c))) (\<lambda>h.
             lift_result (u256_from_big_endian (hash_bytes h))))) (\<lambda>hash.
     continue (on_stack (push hash)))))))"

definition OpLogHandler :: "nat \<Rightarrow> (VM, opcode_result) action" where
  "OpLogHandler n =
     bind not_static (\<lambda>_. pop2 (\<lambda>off len.
     bind (on_stack (pop n)) (\<lambda>ts.
     bind (lift_result (size_offset_to_usize len off)) (\<lambda>(len, off).
     bind (lift_result (calculate_memory_size off len)) (\<lambda>new_size.
     bind (charge_with (\<lambda>current. gas_log new_size current len n)) (\<lambda>_.
     bind (on_memory (load_range off len)) (\<lambda>d.
     continue (modify (\<lambda>vm. vm \<lparr> substate := add_log
       \<lparr> log_address = to_address (cf vm), topics = map word_hash ts, log_data = d \<rparr> (substate vm) \<rparr>)))))))))"

section \<open>Environment\<close>

definition OpAddressHandler :: "(VM, opcode_result) action" where
  "OpAddressHandler = push_op ADDRESS_GAS (\<lambda>vm. bytes_word (padded_address (to_address (cf vm))))"

definition OpBalanceHandler :: "(VM, opcode_result) action" where
  "OpBalanceHandler =
     bind (on_stack pop1) (\<lambda>w. let address = word_to_address w in
     bind (on_substate (add_accessed_address address)) (\<lambda>cold.
     bind (gets vm_fork) (\<lambda>f.
     bind (charge (gas_balance cold f)) (\<lambda>_.
     bind (on_db (get_account address)) (\<lambda>acc.
     continue (on_stack (push (balance (info acc)))))))))"

definition OpOriginHandler :: "(VM, opcode_result) action" where
  "OpOriginHandler = push_op ORIGIN_GAS (\<lambda>vm. bytes_word (padded_address (origin (env vm))))"

definition OpGasPriceHandler :: "(VM, opcode_result) action" where
  "OpGasPriceHandler = push_op GASPRICE_GAS (\<lambda>vm. gas_price (env vm))"

definition OpCallerHandler :: "(VM, opcode_result) action" where
  "OpCallerHandler = push_op CALLER_GAS (\<lambda>vm. bytes_word (padded_address (msg_sender (cf vm))))"

definition OpCallValueHandler :: "(VM, opcode_result) action" where
  "OpCallValueHandler = push_op CALLVALUE_GAS (\<lambda>vm. msg_value (cf vm))"

definition calldata_word :: "bytes \<Rightarrow> u256 \<Rightarrow> u256" where
  "calldata_word data off =
     (case Option.bind (try_usize off) (\<lambda>n. if n \<le> length data then Some (drop n data) else None) of
        Some rest \<Rightarrow>
          if length rest \<ge> 32 then u256_from_big_endian_const (take 32 rest)
          else u256_from_big_endian_const (rest @ replicate (32 - length rest) 0)
      | None \<Rightarrow> 0)"

definition OpCallDataLoadHandler :: "(VM, opcode_result) action" where
  "OpCallDataLoadHandler =
     bind (charge (Inr CALLDATALOAD_GAS)) (\<lambda>_.
     bind (on_stack pop1) (\<lambda>off.
     bind (gets (\<lambda>vm. calldata_word (calldata (cf vm)) off)) (\<lambda>v.
     continue (on_stack (push v)))))"

definition OpCallDataSizeHandler :: "(VM, opcode_result) action" where
  "OpCallDataSizeHandler = push_op CALLDATASIZE_GAS (\<lambda>vm. word_of_nat (length (calldata (cf vm))))"

text \<open>The copy the four copying handlers end with, padded with zeros.\<close>

definition copy_to_memory :: "bytes \<Rightarrow> nat \<Rightarrow> nat \<Rightarrow> nat \<Rightarrow> (VM, unit) action" where
  "copy_to_memory source dst_offset src_offset len =
     (if len > 0 then
        let data = take len (drop src_offset source) in
        bind (on_memory (store_data dst_offset data)) (\<lambda>_.
          if length data < len
          then on_memory (store_zeros (wrapping_add dst_offset (length data)) (len - length data)) else ret ())
      else ret ())"

definition OpCallDataCopyHandler :: "(VM, opcode_result) action" where
  "OpCallDataCopyHandler = pop3 (\<lambda>dst_offset src_offset len.
     bind (lift_result (size_offset_to_usize len dst_offset)) (\<lambda>(len, dst_offset).
     let src_offset = usize_or_max src_offset in
     bind (lift_result (calculate_memory_size dst_offset len)) (\<lambda>new_size.
     bind (charge_with (\<lambda>current. gas_calldatacopy new_size current len)) (\<lambda>_.
     bind (gets (\<lambda>vm. calldata (cf vm))) (\<lambda>source.
     continue (copy_to_memory source dst_offset src_offset len))))))"

definition OpCodeSizeHandler :: "(VM, opcode_result) action" where
  "OpCodeSizeHandler = push_op CODESIZE_GAS (\<lambda>vm. word_of_nat (code_len (frame_code (cf vm))))"

definition OpCodeCopyHandler :: "(VM, opcode_result) action" where
  "OpCodeCopyHandler = pop3 (\<lambda>dst_offset src_offset len.
     bind (lift_result (size_offset_to_usize len dst_offset)) (\<lambda>(len, dst_offset).
     let src_offset = usize_or_max src_offset in
     bind (lift_result (calculate_memory_size dst_offset len)) (\<lambda>new_size.
     bind (charge_with (\<lambda>current. gas_codecopy new_size current len)) (\<lambda>_.
     bind (gets (\<lambda>vm. dispatch_buf (frame_code (cf vm)))) (\<lambda>source.
     continue (copy_to_memory source dst_offset src_offset len))))))"

definition OpExtCodeSizeHandler :: "(VM, opcode_result) action" where
  "OpExtCodeSizeHandler =
     bind (on_stack pop1) (\<lambda>w. let address = word_to_address w in
     bind (on_substate (add_accessed_address address)) (\<lambda>cold.
     bind (gets vm_fork) (\<lambda>f.
     bind (charge (gas_extcodesize cold f)) (\<lambda>_.
     bind (on_db (get_code_length address)) (\<lambda>n.
     continue (on_stack (push (word_of_nat n))))))))"

definition OpExtCodeCopyHandler :: "(VM, opcode_result) action" where
  "OpExtCodeCopyHandler = pop4 (\<lambda>w dst_offset src_offset len. let address = word_to_address w in
     bind (lift_result (size_offset_to_usize len dst_offset)) (\<lambda>(len, dst_offset).
     let src_offset = usize_or_max src_offset in
     bind (lift_result (calculate_memory_size dst_offset len)) (\<lambda>new_size.
     bind (on_substate (add_accessed_address address)) (\<lambda>cold.
     bind (gets vm_fork) (\<lambda>f.
     bind (charge_with (\<lambda>current. gas_extcodecopy len new_size current cold f)) (\<lambda>_.
     bind (on_db (get_account_code address)) (\<lambda>code.
     continue (copy_to_memory (dispatch_buf code) dst_offset src_offset len))))))))"

definition OpExtCodeHashHandler :: "(VM, opcode_result) action" where
  "OpExtCodeHashHandler =
     bind (on_stack pop1) (\<lambda>w. let address = word_to_address w in
     bind (on_substate (add_accessed_address address)) (\<lambda>cold.
     bind (gets vm_fork) (\<lambda>f.
     bind (charge (gas_extcodehash cold f)) (\<lambda>_.
     bind (on_db (get_account address)) (\<lambda>acc.
     continue (on_stack (if account_is_empty acc then push_zero
       else push (bytes_word (hash_bytes (info_code_hash (info acc)))))))))))"

definition OpReturnDataSizeHandler :: "(VM, opcode_result) action" where
  "OpReturnDataSizeHandler = push_op RETURNDATASIZE_GAS (\<lambda>vm. word_of_nat (length (sub_return_data (cf vm))))"

definition OpReturnDataCopyHandler :: "(VM, opcode_result) action" where
  "OpReturnDataCopyHandler = pop3 (\<lambda>dst_offset src_offset len.
     bind (lift_result (size_offset_to_usize len dst_offset)) (\<lambda>(len, dst_offset).
     bind (lift_result (u256_to_usize src_offset)) (\<lambda>src_offset.
     bind (lift_result (calculate_memory_size dst_offset len)) (\<lambda>new_size.
     bind (charge_with (\<lambda>current. gas_returndatacopy new_size current len)) (\<lambda>_.
     bind (gets (\<lambda>vm. sub_return_data (cf vm))) (\<lambda>source.
     bind (guard_err (wrapping_add src_offset len > length source) (halt OutOfBounds)) (\<lambda>_.
     continue (copy_to_memory source dst_offset src_offset len))))))))"

section \<open>Block\<close>

definition LAST_AVAILABLE_BLOCK_LIMIT :: nat where
  "LAST_AVAILABLE_BLOCK_LIMIT = 256"

definition OpBlockHashHandler :: "(VM, opcode_result) action" where
  "OpBlockHashHandler =
     bind (charge (Inr BLOCKHASH_GAS)) (\<lambda>_.
     bind (on_stack pop1) (\<lambda>w.
     bind (gets (\<lambda>vm. block_number (env vm))) (\<lambda>current.
     case Option.bind (try_usize w) (\<lambda>n.
         if n < current \<and> current - n \<le> LAST_AVAILABLE_BLOCK_LIMIT then Some n else None) of
       Some n \<Rightarrow>
         bind (\<lambda>vm. (from_store (get_block_hash (GeneralizedDatabase.store (db vm)) n), vm)) (\<lambda>h.
         continue (on_stack (push (bytes_word (hash_bytes h)))))
     | None \<Rightarrow> continue (on_stack push_zero))))"

definition OpCoinbaseHandler :: "(VM, opcode_result) action" where
  "OpCoinbaseHandler = push_op COINBASE_GAS (\<lambda>vm. address_to_word (coinbase (env vm)))"

definition OpTimestampHandler :: "(VM, opcode_result) action" where
  "OpTimestampHandler = push_op TIMESTAMP_GAS (\<lambda>vm. word_of_nat (timestamp (env vm)))"

definition OpNumberHandler :: "(VM, opcode_result) action" where
  "OpNumberHandler = push_op NUMBER_GAS (\<lambda>vm. word_of_nat (block_number (env vm)))"

definition OpPrevRandaoHandler :: "(VM, opcode_result) action" where
  "OpPrevRandaoHandler = push_op PREVRANDAO_GAS (\<lambda>vm. bytes_word (hash_bytes (unwrap_or (prev_randao (env vm)) 0)))"

definition OpGasLimitHandler :: "(VM, opcode_result) action" where
  "OpGasLimitHandler = push_op GASLIMIT_GAS (\<lambda>vm. word_of_nat (block_gas_limit (env vm)))"

definition OpChainIdHandler :: "(VM, opcode_result) action" where
  "OpChainIdHandler = push_op CHAINID_GAS (\<lambda>vm. chain_id (env vm))"

definition OpSelfBalanceHandler :: "(VM, opcode_result) action" where
  "OpSelfBalanceHandler =
     bind (charge (Inr SELFBALANCE_GAS)) (\<lambda>_.
     bind (gets (\<lambda>vm. to_address (cf vm))) (\<lambda>address.
     bind (on_db (get_account address)) (\<lambda>acc.
     continue (on_stack (push (balance (info acc)))))))"

definition OpBaseFeeHandler :: "(VM, opcode_result) action" where
  "OpBaseFeeHandler = push_op BASEFEE_GAS (\<lambda>vm. base_fee_per_gas (env vm))"

definition OpBlobHashHandler :: "(VM, opcode_result) action" where
  "OpBlobHashHandler =
     bind (charge (Inr BLOBHASH_GAS)) (\<lambda>_.
     bind (on_stack pop1) (\<lambda>w.
     bind (gets (\<lambda>vm. tx_blob_hashes (env vm))) (\<lambda>hs.
     continue (on_stack (case Option.bind (try_usize w) (\<lambda>i. if i < length hs then Some (hs ! i) else None) of
         Some h \<Rightarrow> push (bytes_word (hash_bytes h))
       | None \<Rightarrow> push_zero)))))"

definition OpBlobBaseFeeHandler :: "(VM, opcode_result) action" where
  "OpBlobBaseFeeHandler = push_op BLOBBASEFEE_GAS (\<lambda>vm. base_blob_fee_per_gas (env vm))"

definition OpSlotNumHandler :: "(VM, opcode_result) action" where
  "OpSlotNumHandler = push_op SLOTNUM_GAS (\<lambda>vm. slot_number (env vm))"

section \<open>Leaving a frame\<close>

definition OpStopHandler :: "(VM, opcode_result) action" where
  "OpStopHandler = ret Halt"

definition OpInvalidHandler :: "(VM, opcode_result) action" where
  "OpInvalidHandler = err (halt InvalidOpcode)"

definition set_output :: "nat \<Rightarrow> nat \<Rightarrow> (VM, unit) action" where
  "set_output off len =
     (if len \<noteq> 0 then bind (on_memory (load_range off len)) (\<lambda>d. modify_frame (\<lambda>f. f \<lparr> frame_output := d \<rparr>))
      else ret ())"

definition OpReturnHandler :: "(VM, opcode_result) action" where
  "OpReturnHandler = pop2 (\<lambda>off len.
     bind (lift_result (size_offset_to_usize len off)) (\<lambda>(len, off).
     bind (lift_result (calculate_memory_size off len)) (\<lambda>new_size.
     bind (charge_with (gas_exit_opcode new_size)) (\<lambda>_.
     bind (set_output off len) (\<lambda>_. ret Halt)))))"

definition OpRevertHandler :: "(VM, opcode_result) action" where
  "OpRevertHandler = pop2 (\<lambda>off len.
     bind (lift_result (size_offset_to_usize len off)) (\<lambda>(len, off).
     bind (lift_result (calculate_memory_size off len)) (\<lambda>new_size.
     bind (charge_with (gas_exit_opcode new_size)) (\<lambda>_.
     bind (set_output off len) (\<lambda>_. err (VmErr RevertOpcode))))))"

end
