(* ===== verification/Evm_Opcodes.thy ===== *)
theory Evm_Opcodes
  imports Evm_Handlers
begin

text \<open>
  What the arithmetic, comparison and bit opcodes compute.  A handler of \<open>arithmetic.rs\<close> or
  \<open>bitwise_comparison.rs\<close> charges its gas, takes its operands from the stack and leaves the result of a
  mathematical function of them, and changes nothing else of the machine.
\<close>

section \<open>Handlers that compute a function of the stack\<close>

text \<open>
  \<open>computes h cost n f\<close>: on a well-formed stack, \<open>h\<close> replaces the \<open>n\<close> topmost words \<open>xs\<close> by \<open>f xs\<close> and
  charges \<open>cost xs\<close>; with fewer words or less gas it fails.
\<close>

definition computes ::
  "(VM, opcode_result) action \<Rightarrow> (u256 list \<Rightarrow> nat) \<Rightarrow> nat \<Rightarrow> (u256 list \<Rightarrow> u256) \<Rightarrow> bool" where
  "computes h cost n f \<longleftrightarrow> (\<forall>vm. stack_ok (stack (cf vm)) \<longrightarrow> gas_remaining (cf vm) < 2 ^ 63 \<longrightarrow>
     - (2 ^ 62) \<le> gas_remaining (cf vm) \<longrightarrow>
     (let xs = take n (items (stack (cf vm))); ys = drop n (items (stack (cf vm))) in
      if n \<le> length (items (stack (cf vm))) \<and> int (cost xs) \<le> gas_remaining (cf vm) then
        \<exists>s. h vm = (Inr Continue, vm \<lparr> current_call_frame := (cf vm)
          \<lparr> gas_remaining := gas_remaining (cf vm) - int (cost xs), stack := s \<rparr> \<rparr>) \<and>
          stack_ok s \<and> items s = f xs # ys
      else fst (h vm) \<in> {Inl (halt OutOfGas), Inl (halt StackUnderflow)}))"

lemma computesI:
  assumes "\<And>vm s g. s = stack (cf vm) \<Longrightarrow> g = gas_remaining (cf vm) \<Longrightarrow> stack_ok s \<Longrightarrow> g < 2 ^ 63 \<Longrightarrow> - (2 ^ 62) \<le> g \<Longrightarrow>
      n \<le> length (items s) \<Longrightarrow> int (cost (take n (items s))) \<le> g \<Longrightarrow>
      \<exists>s'. h vm = (Inr Continue, vm \<lparr> current_call_frame := (cf vm)
        \<lparr> gas_remaining := g - int (cost (take n (items s))), stack := s' \<rparr> \<rparr>) \<and>
        stack_ok s' \<and> items s' = f (take n (items s)) # drop n (items s)"
    and "\<And>vm s g. s = stack (cf vm) \<Longrightarrow> g = gas_remaining (cf vm) \<Longrightarrow> stack_ok s \<Longrightarrow> g < 2 ^ 63 \<Longrightarrow> - (2 ^ 62) \<le> g \<Longrightarrow>
      length (items s) < n \<or> g < int (cost (take n (items s))) \<Longrightarrow>
      fst (h vm) \<in> {Inl (halt OutOfGas), Inl (halt StackUnderflow)}"
  shows "computes h cost n f"
  unfolding computes_def Let_def
proof (intro allI impI)
  fix vm assume ok: "stack_ok (stack (cf vm))" "gas_remaining (cf vm) < 2 ^ 63" "- (2 ^ 62) \<le> gas_remaining (cf vm)"
  show "if n \<le> length (items (stack (cf vm))) \<and> int (cost (take n (items (stack (cf vm))))) \<le> gas_remaining (cf vm) then
        \<exists>s. h vm = (Inr Continue, vm \<lparr> current_call_frame := (cf vm)
          \<lparr> gas_remaining := gas_remaining (cf vm) - int (cost (take n (items (stack (cf vm))))), stack := s \<rparr> \<rparr>) \<and>
          stack_ok s \<and> items s = f (take n (items (stack (cf vm)))) # drop n (items (stack (cf vm)))
      else fst (h vm) \<in> {Inl (halt OutOfGas), Inl (halt StackUnderflow)}"
    using assms(1) [OF refl refl ok] assms(2) [OF refl refl ok] by (simp add: not_le)
qed

lemma charge_eq:
  assumes "g < 2 ^ 62" "gas_remaining (cf vm) < 2 ^ 63" "- (2 ^ 62) \<le> gas_remaining (cf vm)"
  shows "charge (Inr g) vm =
    (if int g \<le> gas_remaining (cf vm) then Inr () else Inl (halt OutOfGas),
     vm \<lparr> current_call_frame := (cf vm) \<lparr> gas_remaining := gas_remaining (cf vm) - int g \<rparr> \<rparr>)"
proof -
  have "wrap_i64 (int g) = int g" "wrap_i64 (gas_remaining (cf vm) - int g) = gas_remaining (cf vm) - int g"
    using assms by (simp_all add: wrap_i64_id)
  then show ?thesis
    by (simp add: charge_def on_frame_def zoom_def increase_consumed_gas_def bind_def Let_def)
qed

lemma on_stack_eq:
  "on_stack m vm = (case m (stack (cf vm)) of (r, s) \<Rightarrow>
     (r, vm \<lparr> current_call_frame := (cf vm) \<lparr> stack := s \<rparr> \<rparr>))"
  by (simp add: on_stack_def on_frame_def zoom_def split: prod.split)

text \<open>The two orders the handlers use: charge first, or pop first.\<close>

lemma frame_swap:
  "(f \<lparr> stack := s \<rparr>) \<lparr> gas_remaining := g \<rparr> = f \<lparr> gas_remaining := g, stack := s \<rparr>" for f :: CallFrame
  by simp

lemma computes_charge_first:
  assumes g: "g < 2 ^ 62" and sim: "simulates m l"
    and l: "\<And>xs. length xs \<le> STACK_LIMIT \<Longrightarrow>
      l xs = (if n \<le> length xs then (Inr (), f (take n xs) # drop n xs) else (Inl (halt StackUnderflow), snd (l xs)))"
  shows "computes (bind (charge (Inr g)) (\<lambda>_. continue (on_stack m))) (\<lambda>_. g) n f"
proof (rule computesI)
  fix vm s gas
  assume s: "s = stack (cf vm)" and gas: "gas = gas_remaining (cf vm)" and ok: "stack_ok s" "gas < 2 ^ 63" "- (2 ^ 62) \<le> gas"
  have len: "length (items s) \<le> STACK_LIMIT" using ok(1) by (simp add: stack_ok_def items_def)
  obtain r s' where m: "m s = (r, s')" by (cases "m s")
  note ms = simulatesD [OF sim ok(1) m]
  note c = charge_eq [OF g, of vm, folded gas]
  {
    assume n: "n \<le> length (items s)" and ge: "int g \<le> gas"
    from l [OF len] n ms have "r = Inr ()" "items s' = f (take n (items s)) # drop n (items s)" by simp_all
    with ge c ok m ms show "\<exists>s'. bind (charge (Inr g)) (\<lambda>_. continue (on_stack m)) vm = (Inr Continue,
        vm \<lparr> current_call_frame := (cf vm) \<lparr> gas_remaining := gas - int g, stack := s' \<rparr> \<rparr>) \<and>
        stack_ok s' \<and> items s' = f (take n (items s)) # drop n (items s)"
      by (auto simp: bind_def continue_def on_stack_eq s frame_swap)
  }
  assume bad: "length (items s) < n \<or> gas < int g"
  show "fst (bind (charge (Inr g)) (\<lambda>_. continue (on_stack m)) vm) \<in> {Inl (halt OutOfGas), Inl (halt StackUnderflow)}"
  proof (cases "gas < int g")
    case False
    with bad l [OF len] ms have "r = Inl (halt StackUnderflow)" by simp
    with False c ok m show ?thesis by (simp add: bind_def continue_def on_stack_eq s [symmetric])
  qed (use c ok in \<open>simp add: bind_def\<close>)
qed

lemma computes_binary:
  assumes "g < 2 ^ 62" "\<And>a b. f a b = f' a b"
  shows "computes (binary_op g f) (\<lambda>_. g) 2 (\<lambda>xs. f' (xs ! 0) (xs ! 1))"
  unfolding binary_op_def
proof (rule computes_charge_first [OF assms(1) simulates_pop1_and_top_mut])
  fix xs :: "u256 list"
  show "l_binop f xs = (if 2 \<le> length xs then (Inr (), f' (take 2 xs ! 0) (take 2 xs ! 1) # drop 2 xs)
      else (Inl (halt StackUnderflow), snd (l_binop f xs)))"
    using assms(2) by (auto simp: l_binop_def numeral_2_eq_2 split: list.split)
qed

lemma continue_bind: "continue (bind m k) = bind m (\<lambda>x. continue (k x))"
  by (simp add: continue_def bind_assoc)

lemma simulates_top_done: "simulates (bind (top_mut f) (\<lambda>_. ret ())) (bind (l_top f) (\<lambda>_. ret ()))"
  by (intro simulates_bind simulates_top_mut simulates_ret)

lemma continue_on_stack: "continue (on_stack m) = continue (on_stack (bind m (\<lambda>_. ret ())))"
  by (simp add: fun_eq_iff continue_def on_stack_eq bind_def split: prod.split sum.split)

lemma computes_unary:
  assumes "g < 2 ^ 62" "\<And>a. f a = f' a"
  shows "computes (unary_op g f) (\<lambda>_. g) 1 (\<lambda>xs. f' (xs ! 0))"
  unfolding unary_op_def continue_on_stack [of "top_mut f"]
proof (rule computes_charge_first [OF assms(1) simulates_top_done])
  fix xs :: "u256 list"
  show "bind (l_top f) (\<lambda>_. ret ()) xs = (if 1 \<le> length xs then (Inr (), f' (take 1 xs ! 0) # drop 1 xs)
      else (Inl (halt StackUnderflow), snd (bind (l_top f) (\<lambda>_. ret ()) xs)))"
    using assms(2) by (cases xs) (simp_all add: l_top_def bind_def)
qed

text \<open>Popping \<open>n\<close> words and pushing a function of them.\<close>

definition pop_push :: "nat \<Rightarrow> (u256 list \<Rightarrow> u256) \<Rightarrow> (Stack, unit) action" where
  "pop_push n f = bind (pop n) (\<lambda>xs. push (f xs))"

lemma simulates_pop_push:
  "n \<le> STACK_LIMIT \<Longrightarrow> simulates (pop_push n f) (bind (l_pop n) (\<lambda>xs. l_push (f xs)))"
  unfolding pop_push_def by (intro simulates_bind simulates_pop simulates_push)

lemma l_pop_push:
  assumes "1 \<le> n" "length xs \<le> STACK_LIMIT"
  shows "bind (l_pop n) (\<lambda>xs. l_push (f xs)) xs = (if n \<le> length xs then (Inr (), f (take n xs) # drop n xs)
      else (Inl (halt StackUnderflow), snd (bind (l_pop n) (\<lambda>xs. l_push (f xs)) xs)))"
  using assms by (auto simp: bind_def l_pop_def l_push_def)

lemma on_stack_bind: "on_stack (bind m k) = bind (on_stack m) (\<lambda>x. on_stack (k x))"
  by (simp add: fun_eq_iff on_stack_eq bind_def split: prod.split sum.split)

lemma computes_pop_push:
  assumes "g < 2 ^ 62" "1 \<le> n" "n \<le> STACK_LIMIT" "\<And>vm xs. h xs vm = continue (on_stack (push (f xs))) vm"
  shows "computes (bind (charge (Inr g)) (\<lambda>_. bind (on_stack (pop n)) h)) (\<lambda>_. g) n f"
proof -
  have "bind (on_stack (pop n)) h = continue (on_stack (pop_push n f))"
    using assms(4) unfolding pop_push_def on_stack_bind continue_bind by (simp add: bind_def fun_eq_iff split: prod.split sum.split)
  then show ?thesis
    using computes_charge_first [where f = f, OF assms(1) simulates_pop_push [OF assms(3), of f]
      l_pop_push [OF assms(2), of _ f]] by simp
qed

lemma computes_pop_first:
  assumes "\<And>xs. cost xs < 2 ^ 62" "1 \<le> n" "n \<le> STACK_LIMIT"
    "\<And>xs. k xs = bind (charge (Inr (cost xs))) (\<lambda>_. continue (on_stack (push (f xs))))"
  shows "computes (bind (on_stack (pop n)) k) cost n f"
proof (rule computesI)
  fix vm s gas
  assume s: "s = stack (cf vm)" and gas: "gas = gas_remaining (cf vm)" and ok: "stack_ok s" "gas < 2 ^ 63" "- (2 ^ 62) \<le> gas"
  have len: "length (items s) \<le> STACK_LIMIT" using ok(1) by (simp add: stack_ok_def items_def)
  obtain r s' where m: "pop n s = (r, s')" by (cases "pop n s")
  note ms = simulatesD [OF simulates_pop [OF assms(3)] ok(1) m]
  let ?xs = "take n (items s)"
  define vm' where "vm' = vm \<lparr> current_call_frame := (cf vm) \<lparr> stack := s' \<rparr> \<rparr>"
  have pop: "on_stack (pop n) vm = (r, vm')" using m by (simp add: on_stack_eq s vm'_def)
  have g': "gas_remaining (cf vm') = gas" by (simp add: vm'_def gas)
  note c = charge_eq [OF assms(1), of vm', unfolded g', OF ok(2,3)]
  {
    assume n: "n \<le> length (items s)" and ge: "int (cost ?xs) \<le> gas"
    then have r: "r = Inr ?xs" "items s' = drop n (items s)" using ms by (simp_all add: l_pop_def)
    obtain r2 s2 where p: "push (f ?xs) s' = (r2, s2)" by (cases "push (f ?xs) s'")
    from simulatesD [OF simulates_push _ p] ms r len n assms(2)
    have "stack_ok s2" "r2 = Inr ()" "items s2 = f ?xs # drop n (items s)" by (simp_all add: l_push_def split: if_splits)
    moreover have "bind (on_stack (pop n)) k vm = k ?xs vm'" using pop r by (intro bind_Inr) simp
    ultimately show "\<exists>s'. bind (on_stack (pop n)) k vm = (Inr Continue,
        vm \<lparr> current_call_frame := (cf vm) \<lparr> gas_remaining := gas - int (cost ?xs), stack := s' \<rparr> \<rparr>) \<and>
        stack_ok s' \<and> items s' = f ?xs # drop n (items s)"
      using r p ge c [of ?xs] by (intro exI [of _ s2]) (simp add: assms(4) bind_def continue_def on_stack_eq vm'_def)
  }
  assume bad: "length (items s) < n \<or> gas < int (cost ?xs)"
  show "fst (bind (on_stack (pop n)) k vm) \<in> {Inl (halt OutOfGas), Inl (halt StackUnderflow)}"
  proof (cases "n \<le> length (items s)")
    case True
    then have "r = Inr ?xs" using ms by (simp add: l_pop_def)
    with True bad c [of ?xs] show ?thesis by (simp add: bind_def pop assms(4))
  next
    case False
    then have "r = Inl (halt StackUnderflow)" using ms by (simp add: l_pop_def)
    then show ?thesis by (simp add: bind_def pop)
  qed
qed

section \<open>The opcodes\<close>

lemma unat_div_u256: "a div b = word_of_nat (unat a div unat b)" for a b :: u256
  by (simp add: word_arith_nat_div)

lemma checked_div_eq: "unwrap_or (u256_checked_div a b) 0 = word_of_nat (unat a div unat b)"
  by (simp add: u256_checked_div_def unwrap_or_def word_arith_nat_div)

lemma checked_rem_eq: "unwrap_or (u256_checked_rem a b) 0 = (if b = 0 then 0 else word_of_nat (unat a mod unat b))"
  by (simp add: u256_checked_rem_def unwrap_or_def word_arith_nat_mod)

lemma addmod_push:
  "(if m = 0 \<or> m = 1 then continue (on_stack push_zero) else continue (on_stack (push (op_addmod a b m)))) =
   continue (on_stack (push (if m = 0 then 0 else word_of_nat ((unat a + unat b) mod unat m))))"
  by (simp add: push_zero_push op_addmod_eq)

text \<open>The \<open>mulmod256\<close> the handler is given; the default implementation is \<open>mulmod256\<close>.\<close>

definition mulmod_with :: "(bytes \<Rightarrow> bytes \<Rightarrow> bytes \<Rightarrow> bytes) \<Rightarrow> (VM, opcode_result) action" where
  "mulmod_with mm =
     bind (charge (Inr MULMOD_GAS)) (\<lambda>_. bind (on_stack (pop 3)) (\<lambda>xs.
       continue (on_stack (push (if xs ! 2 = 0 \<or> xs ! 0 = 0 \<or> xs ! 1 = 0 then 0
         else u256_from_big_endian_const (mm (u256_to_big_endian (xs ! 0)) (u256_to_big_endian (xs ! 1))
           (u256_to_big_endian (xs ! 2))))))))"

lemma same_crypto: "crypto (snd (charge c vm)) = crypto vm" "crypto (snd (on_stack m vm)) = crypto vm"
  by (simp_all add: charge_def on_stack_eq on_frame_def zoom_def bind_def split: sum.split prod.split)

lemma mulmod_handler: "OpMulModHandler vm = mulmod_with (crypto_mulmod256 (crypto vm)) vm"
proof -
  obtain r vm1 where c: "charge (Inr MULMOD_GAS) vm = (r, vm1)" by (cases "charge (Inr MULMOD_GAS) vm")
  obtain r2 vm2 where p: "on_stack (pop 3) vm1 = (r2, vm2)" by (cases "on_stack (pop 3) vm1")
  have "crypto vm2 = crypto vm" using same_crypto(1) [of "Inr MULMOD_GAS" vm] same_crypto(2) [of "pop 3" vm1] c p by simp
  with c p show ?thesis
    by (simp add: OpMulModHandler_def mulmod_with_def pop3_def bind_def push_zero_push split: sum.split)
qed

lemma mulmod_word:
  "(if m = 0 \<or> a = 0 \<or> b = 0 then 0 else u256_from_big_endian_const
     (mulmod256 (u256_to_big_endian a) (u256_to_big_endian b) (u256_to_big_endian m))) =
   (if m = 0 then 0 else word_of_nat (unat a * unat b mod unat m) :: u256)"
proof (cases "m = 0 \<or> a = 0 \<or> b = 0")
  case False
  let ?r = "unat a * unat b mod unat m"
  have "?r < unat m" using False by (simp add: unat_gt_0)
  then have "?r < 256 ^ 32" using unat_u256_less [of m] by simp
  then show ?thesis using False
    by (simp add: mulmod256_eq be_nat_u256_to_big_endian u256_from_big_endian_const_eq be_nat_be_bytes unat_eq_zero)
qed auto

lemma exp_cost_bound: "10 + 50 * ((bit_len (unat (e :: u256)) + 7) div 8) < 2 ^ 62"
proof -
  have "bit_len (unat e) \<le> 256" using unat_u256_less by (rule bit_len_le)
  then have "(bit_len (unat e) + 7) div 8 \<le> 263 div 8" by (intro div_le_mono) simp
  then show ?thesis by simp
qed

lemma gas_exp_eq: "gas_exp e = Inr (10 + 50 * ((bit_len (unat e) + 7) div 8))"
proof -
  have "bit_len (unat e) \<le> 256" using unat_u256_less by (rule bit_len_le)
  then show ?thesis by (simp add: gas_exp_def checked_small)
qed

lemmas computes_by_definition =
  OpAddHandler_def OpSubHandler_def OpMulHandler_def OpDivHandler_def OpModHandler_def OpSDivHandler_def
  OpSModHandler_def OpSignExtendHandler_def OpClzHandler_def OpLtHandler_def OpGtHandler_def OpSLtHandler_def
  OpSGtHandler_def OpEqHandler_def OpIsZeroHandler_def OpAndHandler_def OpOrHandler_def OpXorHandler_def
  OpNotHandler_def OpByteHandler_def OpShlHandler_def OpShrHandler_def OpSarHandler_def

abbreviation binary :: "(u256 \<Rightarrow> u256 \<Rightarrow> u256) \<Rightarrow> u256 list \<Rightarrow> u256" where
  "binary f xs \<equiv> f (xs ! 0) (xs ! 1)"

lemma computes_addmod:
  "computes OpAddModHandler (\<lambda>_. 8) 3
     (\<lambda>xs. if xs ! 2 = 0 then 0 else word_of_nat ((unat (xs ! 0) + unat (xs ! 1)) mod unat (xs ! 2)))"
  unfolding OpAddModHandler_def pop3_def addmod_push
  by (rule computes_pop_push) (simp_all add: STACK_LIMIT_def)

lemma computes_mulmod:
  "computes (mulmod_with mulmod256) (\<lambda>_. 8) 3
     (\<lambda>xs. if xs ! 2 = 0 then 0 else word_of_nat (unat (xs ! 0) * unat (xs ! 1) mod unat (xs ! 2)))"
  unfolding mulmod_with_def mulmod_word
  by (rule computes_pop_push) (simp_all add: STACK_LIMIT_def)

lemma computes_exp:
  "computes OpExpHandler (\<lambda>xs. 10 + 50 * ((bit_len (unat (xs ! 1)) + 7) div 8)) 2
     (\<lambda>xs. word_of_nat (unat (xs ! 0) ^ unat (xs ! 1)))"
  unfolding OpExpHandler_def pop2_def gas_exp_eq op_exp_eq
  by (rule computes_pop_first) (use exp_cost_bound in \<open>simp_all add: STACK_LIMIT_def\<close>)

text \<open>
  C15: every arithmetic, comparison and bit opcode charges its price and replaces its operands by the value the
  protocol defines, with signed operations on the two's complement values, shifts by any amount, division and
  remainder by zero giving zero, and the two modular operations computed without truncation; with too
  few operands or too little gas it fails with an underflow or out of gas.  (\<open>MULMOD\<close> calls the \<open>mulmod256\<close> of
  the cryptography it is given; the value is that of the default implementation.)
\<close>

theorem alu_opcodes_exact:
  "computes OpAddHandler (\<lambda>_. 3) 2 (binary (\<lambda>a b. word_of_int (uint a + uint b))) \<and>
   computes OpMulHandler (\<lambda>_. 5) 2 (binary (\<lambda>a b. word_of_int (uint a * uint b))) \<and>
   computes OpSubHandler (\<lambda>_. 3) 2 (binary (\<lambda>a b. word_of_int (uint a - uint b))) \<and>
   computes OpDivHandler (\<lambda>_. 5) 2 (binary (\<lambda>a b. word_of_nat (unat a div unat b))) \<and>
   computes OpSDivHandler (\<lambda>_. 5) 2 (binary (\<lambda>a b. if b = 0 then 0 else word_of_int (sint a sdiv sint b))) \<and>
   computes OpModHandler (\<lambda>_. 5) 2 (binary (\<lambda>a b. if b = 0 then 0 else word_of_nat (unat a mod unat b))) \<and>
   computes OpSModHandler (\<lambda>_. 5) 2 (binary (\<lambda>a b. if b = 0 then 0 else word_of_int (sint a smod sint b))) \<and>
   computes OpAddModHandler (\<lambda>_. 8) 3
     (\<lambda>xs. if xs ! 2 = 0 then 0 else word_of_nat ((unat (xs ! 0) + unat (xs ! 1)) mod unat (xs ! 2))) \<and>
   OpMulModHandler vm = mulmod_with (crypto_mulmod256 (crypto vm)) vm \<and>
   computes (mulmod_with mulmod256) (\<lambda>_. 8) 3
     (\<lambda>xs. if xs ! 2 = 0 then 0 else word_of_nat (unat (xs ! 0) * unat (xs ! 1) mod unat (xs ! 2))) \<and>
   computes OpExpHandler (\<lambda>xs. 10 + 50 * ((bit_len (unat (xs ! 1)) + 7) div 8)) 2
     (binary (\<lambda>a b. word_of_nat (unat a ^ unat b))) \<and>
   computes OpSignExtendHandler (\<lambda>_. 5) 2
     (binary (\<lambda>i v. if unat i < 32 then signed_take_bit (8 * unat i + 7) v else v)) \<and>
   computes OpLtHandler (\<lambda>_. 3) 2 (binary (\<lambda>a b. of_bool (uint a < uint b))) \<and>
   computes OpGtHandler (\<lambda>_. 3) 2 (binary (\<lambda>a b. of_bool (uint a > uint b))) \<and>
   computes OpSLtHandler (\<lambda>_. 3) 2 (binary (\<lambda>a b. of_bool (sint a < sint b))) \<and>
   computes OpSGtHandler (\<lambda>_. 3) 2 (binary (\<lambda>a b. of_bool (sint a > sint b))) \<and>
   computes OpEqHandler (\<lambda>_. 3) 2 (binary (\<lambda>a b. of_bool (a = b))) \<and>
   computes OpIsZeroHandler (\<lambda>_. 3) 1 (\<lambda>xs. of_bool (xs ! 0 = 0)) \<and>
   computes OpAndHandler (\<lambda>_. 3) 2 (binary (AND)) \<and> computes OpOrHandler (\<lambda>_. 3) 2 (binary (OR)) \<and>
   computes OpXorHandler (\<lambda>_. 3) 2 (binary (XOR)) \<and> computes OpNotHandler (\<lambda>_. 3) 1 (\<lambda>xs. NOT (xs ! 0)) \<and>
   computes OpByteHandler (\<lambda>_. 3) 2
     (binary (\<lambda>i v. if unat i < 32 then word_of_nat (unat v div 256 ^ (31 - unat i) mod 256) else 0)) \<and>
   computes OpShlHandler (\<lambda>_. 3) 2 (binary (\<lambda>s v. word_of_nat (unat v * 2 ^ unat s))) \<and>
   computes OpShrHandler (\<lambda>_. 3) 2 (binary (\<lambda>s v. word_of_nat (unat v div 2 ^ unat s))) \<and>
   computes OpSarHandler (\<lambda>_. 3) 2 (binary (\<lambda>s v. word_of_int (sint v div 2 ^ unat s))) \<and>
   computes OpClzHandler (\<lambda>_. 5) 1 (\<lambda>xs. word_of_nat (256 - bit_len (unat (xs ! 0))))"
  unfolding computes_by_definition
  by (intro conjI computes_binary computes_unary computes_addmod computes_mulmod computes_exp)
    (simp_all add: mulmod_handler checked_div_eq checked_rem_eq op_sdiv_eq op_smod_eq op_signextend_eq op_signed_compare
      u256_of_bool_def word_less_def op_byte_eq op_shl_eq op_shr_eq op_sar_eq op_clz_def)

end
