(* ===== verification/Evm_Calls.thy ===== *)
theory Evm_Calls
  imports Evm_Handlers Rlp_Types
begin

text \<open>
  The handlers that enter and leave frames (\<open>src/crates/vm/levm/src/opcode_handlers/system.rs\<close>): the four
  message calls, \<open>CREATE\<close>, \<open>CREATE2\<close> and \<open>SELFDESTRUCT\<close>, and the return to the caller with its merging and
  reverting of state; and what a finished frame is turned into (\<open>execution_handlers.rs\<close>).
\<close>

section \<open>Results of a context\<close>

record ContextResult =
  ctx_result :: tx_result
  gas_used :: nat
  gas_spent :: nat
  ctx_output :: bytes

definition ctx_is_success :: "ContextResult \<Rightarrow> bool" where
  "ctx_is_success c \<longleftrightarrow> ctx_result c = Success"

abbreviation SUCCESS :: u256 where "SUCCESS \<equiv> 1"
abbreviation FAIL :: u256 where "FAIL \<equiv> 0"

definition handle_precompile_result :: "vm_error + bytes \<Rightarrow> nat \<Rightarrow> nat \<Rightarrow> vm_fail + ContextResult" where
  "handle_precompile_result r limit remaining =
     (case r of
        Inr out \<Rightarrow>
          and_then (ok_or (checked_sub limit remaining) (internal Underflow)) (\<lambda>used.
          Inr \<lparr> ctx_result = Success, gas_used = used, gas_spent = used, ctx_output = out \<rparr>)
      | Inl e \<Rightarrow>
          if should_propagate e then Inl (VmErr e)
          else Inr \<lparr> ctx_result = Revert e, gas_used = limit, gas_spent = limit, ctx_output = [] \<rparr>)"

section \<open>Addresses, delegations and transfer logs\<close>

definition calculate_create_address :: "(bytes \<Rightarrow> h256) \<Rightarrow> address \<Rightarrow> nat \<Rightarrow> address" where
  "calculate_create_address keccak sender_address sender_nonce =
     address_from_slice (drop 12 (hash_bytes (keccak
       (encode_pair encode_address encode_u64 (address_bytes sender_address, word_of_nat sender_nonce)))))"

definition calculate_create2_address :: "(bytes \<Rightarrow> h256) \<Rightarrow> address \<Rightarrow> bytes \<Rightarrow> u256 \<Rightarrow> address" where
  "calculate_create2_address keccak sender_address initialization_code salt =
     (let init_code_hash = keccak initialization_code
      in address_from_slice (drop 12 (hash_bytes (keccak
           ([0xff] @ address_bytes sender_address @ u256_to_big_endian salt @ hash_bytes init_code_hash)))))"

definition EIP7702_DELEGATION_PREFIX :: bytes where
  "EIP7702_DELEGATION_PREFIX = [0xef, 0x01, 0x00]"

definition is_eip7702_delegation :: "bytes \<Rightarrow> bool" where
  "is_eip7702_delegation code \<longleftrightarrow> length code = 23 \<and> take 3 code = EIP7702_DELEGATION_PREFIX"

definition get_authorized_address_from_code :: "bytes \<Rightarrow> vm_fail + address" where
  "get_authorized_address_from_code code =
     (if is_eip7702_delegation code
      then (if 3 \<le> length code then Inr (address_from_slice (drop 3 code)) else Inl (internal Slicing))
      else Inl (internal AccountNotDelegated))"

definition eip7702_peek_delegation :: "address \<Rightarrow> (VM, Code \<times> (address \<times> nat) option) action" where
  "eip7702_peek_delegation a =
     bind (on_db (get_account_code a)) (\<lambda>code.
       if \<not> is_eip7702_delegation (code_slice code) then ret (code, None)
       else bind (lift_result (get_authorized_address_from_code (code_slice code))) (\<lambda>auth_address.
         gets (\<lambda>vm. (code, Some (auth_address,
           if is_address_accessed (substate vm) auth_address then WARM_ADDRESS_ACCESS_COST_GAS
           else cold_account_access_cost (vm_fork vm))))))"

definition SYSTEM_ADDRESS :: address where
  "SYSTEM_ADDRESS = 0xfffffffffffffffffffffffffffffffffffffffe"

definition TRANSFER_EVENT_TOPIC :: h256 where
  "TRANSFER_EVENT_TOPIC = 0xddf252ad1be2c89b69c2b068fc378daa952ba7f163c4a11628f55a4df523b3ef"

definition create_eth_transfer_log :: "address \<Rightarrow> address \<Rightarrow> u256 \<Rightarrow> Log" where
  "create_eth_transfer_log from to' value =
     \<lparr> log_address = SYSTEM_ADDRESS,
       topics = [TRANSFER_EVENT_TOPIC, word_of_nat (be_nat (padded_address from)),
         word_of_nat (be_nat (padded_address to'))],
       log_data = u256_to_big_endian value \<rparr>"

definition log_transfer :: "bool \<Rightarrow> address \<Rightarrow> address \<Rightarrow> u256 \<Rightarrow> (VM, unit) action" where
  "log_transfer b from to' value =
     (if b then modify (\<lambda>vm. vm \<lparr> substate := add_log (create_eth_transfer_log from to' value) (substate vm) \<rparr>)
      else ret ())"

section \<open>Creation\<close>

definition INIT_CODE_MAX_SIZE :: nat where
  "INIT_CODE_MAX_SIZE = 49152"

definition AMSTERDAM_MAX_CODE_SIZE :: nat where
  "AMSTERDAM_MAX_CODE_SIZE = 0x10000"

definition AMSTERDAM_INIT_CODE_MAX_SIZE :: nat where
  "AMSTERDAM_INIT_CODE_MAX_SIZE = 2 * AMSTERDAM_MAX_CODE_SIZE"

text \<open>A stack from the pool, \<open>stack_pool.pop().unwrap_or_default()\<close>, emptied.\<close>

definition take_stack :: "(VM, Stack) action" where
  "take_stack vm =
     (if stack_pool vm = [] then (Inr (stack_clear stack_default), vm)
      else (Inr (stack_clear (last (stack_pool vm))), vm \<lparr> stack_pool := butlast (stack_pool vm) \<rparr>))"

definition enter_frame :: "CallFrame \<Rightarrow> (VM, unit) action" where
  "enter_frame f = modify (add_callframe f)"

definition push_fail :: "(VM, opcode_result) action" where
  "push_fail = continue (on_stack (push FAIL))"

text \<open>The last part of \<open>generic_create\<close>: entering the frame that runs the initialisation code.\<close>

definition enter_create :: "address \<Rightarrow> address \<Rightarrow> bytes \<Rightarrow> u256 \<Rightarrow> nat \<Rightarrow> nat \<Rightarrow> bool \<Rightarrow> (VM, opcode_result) action" where
  "enter_create deployer new_address code value limit new_depth alive =
     bind take_stack (\<lambda>st.
     bind (gets (\<lambda>vm. next_memory (mem_buffer vm, memory (cf vm)))) (\<lambda>mem.
     bind (gets (\<lambda>vm. (CallFrame_new deployer new_address new_address
         (from_bytecode_unchecked (host_target vm) code 0) value [] False limit new_depth True True 0 0 st mem)
         \<lparr> state_gas_used_at_entry := state_gas_used vm, target_alive := alive \<rparr>)) (\<lambda>new_call_frame.
     bind (enter_frame new_call_frame) (\<lambda>_.
     bind (increment_account_nonce new_address) (\<lambda>_.
     bind (transfer deployer new_address value) (\<lambda>_.
     bind (modify (\<lambda>vm. vm \<lparr> substate := push_backup (substate vm) \<rparr>)) (\<lambda>_.
     bind (on_substate (add_created_account new_address)) (\<lambda>_.
     bind (gets vm_fork) (\<lambda>f.
     continue (log_transfer (f \<ge> Amsterdam \<and> value \<noteq> 0) deployer new_address value))))))))))"

definition generic_create :: "u256 \<Rightarrow> nat \<Rightarrow> nat \<Rightarrow> u256 option \<Rightarrow> (VM, opcode_result) action" where
  "generic_create value code_offset code_size salt =
     bind (gets vm_fork) (\<lambda>f.
     let init_code_max = (if f \<ge> Amsterdam then AMSTERDAM_INIT_CODE_MAX_SIZE else INIT_CODE_MAX_SIZE) in
     bind (guard_err (code_size > init_code_max \<and> f \<ge> Shanghai) (halt OutOfGas)) (\<lambda>_.
     bind (\<lambda>vm. guard_err (f < Amsterdam \<and> is_static (cf vm)) (halt OpcodeNotAllowedInStaticContext) vm) (\<lambda>_.
     bind (modify_frame (\<lambda>c. c \<lparr> sub_return_data := [] \<rparr>)) (\<lambda>_.
     bind (on_memory (load_range code_offset code_size)) (\<lambda>code.
     bind (gets (\<lambda>vm. to_address (cf vm))) (\<lambda>deployer.
     bind (on_db (get_account deployer)) (\<lambda>deployer_account.
     let deployer_balance = balance (info deployer_account); deployer_nonce = nonce (info deployer_account) in
     bind (gets (\<lambda>vm. case salt of
         Some salt \<Rightarrow> calculate_create2_address (keccak_hash vm) deployer code salt
       | None \<Rightarrow> calculate_create_address (keccak_hash vm) deployer deployer_nonce)) (\<lambda>new_address.
     bind (\<lambda>vm. (ok_or (checked_add (depth (cf vm)) 1) (internal Overflow), vm)) (\<lambda>new_depth.
     if deployer_balance < value \<or> new_depth > 1024 \<or> deployer_nonce = U64_MAX then
       bind (\<lambda>vm. (max_message_call_gas (gas_remaining (cf vm)), vm)) (\<lambda>_. push_fail)
     else
     bind (on_substate (add_accessed_address new_address)) (\<lambda>_.
     bind (get_account_mut new_address (\<lambda>acc. acc)) (\<lambda>target.
     let alive = \<not> account_is_empty target in
     bind (if f \<ge> Amsterdam \<and> \<not> alive then bind (gets state_gas_new_account) increase_state_gas else ret ()) (\<lambda>_.
     bind (\<lambda>vm. (max_message_call_gas (gas_remaining (cf vm)), vm)) (\<lambda>limit.
     bind (on_frame (increase_consumed_gas limit)) (\<lambda>_.
     bind (increment_account_nonce deployer) (\<lambda>_.
     bind (get_account_mut new_address (\<lambda>acc. acc)) (\<lambda>new_account.
     if create_would_collide new_account then
       bind (if f \<ge> Amsterdam \<and> \<not> alive then bind (gets state_gas_new_account) credit_state_gas_refund else ret ())
         (\<lambda>_. push_fail)
     else enter_create deployer new_address code value limit new_depth alive))))))))))))))))"

definition create_static :: "(VM, unit) action" where
  "create_static vm =
     guard_err (vm_fork vm \<ge> Amsterdam \<and> is_static (cf vm)) (halt OpcodeNotAllowedInStaticContext) vm"

definition OpCreateHandler :: "(VM, opcode_result) action" where
  "OpCreateHandler =
     bind create_static (\<lambda>_. pop3 (\<lambda>value_in_wei code_offset code_len.
     bind (lift_result (size_offset_to_usize code_len code_offset)) (\<lambda>(code_len, code_offset).
     bind (lift_result (calculate_memory_size code_offset code_len)) (\<lambda>new_size.
     bind (gets vm_fork) (\<lambda>f.
     bind (charge_with (\<lambda>current. gas_create new_size current code_len f)) (\<lambda>_.
     generic_create value_in_wei code_offset code_len None))))))"

definition OpCreate2Handler :: "(VM, opcode_result) action" where
  "OpCreate2Handler =
     bind create_static (\<lambda>_. pop4 (\<lambda>value_in_wei code_offset code_len salt.
     bind (lift_result (size_offset_to_usize code_len code_offset)) (\<lambda>(code_len, code_offset).
     bind (lift_result (calculate_memory_size code_offset code_len)) (\<lambda>new_size.
     bind (gets vm_fork) (\<lambda>f.
     bind (charge_with (\<lambda>current. gas_create_2 new_size current code_len f)) (\<lambda>_.
     generic_create value_in_wei code_offset code_len (Some salt)))))))"

section \<open>Message calls\<close>

definition check_call_static_gas ::
  "nat \<Rightarrow> nat \<Rightarrow> nat \<Rightarrow> nat \<Rightarrow> address \<Rightarrow> nat \<Rightarrow> (VM, nat \<times> bool \<times> nat) action" where
  "check_call_static_gas args_offset args_len return_offset return_len address value_cost =
     bind (lift_result (calculate_memory_size args_offset args_len)) (\<lambda>args_size.
     bind (lift_result (calculate_memory_size return_offset return_len)) (\<lambda>return_size.
     let new_memory_size = max args_size return_size in
     bind (gets (\<lambda>vm. \<not> is_address_accessed (substate vm) address)) (\<lambda>address_was_cold.
     bind (gets (\<lambda>vm. expansion_cost new_memory_size (mem_len (memory (cf vm))))) (\<lambda>memory_expansion_cost.
     bind (gets (\<lambda>vm. if address_was_cold then cold_account_access_cost (vm_fork vm)
         else WARM_ADDRESS_ACCESS_COST_GAS)) (\<lambda>access_gas_cost.
     bind (lift_result (and_then (or_out_of_gas (checked_add memory_expansion_cost access_gas_cost)) (\<lambda>c.
       or_out_of_gas (checked_add c value_cost)))) (\<lambda>static_cost.
     bind (\<lambda>vm. (check_gas static_cost (cf vm), vm)) (\<lambda>_.
     ret (new_memory_size, address_was_cold, static_cost))))))))"

definition early_revert_message_call :: "nat \<Rightarrow> (VM, opcode_result) action" where
  "early_revert_message_call limit =
     bind (try_update (\<lambda>vm. checked_i64 (gas_remaining (cf vm) + wrap_i64 (int limit))) put_gas_remaining Overflow)
       (\<lambda>_. push_fail)"

text \<open>A call to a precompile is answered at once.\<close>

definition call_precompile ::
  "(bytes \<Rightarrow> nat \<Rightarrow> (vm_error + bytes) \<times> nat) \<Rightarrow> nat \<Rightarrow> u256 \<Rightarrow> address \<Rightarrow> address \<Rightarrow> bool \<Rightarrow> bytes \<Rightarrow> nat \<Rightarrow> nat \<Rightarrow> bool \<Rightarrow>
    (VM, opcode_result) action" where
  "call_precompile execute limit value sender to' transfers data ro rs new_account_charged =
     (let (r, remaining) = execute data limit in
      bind (lift_result (handle_precompile_result r limit remaining)) (\<lambda>ctx.
      bind (if ctx_is_success ctx
            then bind (lift_result (ok_or (checked_sub limit (gas_used ctx)) (internal Underflow))) (\<lambda>unused.
              try_update (\<lambda>vm. map_option (\<lambda>g. wrap_i64 (int g)) (checked_add (as_u64 (gas_remaining (cf vm))) unused))
                put_gas_remaining Overflow)
            else ret ()) (\<lambda>_.
      bind (on_memory (store_data ro (take rs (ctx_output ctx)))) (\<lambda>_.
      bind (modify_frame (\<lambda>c. c \<lparr> sub_return_data := ctx_output ctx \<rparr>)) (\<lambda>_.
      bind (on_stack (push (if ctx_is_success ctx then SUCCESS else FAIL))) (\<lambda>_.
      bind (refund_new_account_state_gas (new_account_charged \<and> \<not> ctx_is_success ctx)) (\<lambda>_.
      continue (if transfers \<and> ctx_is_success ctx
        then bind (transfer sender to' value) (\<lambda>_.
          bind (gets vm_fork) (\<lambda>f. log_transfer (f \<ge> Amsterdam \<and> value \<noteq> 0 \<and> sender \<noteq> to') sender to' value))
        else ret ()))))))))"

definition enter_call ::
  "nat \<Rightarrow> u256 \<Rightarrow> address \<Rightarrow> address \<Rightarrow> address \<Rightarrow> bool \<Rightarrow> bool \<Rightarrow> bytes \<Rightarrow> nat \<Rightarrow> nat \<Rightarrow> Code \<Rightarrow> bool \<Rightarrow> nat \<Rightarrow>
    (VM, opcode_result) action" where
  "enter_call limit value sender to' code_addr transfers static data ro rs code new_account_charged new_depth =
     bind take_stack (\<lambda>st.
     bind (gets (\<lambda>vm. next_memory (mem_buffer vm, memory (cf vm)))) (\<lambda>mem.
     bind (gets (\<lambda>vm. (CallFrame_new sender to' code_addr code value data static limit new_depth transfers False
         ro rs st mem)
         \<lparr> state_gas_used_at_entry := state_gas_used vm, new_account_state_gas_charged := new_account_charged \<rparr>))
       (\<lambda>new_call_frame.
     bind (enter_frame new_call_frame) (\<lambda>_.
     bind (if transfers then transfer sender to' value else ret ()) (\<lambda>_.
     bind (modify (\<lambda>vm. vm \<lparr> substate := push_backup (substate vm) \<rparr>)) (\<lambda>_.
     bind (gets vm_fork) (\<lambda>f.
     continue (log_transfer (transfers \<and> f \<ge> Amsterdam \<and> value \<noteq> 0 \<and> sender \<noteq> to') sender to' value))))))))"

definition generic_call ::
  "nat \<Rightarrow> u256 \<Rightarrow> address \<Rightarrow> address \<Rightarrow> address \<Rightarrow> bool \<Rightarrow> bool \<Rightarrow> bytes \<Rightarrow> nat \<Rightarrow> nat \<Rightarrow> Code \<Rightarrow> bool \<Rightarrow> bool \<Rightarrow>
    (VM, opcode_result) action" where
  "generic_call limit value sender to' code_addr transfers static data ro rs code is_delegation_7702
     new_account_charged =
     bind (modify_frame (\<lambda>c. c \<lparr> sub_return_data := [] \<rparr>)) (\<lambda>_.
     bind (if transfers \<and> value \<noteq> 0
           then bind (on_db (get_account sender)) (\<lambda>acc. ret (balance (info acc) < value)) else ret False)
       (\<lambda>out_of_fund.
     if out_of_fund then
       bind (refund_new_account_state_gas new_account_charged) (\<lambda>_. early_revert_message_call limit)
     else
     bind (\<lambda>vm. (ok_or (checked_add (depth (cf vm)) 1) (internal Overflow), vm)) (\<lambda>new_depth.
     if new_depth > 1024 then
       bind (refund_new_account_state_gas new_account_charged) (\<lambda>_. early_revert_message_call limit)
     else
     bind (gets (\<lambda>vm. precompiles vm (vm_fork vm) code_addr)) (\<lambda>precompile.
     case precompile of
       Some execute \<Rightarrow>
         if \<not> is_delegation_7702
         then call_precompile execute limit value sender to' transfers data ro rs new_account_charged
         else enter_call limit value sender to' code_addr transfers static data ro rs code new_account_charged new_depth
     | None \<Rightarrow>
         enter_call limit value sender to' code_addr transfers static data ro rs code new_account_charged new_depth))))"

text \<open>
  The code a call runs: the callee's, or with a delegation the code of the delegate, which is read only after its
  access has been found affordable.  The result is the code, whether it is delegated, the cost of the access and
  the address of the code.
\<close>

definition resolve_code :: "address \<Rightarrow> nat \<Rightarrow> (VM, Code \<times> bool \<times> nat \<times> address) action" where
  "resolve_code address static_cost =
     bind (eip7702_peek_delegation address) (\<lambda>(target_code, delegation).
       case delegation of
         None \<Rightarrow> ret (target_code, False, 0, address)
       | Some (auth_address, access_cost) \<Rightarrow>
           bind (lift_result (or_out_of_gas (checked_add static_cost access_cost))) (\<lambda>c.
           bind (\<lambda>vm. (check_gas c (cf vm), vm)) (\<lambda>_.
           bind (on_substate (add_accessed_address auth_address)) (\<lambda>_.
           bind (on_db (get_account_code auth_address)) (\<lambda>code.
           ret (code, True, access_cost, auth_address))))))"

definition gas_left_after :: "nat \<Rightarrow> (VM, nat) action" where
  "gas_left_after cost vm = (or_out_of_gas (checked_sub (as_u64 (gas_remaining (cf vm))) cost), vm)"

text \<open>Charging the call, growing the memory for the arguments and the result, and reading the arguments.\<close>

definition prepare_call :: "nat \<Rightarrow> nat \<Rightarrow> (VM, unit) action" where
  "prepare_call cost eip7702_gas_consumed =
     charge (or_out_of_gas (checked_add cost eip7702_gas_consumed))"

definition get_calldata :: "nat \<Rightarrow> nat \<Rightarrow> (VM, bytes) action" where
  "get_calldata off sz = on_memory (load_range off sz)"

definition OpCallHandler :: "(VM, opcode_result) action" where
  "OpCallHandler =
     bind (on_stack (pop 7)) (\<lambda>xs.
     let gas = xs ! 0; callee = word_to_address (xs ! 1); value = xs ! 2 in
     bind (lift_result (size_offset_to_usize (xs ! 4) (xs ! 3))) (\<lambda>(args_len, args_offset).
     bind (lift_result (size_offset_to_usize (xs ! 6) (xs ! 5))) (\<lambda>(return_len, return_offset).
     bind (\<lambda>vm. guard_err (is_static (cf vm) \<and> value \<noteq> 0) (halt OpcodeNotAllowedInStaticContext) vm) (\<lambda>_.
     bind (gets vm_fork) (\<lambda>f.
     bind (check_call_static_gas args_offset args_len return_offset return_len callee
         (if value \<noteq> 0 then call_positive_value_cost f else 0)) (\<lambda>(new_memory_size, address_was_cold, static_cost).
     bind (on_substate (add_accessed_address callee)) (\<lambda>_.
     bind (if value = 0 then ret False else bind (on_db (get_account callee)) (\<lambda>acc. ret (account_is_empty acc)))
       (\<lambda>address_is_empty.
     bind (resolve_code callee static_cost) (\<lambda>(bytecode, is_delegation_7702, eip7702_gas_consumed, code_addr).
     bind (gas_left_after eip7702_gas_consumed) (\<lambda>gas_left.
     let needs_state_gas = f \<ge> Amsterdam \<and> address_is_empty in
     bind (if needs_state_gas
           then (\<lambda>vm. (or_out_of_gas (checked_sub gas_left
             (state_gas_new_account vm - min (state_gas_reservoir vm) (state_gas_new_account vm))), vm))
           else ret gas_left) (\<lambda>gas_left.
     bind (\<lambda>vm. (gas_call new_memory_size (mem_len (memory (cf vm))) address_was_cold address_is_empty value gas
         gas_left f, vm)) (\<lambda>(cost, limit).
     bind (prepare_call cost eip7702_gas_consumed) (\<lambda>_.
     bind (if needs_state_gas then bind (gets state_gas_new_account) increase_state_gas else ret ()) (\<lambda>_.
     bind (on_memory (resize new_memory_size)) (\<lambda>_.
     bind (get_calldata args_offset args_len) (\<lambda>data.
     bind (gets cf) (\<lambda>c.
     generic_call limit value (to_address c) callee code_addr True (is_static c) data return_offset return_len
       bytecode is_delegation_7702 needs_state_gas)))))))))))))))))"

definition OpCallCodeHandler :: "(VM, opcode_result) action" where
  "OpCallCodeHandler =
     bind (on_stack (pop 7)) (\<lambda>xs.
     let gas = xs ! 0; address = word_to_address (xs ! 1); value = xs ! 2 in
     bind (lift_result (size_offset_to_usize (xs ! 4) (xs ! 3))) (\<lambda>(args_len, args_offset).
     bind (lift_result (size_offset_to_usize (xs ! 6) (xs ! 5))) (\<lambda>(return_len, return_offset).
     bind (gets vm_fork) (\<lambda>f.
     bind (check_call_static_gas args_offset args_len return_offset return_len address
         (if value \<noteq> 0 then call_positive_value_cost f else 0)) (\<lambda>(new_memory_size, address_was_cold, static_cost).
     bind (on_substate (add_accessed_address address)) (\<lambda>_.
     bind (resolve_code address static_cost) (\<lambda>(bytecode, is_delegation_7702, eip7702_gas_consumed, code_addr).
     bind (gas_left_after eip7702_gas_consumed) (\<lambda>gas_left.
     bind (\<lambda>vm. (gas_callcode new_memory_size (mem_len (memory (cf vm))) address_was_cold value gas gas_left f, vm))
       (\<lambda>(cost, limit).
     bind (prepare_call cost eip7702_gas_consumed) (\<lambda>_.
     bind (on_memory (resize new_memory_size)) (\<lambda>_.
     bind (get_calldata args_offset args_len) (\<lambda>data.
     bind (gets cf) (\<lambda>c.
     generic_call limit value (to_address c) (to_address c) code_addr True (is_static c) data return_offset return_len
       bytecode is_delegation_7702 False)))))))))))))"

definition OpDelegateCallHandler :: "(VM, opcode_result) action" where
  "OpDelegateCallHandler =
     bind (on_stack (pop 6)) (\<lambda>xs.
     let gas = xs ! 0; address = word_to_address (xs ! 1) in
     bind (lift_result (size_offset_to_usize (xs ! 3) (xs ! 2))) (\<lambda>(args_len, args_offset).
     bind (lift_result (size_offset_to_usize (xs ! 5) (xs ! 4))) (\<lambda>(return_len, return_offset).
     bind (gets vm_fork) (\<lambda>f.
     bind (check_call_static_gas args_offset args_len return_offset return_len address 0)
       (\<lambda>(new_memory_size, address_was_cold, static_cost).
     bind (on_substate (add_accessed_address address)) (\<lambda>_.
     bind (resolve_code address static_cost) (\<lambda>(bytecode, is_delegation_7702, eip7702_gas_consumed, code_addr).
     bind (gas_left_after eip7702_gas_consumed) (\<lambda>gas_left.
     bind (\<lambda>vm. (gas_delegatecall new_memory_size (mem_len (memory (cf vm))) address_was_cold gas gas_left f, vm))
       (\<lambda>(cost, limit).
     bind (prepare_call cost eip7702_gas_consumed) (\<lambda>_.
     bind (on_memory (resize new_memory_size)) (\<lambda>_.
     bind (get_calldata args_offset args_len) (\<lambda>data.
     bind (gets cf) (\<lambda>c.
     generic_call limit (msg_value c) (msg_sender c) (to_address c) code_addr False (is_static c) data
       return_offset return_len bytecode is_delegation_7702 False)))))))))))))"

definition OpStaticCallHandler :: "(VM, opcode_result) action" where
  "OpStaticCallHandler =
     bind (on_stack (pop 6)) (\<lambda>xs.
     let gas = xs ! 0; address = word_to_address (xs ! 1) in
     bind (lift_result (size_offset_to_usize (xs ! 3) (xs ! 2))) (\<lambda>(args_len, args_offset).
     bind (lift_result (size_offset_to_usize (xs ! 5) (xs ! 4))) (\<lambda>(return_len, return_offset).
     bind (gets vm_fork) (\<lambda>f.
     bind (check_call_static_gas args_offset args_len return_offset return_len address 0)
       (\<lambda>(new_memory_size, address_was_cold, static_cost).
     bind (on_substate (add_accessed_address address)) (\<lambda>_.
     bind (resolve_code address static_cost) (\<lambda>(bytecode, is_delegation_7702, eip7702_gas_consumed, code_addr).
     bind (gas_left_after eip7702_gas_consumed) (\<lambda>gas_left.
     bind (\<lambda>vm. (gas_staticcall new_memory_size (mem_len (memory (cf vm))) address_was_cold gas gas_left f, vm))
       (\<lambda>(cost, limit).
     bind (prepare_call cost eip7702_gas_consumed) (\<lambda>_.
     bind (on_memory (resize new_memory_size)) (\<lambda>_.
     bind (get_calldata args_offset args_len) (\<lambda>data.
     bind (gets cf) (\<lambda>c.
     generic_call limit 0 (to_address c) address address True True data return_offset return_len
       bytecode is_delegation_7702 False)))))))))))))"

section \<open>Self-destruction\<close>

definition zero_balance :: "address \<Rightarrow> (VM, unit) action" where
  "zero_balance a =
     bind (get_account_mut a (\<lambda>acc. acc \<lparr> info := (info acc) \<lparr> balance := 0 \<rparr> \<rparr>)) (\<lambda>_. ret ())"

definition selfdestruct_effects :: "Fork \<Rightarrow> address \<Rightarrow> address \<Rightarrow> u256 \<Rightarrow> (VM, unit) action" where
  "selfdestruct_effects f a beneficiary bal =
     (if f \<ge> Cancun then
        bind (if \<not> (f \<ge> Amsterdam \<and> a = beneficiary) then transfer a beneficiary bal else ret ()) (\<lambda>_.
        bind (gets (\<lambda>vm. is_account_created (substate vm) a)) (\<lambda>created.
        bind (if created then
            bind (if f < Amsterdam then zero_balance a else ret ()) (\<lambda>_.
            bind (on_substate (add_selfdestruct a)) (\<lambda>_. ret ()))
          else ret ()) (\<lambda>_.
        log_transfer (f \<ge> Amsterdam \<and> bal \<noteq> 0 \<and> a \<noteq> beneficiary) a beneficiary bal)))
      else
        bind (increase_account_balance beneficiary bal) (\<lambda>_.
        bind (zero_balance a) (\<lambda>_.
        bind (on_substate (add_selfdestruct a)) (\<lambda>_. ret ()))))"

definition OpSelfDestructHandler :: "(VM, opcode_result) action" where
  "OpSelfDestructHandler =
     bind not_static (\<lambda>_.
     bind (on_stack pop1) (\<lambda>w. let beneficiary = word_to_address w in
     bind (gets (\<lambda>vm. to_address (cf vm))) (\<lambda>a.
     bind (on_substate (add_accessed_address beneficiary)) (\<lambda>cold.
     bind (gets vm_fork) (\<lambda>f.
     bind (if f \<ge> Amsterdam then bind (lift_result (selfdestruct_base cold f)) (\<lambda>base_cost vm.
         guard_err (gas_remaining (cf vm) < wrap_i64 (int base_cost)) (halt OutOfGas) vm) else ret ()) (\<lambda>_.
     bind (on_db (get_account beneficiary)) (\<lambda>target.
     bind (on_db (get_account a)) (\<lambda>acc.
     let bal = balance (info acc) in
     bind (charge (gas_selfdestruct cold (account_is_empty target) bal f)) (\<lambda>_.
     bind (if f \<ge> Amsterdam \<and> account_is_empty target \<and> bal > 0
       then bind (gets state_gas_new_account) increase_state_gas else ret ()) (\<lambda>_.
     bind (selfdestruct_effects f a beneficiary bal) (\<lambda>_. ret Halt)))))))))))"

section \<open>Leaving a frame\<close>

definition handle_state_backup :: "ContextResult \<Rightarrow> bool \<Rightarrow> (VM, unit) action" where
  "handle_state_backup ctx consume_backup =
     (if ctx_is_success ctx then modify (\<lambda>vm. vm \<lparr> substate := commit_backup (substate vm) \<rparr>)
      else bind (modify (\<lambda>vm. vm \<lparr> substate := revert_backup (substate vm) \<rparr>)) (\<lambda>_.
        if consume_backup then restore_cache_state_consuming else vm_restore_cache_state))"

text \<open>The memory of the finished frame is cleaned in the shared buffer.\<close>

definition release_memory :: "CallFrame \<Rightarrow> (VM, unit) action" where
  "release_memory child =
     zoom (\<lambda>vm. (mem_buffer vm, memory child)) (\<lambda>(buf, _) vm. vm \<lparr> mem_buffer := buf \<rparr>) clean_from_base"

definition return_unused_gas :: "CallFrame \<Rightarrow> ContextResult \<Rightarrow> (VM, unit) action" where
  "return_unused_gas child ctx =
     bind (lift_result (ok_or (checked_sub (gas_limit child) (gas_used ctx)) (internal Underflow))) (\<lambda>unused.
     try_update (\<lambda>vm. checked_i64 (gas_remaining (cf vm) + wrap_i64 (int unused))) put_gas_remaining Overflow)"

definition release_stack :: "CallFrame \<Rightarrow> (VM, unit) action" where
  "release_stack child = modify (\<lambda>vm. vm \<lparr> stack_pool := stack_pool vm @ [stack_clear (stack child)] \<rparr>)"

definition incorporate_child :: "CallFrame \<Rightarrow> (VM, unit) action" where
  "incorporate_child child =
     bind (merge_call_frame_backup_with_parent (call_frame_backup child)) (\<lambda>_.
     bind (try_update (\<lambda>vm. checked_add (frame_state_gas_spilled (cf vm)) (frame_state_gas_spilled child))
       put_frame_spill Overflow) (\<lambda>_.
     bind (gets vm_fork) (\<lambda>f. if f \<ge> Amsterdam then repay_state_gas_spill else ret ())))"

definition handle_return_call :: "CallFrame \<Rightarrow> ContextResult \<Rightarrow> (VM, unit) action" where
  "handle_return_call child ctx =
     bind (release_memory child) (\<lambda>_.
     bind (return_unused_gas child ctx) (\<lambda>_.
     bind (on_memory (store_data (ret_offset child) (take (ret_size child) (ctx_output ctx)))) (\<lambda>_.
     bind (modify_frame (\<lambda>c. c \<lparr> sub_return_data := ctx_output ctx \<rparr>)) (\<lambda>_.
     bind (case ctx_result ctx of
         Success \<Rightarrow> bind (on_stack (push SUCCESS)) (\<lambda>_. incorporate_child child)
       | Revert _ \<Rightarrow> bind (refund_new_account_state_gas (new_account_state_gas_charged child)) (\<lambda>_.
           on_stack (push FAIL))) (\<lambda>_.
     release_stack child)))))"

definition handle_return_create :: "CallFrame \<Rightarrow> ContextResult \<Rightarrow> (VM, unit) action" where
  "handle_return_create child ctx =
     bind (release_memory child) (\<lambda>_.
     bind (return_unused_gas child ctx) (\<lambda>_.
     bind (case ctx_result ctx of
         Success \<Rightarrow> bind (on_stack (push (address_to_word (to_address child)))) (\<lambda>_. incorporate_child child)
       | Revert e \<Rightarrow>
           bind (gets vm_fork) (\<lambda>f.
           bind (if f \<ge> Amsterdam \<and> \<not> target_alive child
             then bind (gets state_gas_new_account) credit_state_gas_refund else ret ()) (\<lambda>_.
           bind (if is_revert_opcode e then modify_frame (\<lambda>c. c \<lparr> sub_return_data := ctx_output ctx \<rparr>) else ret ())
             (\<lambda>_. on_stack (push FAIL))))) (\<lambda>_.
     release_stack child)))"

definition handle_return :: "ContextResult \<Rightarrow> (VM, unit) action" where
  "handle_return ctx =
     bind (handle_state_backup ctx True) (\<lambda>_.
     bind pop_call_frame (\<lambda>child.
     if is_create child then handle_return_create child ctx else handle_return_call child ctx))"

section \<open>Finished code\<close>

definition MAX_CODE_SIZE :: nat where
  "MAX_CODE_SIZE = 0x6000"

definition EOF_PREFIX :: byte where
  "EOF_PREFIX = 0xef"

definition validate_contract_creation :: "(VM, unit) action" where
  "validate_contract_creation =
     bind (gets vm_fork) (\<lambda>f.
     bind (gets (\<lambda>vm. frame_output (cf vm))) (\<lambda>code.
     let code_length = length code in
     bind (guard_err (code \<noteq> [] \<and> hd code = EOF_PREFIX) (halt InvalidContractPrefix)) (\<lambda>_.
     if f \<ge> Amsterdam then
       bind (guard_err (code_length > AMSTERDAM_MAX_CODE_SIZE) (halt ContractOutputTooBig)) (\<lambda>_.
       bind (lift_result (ok_or (checked_mul (div_ceil code_length 32) CODE_DEPOSIT_REGULAR_COST_PER_WORD_GAS)
         (internal Overflow))) (\<lambda>regular.
       bind (\<lambda>vm. (ok_or (checked_mul code_length (vm_cost_per_state_byte vm)) (internal Overflow), vm)) (\<lambda>state.
       bind (on_frame (increase_consumed_gas regular)) (\<lambda>_.
       if state > 0 then increase_state_gas state else ret ()))))
     else
       bind (guard_err (code_length > MAX_CODE_SIZE) (halt ContractOutputTooBig)) (\<lambda>_.
       bind (lift_result (ok_or (checked_mul code_length CODE_DEPOSIT_COST_GAS) (internal Overflow))) (\<lambda>regular.
       on_frame (increase_consumed_gas regular))))))"

definition frame_gas_used :: "(VM, nat) action" where
  "frame_gas_used vm =
     (ok_or (checked_sub (gas_limit (cf vm)) (as_u64 (gas_remaining (cf vm)))) (internal Underflow), vm)"

definition take_output :: "(VM, bytes) action" where
  "take_output vm = (Inr (frame_output (cf vm)), vm \<lparr> current_call_frame := (cf vm) \<lparr> frame_output := [] \<rparr> \<rparr>)"

definition refill_from_amsterdam :: "(VM, unit) action" where
  "refill_from_amsterdam =
     bind (gets vm_fork) (\<lambda>f.
       if f \<ge> Amsterdam
       then bind (gets (\<lambda>vm. state_gas_used_at_entry (cf vm))) refill_frame_state_gas else ret ())"

text \<open>Running an action and handing its error to the caller, \<open>if let Err(error) = ...\<close>.\<close>

definition try_action :: "('s, 'a) action \<Rightarrow> ('s, vm_error + 'a) action" where
  "try_action m s =
     (case m s of
        (Inl (VmErr e), s') \<Rightarrow> (Inr (Inl e), s')
      | (Inl e, s') \<Rightarrow> (Inl e, s')
      | (Inr x, s') \<Rightarrow> (Inr (Inr x), s'))"

definition handle_opcode_result :: "(VM, ContextResult) action" where
  "handle_opcode_result =
     (let finish = bind frame_gas_used (\<lambda>used. bind take_output (\<lambda>out.
        ret \<lparr> ctx_result = Success, gas_used = used, gas_spent = used, ctx_output = out \<rparr>)) in
      bind (gets (\<lambda>vm. is_create (cf vm))) (\<lambda>create.
      if create then
        bind (try_action validate_contract_creation) (\<lambda>r.
        case r of
          Inl e \<Rightarrow>
            if should_propagate e then err (VmErr e)
            else
              bind refill_from_amsterdam (\<lambda>_.
              bind (modify (put_gas_remaining 0)) (\<lambda>_.
              bind frame_gas_used (\<lambda>used.
              ret \<lparr> ctx_result = Revert e, gas_used = used, gas_spent = used, ctx_output = [] \<rparr>)))
        | Inr _ \<Rightarrow>
            bind (gets (\<lambda>vm. (to_address (cf vm),
              from_bytecode (host_target vm) (keccak256 (crypto vm)) (frame_output (cf vm))))) (\<lambda>(a, code).
            bind (update_account_bytecode a code) (\<lambda>_. finish)))
      else finish))"

definition handle_opcode_error :: "vm_error \<Rightarrow> (VM, ContextResult) action" where
  "handle_opcode_error e =
     (if should_propagate e then err (VmErr e)
      else
        bind refill_from_amsterdam (\<lambda>_.
        bind (if \<not> is_revert_opcode e then modify (put_gas_remaining 0) else ret ()) (\<lambda>_.
        bind frame_gas_used (\<lambda>used.
        bind take_output (\<lambda>out.
        ret \<lparr> ctx_result = Revert e, gas_used = used, gas_spent = used, ctx_output = out \<rparr>)))))"

definition handle_create_transaction :: "(VM, ContextResult option) action" where
  "handle_create_transaction =
     bind (gets (\<lambda>vm. to_address (cf vm))) (\<lambda>new_address.
     bind (get_account_mut new_address (\<lambda>acc. acc)) (\<lambda>new_account.
     if create_would_collide new_account then
       bind refill_from_amsterdam (\<lambda>_.
       bind (modify (put_gas_remaining 0)) (\<lambda>_.
       gets (\<lambda>vm. Some \<lparr> ctx_result = Revert (ExceptionalHalt AddressAlreadyOccupied),
         gas_used = env_gas_limit (env vm), gas_spent = env_gas_limit (env vm), ctx_output = [] \<rparr>)))
     else
       bind (gets (\<lambda>vm. msg_value (cf vm))) (\<lambda>value.
       bind (increase_account_balance new_address value) (\<lambda>_.
       bind (gets (\<lambda>vm. (vm_fork vm, origin (env vm)))) (\<lambda>(f, sender).
       bind (log_transfer (f \<ge> Amsterdam \<and> value \<noteq> 0) sender new_address value) (\<lambda>_.
       bind (increment_account_nonce new_address) (\<lambda>_. ret None)))))))"

end
