(* ===== verification/Evm_Dispatch.thy ===== *)
theory Evm_Dispatch
  imports Evm_Calls
begin

text \<open>
  The opcode tables of \<open>src/crates/vm/levm/src/opcodes.rs\<close> and the dispatch loop of \<open>vm.rs\<close>.  The tables of the
  forks before Hegota are modelled; Hegota adds the opcodes of frame transactions.  The loop may run forever as far
  as its text goes, so it is a partial function; that it does return is a theorem.
\<close>

section \<open>Opcode tables\<close>

type_synonym opcode_table = "byte \<Rightarrow> (VM, opcode_result) action"

definition build_opcode_table_pre_shanghai :: opcode_table where
  "build_opcode_table_pre_shanghai op =
     (if 0x60 \<le> op \<and> op \<le> 0x7F then OpPushHandler (unat op - 0x5F)
      else if 0x80 \<le> op \<and> op \<le> 0x8F then OpDupHandler (unat op - 0x80)
      else if 0x90 \<le> op \<and> op \<le> 0x9F then OpSwapHandler (unat op - 0x8F)
      else if 0xA0 \<le> op \<and> op \<le> 0xA4 then OpLogHandler (unat op - 0xA0)
      else ((\<lambda>_. OpInvalidHandler)
       (0x00 := OpStopHandler,
        0x51 := OpMLoadHandler, 0x52 := OpMStoreHandler, 0x53 := OpMStore8Handler,
        0x56 := OpJumpHandler, 0x54 := OpSLoadHandler, 0x55 := OpSStoreHandler,
        0x59 := OpMSizeHandler, 0x5A := OpGasHandler,
        0x50 := OpPopHandler, 0x01 := OpAddHandler, 0x02 := OpMulHandler, 0x03 := OpSubHandler,
        0x04 := OpDivHandler, 0x05 := OpSDivHandler, 0x06 := OpModHandler, 0x07 := OpSModHandler,
        0x08 := OpAddModHandler, 0x09 := OpMulModHandler, 0x0A := OpExpHandler,
        0xF1 := OpCallHandler, 0xF2 := OpCallCodeHandler, 0xF3 := OpReturnHandler,
        0xF4 := OpDelegateCallHandler, 0xFA := OpStaticCallHandler, 0xF0 := OpCreateHandler,
        0xF5 := OpCreate2Handler, 0x57 := OpJumpIHandler, 0x5B := OpJumpDestHandler,
        0x30 := OpAddressHandler, 0x32 := OpOriginHandler, 0x31 := OpBalanceHandler,
        0x33 := OpCallerHandler, 0x34 := OpCallValueHandler, 0x39 := OpCodeCopyHandler,
        0x0B := OpSignExtendHandler, 0x10 := OpLtHandler, 0x11 := OpGtHandler, 0x12 := OpSLtHandler,
        0x13 := OpSGtHandler, 0x14 := OpEqHandler, 0x15 := OpIsZeroHandler, 0x20 := OpKeccak256Handler,
        0x35 := OpCallDataLoadHandler, 0x36 := OpCallDataSizeHandler, 0x37 := OpCallDataCopyHandler,
        0x3D := OpReturnDataSizeHandler, 0x3E := OpReturnDataCopyHandler, 0x58 := OpPcHandler,
        0x40 := OpBlockHashHandler, 0x41 := OpCoinbaseHandler, 0x42 := OpTimestampHandler,
        0x43 := OpNumberHandler, 0x44 := OpPrevRandaoHandler, 0x45 := OpGasLimitHandler,
        0x46 := OpChainIdHandler, 0x48 := OpBaseFeeHandler, 0x16 := OpAndHandler, 0x17 := OpOrHandler,
        0x18 := OpXorHandler, 0x19 := OpNotHandler, 0x1A := OpByteHandler, 0x1B := OpShlHandler,
        0x1C := OpShrHandler, 0x1D := OpSarHandler, 0x47 := OpSelfBalanceHandler, 0x38 := OpCodeSizeHandler,
        0x3A := OpGasPriceHandler, 0x3B := OpExtCodeSizeHandler, 0x3C := OpExtCodeCopyHandler,
        0x3F := OpExtCodeHashHandler, 0xFD := OpRevertHandler, 0xFE := OpInvalidHandler,
        0xFF := OpSelfDestructHandler)) op)"

definition build_opcode_table_pre_cancun :: opcode_table where
  "build_opcode_table_pre_cancun = build_opcode_table_pre_shanghai(0x5F := OpPush0Handler)"

definition build_opcode_table_pre_osaka :: opcode_table where
  "build_opcode_table_pre_osaka = build_opcode_table_pre_cancun
     (0x5E := OpMCopyHandler, 0x5C := OpTLoadHandler, 0x5D := OpTStoreHandler, 0x4A := OpBlobBaseFeeHandler,
      0x49 := OpBlobHashHandler)"

definition build_opcode_table_osaka :: opcode_table where
  "build_opcode_table_osaka = build_opcode_table_pre_osaka(0x1E := OpClzHandler)"

definition build_opcode_table_amsterdam :: opcode_table where
  "build_opcode_table_amsterdam = build_opcode_table_osaka
     (0xE6 := OpDupNHandler, 0xE7 := OpSwapNHandler, 0xE8 := OpExchangeHandler, 0x4B := OpSlotNumHandler)"

definition build_opcode_table :: "Fork \<Rightarrow> opcode_table option" where
  "build_opcode_table f =
     (if f \<ge> Hegota then None
      else if f \<ge> Amsterdam then Some build_opcode_table_amsterdam
      else if f \<ge> Osaka then Some build_opcode_table_osaka
      else if f \<ge> Cancun then Some build_opcode_table_pre_osaka
      else if f \<ge> Shanghai then Some build_opcode_table_pre_cancun
      else Some build_opcode_table_pre_shanghai)"

section \<open>The loop\<close>

definition dispatch_step :: "opcode_table \<Rightarrow> (VM, ContextResult option) action" where
  "dispatch_step table =
     bind (\<lambda>vm. (next_opcode (cf vm), vm)) (\<lambda>opcode.
     bind (modify advance_pc) (\<lambda>_.
     bind (try_action (table opcode)) (\<lambda>op_result.
       if op_result = Inr Continue then ret None
       else
         bind (case op_result of Inl e \<Rightarrow> handle_opcode_error e | Inr _ \<Rightarrow> handle_opcode_result) (\<lambda>result.
         bind (gets is_initial_call_frame) (\<lambda>initial.
         if initial
         then bind (gets preserve_top_level_backup) (\<lambda>preserve.
           bind (handle_state_backup result (\<not> preserve)) (\<lambda>_. ret (Some result)))
         else bind (handle_return result) (\<lambda>_. ret None))))))"

partial_function (option) run_dispatch ::
  "opcode_table \<Rightarrow> VM \<Rightarrow> ((vm_fail + ContextResult) \<times> VM) option" where
  "run_dispatch table vm =
     (case dispatch_step table vm of
        (Inl e, vm') \<Rightarrow> Some (Inl e, vm')
      | (Inr (Some result), vm') \<Rightarrow> Some (Inr result, vm')
      | (Inr None, vm') \<Rightarrow> run_dispatch table vm')"

definition out_of_gas_result :: "VM \<Rightarrow> ContextResult" where
  "out_of_gas_result vm =
     \<lparr> ctx_result = Revert (ExceptionalHalt OutOfGas), gas_used = gas_limit (cf vm), gas_spent = gas_limit (cf vm),
       ctx_output = [] \<rparr>"

definition run_precompile ::
  "(bytes \<Rightarrow> nat \<Rightarrow> (vm_error + bytes) \<times> nat) \<Rightarrow> (VM, ContextResult) action" where
  "run_precompile execute vm =
     (let (r, remaining) = execute (calldata (cf vm)) (as_u64 (gas_remaining (cf vm)));
          result = handle_precompile_result r (gas_limit (cf vm)) remaining;
          halted = (vm_fork vm \<ge> Amsterdam \<and> (case result of Inr ctx \<Rightarrow> \<not> ctx_is_success ctx | Inl _ \<Rightarrow> False));
          remaining' = (if halted then 0 else remaining)
      in bind (if halted then refund_new_account_state_gas (value_new_account_charged vm) else ret ()) (\<lambda>_.
         bind (modify (put_gas_remaining (wrap_i64 (int remaining')))) (\<lambda>_. lift_result result)) vm)"

definition run_execution :: "opcode_table \<Rightarrow> VM \<Rightarrow> ((vm_fail + ContextResult) \<times> VM) option" where
  "run_execution table vm =
     (if gas_remaining (cf vm) < 0 then Some (Inr (out_of_gas_result vm), vm)
      else if pending_prep_oog vm then Some (Inr (out_of_gas_result vm), vm)
      else case precompiles vm (vm_fork vm) (to_address (cf vm)) of
        Some _ \<Rightarrow>
          (case precompiles vm (vm_fork vm) (code_address (cf vm)) of
             Some execute \<Rightarrow> Some (run_precompile execute vm)
           | None \<Rightarrow> Some (Inl (internal InvalidPrecompileAddress), vm))
      | None \<Rightarrow> run_dispatch table vm)"

end
