(* ===== verification/Evm_Safety.thy ===== *)
theory Evm_Safety
  imports Evm_Dispatch Evm_Opcodes
begin

text \<open>
  Well-formed machines and a calculus for actions inside a frame.  A machine is well formed when stacks are in their
  arrays, each frame's memory is in the part of the shared buffer it owns, code objects are padded, gas counters fit
  their width and the state gas of EIP-8037 balances.  The rules of the calculus show that an action keeps the
  machine well formed, does not panic, does not leave the bounds of an unchecked access, and how it changes the
  gas potential: the gas of all frames plus the state gas that can come back as gas.
\<close>

named_theorems frame_rules \<open>rules for actions inside a frame\<close>

section \<open>Well-formed machines\<close>

definition code_wf :: "Code \<Rightarrow> bool" where
  "code_wf c \<longleftrightarrow> length (bytecode c) = bytecode_len c + 33 \<and>
     (\<forall>i. bytecode_len c \<le> i \<longrightarrow> i < bytecode_len c + 33 \<longrightarrow> bytecode c ! i = 0) \<and> bytecode_len c < 2 ^ 62 \<and>
     (\<forall>t. is_valid_jumpdest c t \<longrightarrow> t < bytecode_len c)"

definition db_ok :: "GeneralizedDatabase \<Rightarrow> bool" where
  "db_ok d \<longleftrightarrow> (\<forall>h c. fmlookup (codes d) h = Some c \<longrightarrow> code_wf c) \<and>
     (\<forall>h c. store_account_code (GeneralizedDatabase.store d) h = Inr c \<longrightarrow> code_wf c)"

text \<open>
  The program counter of a waiting frame may have run up to 32 bytes into the padding of its code, after a \<open>PUSH32\<close>; the
  slack \<open>p\<close> is \<open>0\<close> while a handler other than the one for \<open>STOP\<close> starts.
\<close>

definition frame_ok :: "nat \<Rightarrow> CallFrame \<Rightarrow> bool" where
  "frame_ok p f \<longleftrightarrow> stack_ok (stack f) \<and> code_wf (frame_code f) \<and> pc f \<le> code_len (frame_code f) + p \<and>
     ret_offset f < 2 ^ 32 \<and> ret_size f < 2 ^ 32 \<and> length (frame_output f) < 2 ^ 32 \<and> gas_remaining f < 2 ^ 63"

text \<open>
  The balance of the state gas: \<open>t\<close> is the reservoir plus the state gas used so far.  Going down the frames, what a
  frame took from its regular gas is subtracted; what is left is never less than what was used when the frame was
  entered, so that a failing frame can give it back.
\<close>

fun ledger :: "int \<Rightarrow> CallFrame list \<Rightarrow> bool" where
  "ledger t [] \<longleftrightarrow> 0 \<le> t"
| "ledger t (f # fs) \<longleftrightarrow>
     state_gas_used_at_entry f \<le> t - int (frame_state_gas_spilled f) \<and> ledger (t - int (frame_state_gas_spilled f)) fs"

abbreviation frames_of :: "VM \<Rightarrow> CallFrame list" where
  "frames_of vm \<equiv> cf vm # rev (call_frames vm)"

abbreviation owed :: "VM \<Rightarrow> int" where
  "owed vm \<equiv> int (state_gas_reservoir vm) + state_gas_used vm"

definition mem_ok :: "VM \<Rightarrow> bool" where
  "mem_ok vm \<longleftrightarrow> (\<exists>x xs. frames_rel (mem_buffer vm, memory (cf vm), map memory (rev (call_frames vm))) (x, xs) \<and>
     length x \<le> 2 ^ 34 \<and> (\<forall>y \<in> set xs. length y \<le> 2 ^ 34)) \<and>
     length (mem_buffer vm) \<le> 2 ^ 62 \<and> current_base (memory (cf vm)) + 2 ^ 34 \<le> 2 ^ 62"

text \<open>
  \<open>okf d\<close> holds of a machine that may have run out of gas in the current frame, \<open>ok d\<close> of one that goes on.  The
  parameter has the state gas a finished frame has spilled and its caller has not yet taken over, which is \<open>0\<close> between
  opcodes, and the slack of the program counter.
\<close>

definition okf :: "nat \<times> nat \<Rightarrow> VM \<Rightarrow> bool" where
  "okf d vm \<longleftrightarrow> frame_ok (snd d) (cf vm) \<and> - (2 ^ 63) \<le> gas_remaining (cf vm) \<and>
     list_all (\<lambda>f. frame_ok 32 f \<and> 0 \<le> gas_remaining f) (call_frames vm) \<and>
     mem_ok vm \<and> ledger (owed vm - int (fst d)) (frames_of vm) \<and> db_ok (db vm) \<and>
     list_all (\<lambda>s. length (vals s) = STACK_LIMIT) (stack_pool vm) \<and>
     state_gas_new_account vm < 2 ^ 40 \<and> state_gas_storage_set vm < 2 ^ 40 \<and> vm_cost_per_state_byte vm < 2 ^ 40"

definition ok :: "nat \<times> nat \<Rightarrow> VM \<Rightarrow> bool" where
  "ok d vm \<longleftrightarrow> okf d vm \<and> 0 \<le> gas_remaining (cf vm)"

definition phi :: "VM \<Rightarrow> int" where
  "phi vm = sum_list (map (\<lambda>f. max 0 (gas_remaining f)) (frames_of vm)) + owed vm"

text \<open>What an action inside the current frame leaves alone.\<close>

definition kept :: "VM \<Rightarrow> VM \<Rightarrow> bool" where
  "kept vm vm' \<longleftrightarrow> call_frames vm' = call_frames vm \<and>
     current_base (memory (cf vm')) = current_base (memory (cf vm)) \<and>
     length (mem_buffer vm') \<le> max (length (mem_buffer vm)) (current_base (memory (cf vm)) + 2 ^ 34)"

lemma kept_refl [simp]: "kept vm vm"
  by (simp add: kept_def)

lemma kept_trans: "kept a b \<Longrightarrow> kept b c \<Longrightarrow> kept a c"
  by (auto simp: kept_def)

lemma ok_okf: "ok d vm \<Longrightarrow> okf d vm"
  by (simp add: ok_def)

section \<open>Results without panic\<close>

definition sound :: "vm_fail + 'a \<Rightarrow> bool" where
  "sound r \<longleftrightarrow> r \<noteq> Inl VmPanic \<and> r \<noteq> Inl UndefinedBehaviour"

lemma sound_simps [simp]: "sound (Inr x)" "sound (Inl (VmErr e))" "\<not> sound (Inl VmPanic)"
  "\<not> sound (Inl UndefinedBehaviour)"
  by (simp_all add: sound_def)

lemma sound_ok_or [simp]: "sound (ok_or x (VmErr e))"
  by (cases x) simp_all

lemma sound_and_then [intro]: "sound r \<Longrightarrow> (\<And>x. r = Inr x \<Longrightarrow> sound (f x)) \<Longrightarrow> sound (and_then r f)"
  by (cases r) (simp_all add: sound_def)

lemma sound_if [simp]: "sound (if b then r else s) \<longleftrightarrow> (if b then sound r else sound s)"
  by simp

lemma sound_from_store [simp]: "sound (from_store r)"
  by (cases r) (simp_all add: from_store_def)

lemma sound_Inl: "sound (Inl e) \<Longrightarrow> \<exists>e'. e = VmErr e'"
  by (cases e) simp_all

section \<open>Outcomes\<close>

text \<open>
  \<open>outcome d vm k Q r\<close>: run from \<open>vm\<close>, an action gave \<open>r\<close>: it succeeded with a result that satisfies \<open>Q\<close>, at a cost
  of at least \<open>k\<close>, or it failed with an error of the code.  After an error that ends only the frame the machine is still
  well formed, except that the gas may be negative.
\<close>

definition outcome :: "nat \<times> nat \<Rightarrow> VM \<Rightarrow> int \<Rightarrow> ('a \<Rightarrow> bool) \<Rightarrow> (vm_fail + 'a) \<times> VM \<Rightarrow> bool" where
  "outcome d vm k Q r \<longleftrightarrow>
     (case r of
        (Inr x, vm') \<Rightarrow> ok d vm' \<and> kept vm vm' \<and> phi vm' + k \<le> phi vm \<and> Q x
      | (Inl (VmErr e), vm') \<Rightarrow> should_propagate e \<or>
          okf d vm' \<and> kept vm vm' \<and> phi vm' + min 0 k \<le> phi vm \<and> (is_revert_opcode e \<longrightarrow> ok d vm')
      | (Inl VmPanic, vm') \<Rightarrow> False
      | (Inl UndefinedBehaviour, vm') \<Rightarrow> False)"

text \<open>\<open>runs d B k m Q\<close>: this is the outcome from every well-formed machine with a potential of at most \<open>B\<close>.\<close>

definition runs :: "nat \<times> nat \<Rightarrow> int \<Rightarrow> int \<Rightarrow> (VM, 'a) action \<Rightarrow> ('a \<Rightarrow> bool) \<Rightarrow> bool" where
  "runs d B k m Q \<longleftrightarrow> (\<forall>vm. ok d vm \<longrightarrow> phi vm \<le> B \<longrightarrow> outcome d vm k Q (m vm))"

lemma runsI: "(\<And>vm. ok d vm \<Longrightarrow> phi vm \<le> B \<Longrightarrow> outcome d vm k Q (m vm)) \<Longrightarrow> runs d B k m Q"
  by (simp add: runs_def)

lemma runsD: "runs d B k m Q \<Longrightarrow> ok d vm \<Longrightarrow> phi vm \<le> B \<Longrightarrow> outcome d vm k Q (m vm)"
  by (simp add: runs_def)

lemma outcome_Inr [simp]: "outcome d vm k Q (Inr x, vm') \<longleftrightarrow> ok d vm' \<and> kept vm vm' \<and> phi vm' + k \<le> phi vm \<and> Q x"
  by (simp add: outcome_def)

lemma outcome_halt [simp]:
  "outcome d vm k Q (Inl (halt e), vm') \<longleftrightarrow> okf d vm' \<and> kept vm vm' \<and> phi vm' + min 0 k \<le> phi vm"
  by (simp add: outcome_def should_propagate_def is_revert_opcode_def)

lemma outcome_internal [simp]: "outcome d vm k Q (Inl (internal e), vm')"
  by (simp add: outcome_def should_propagate_def)

lemma outcome_fail [simp]: "\<not> outcome d vm k Q (Inl VmPanic, vm')" "\<not> outcome d vm k Q (Inl UndefinedBehaviour, vm')"
  by (simp_all add: outcome_def)

lemma outcome_err: "ok d vm \<Longrightarrow> outcome d vm k Q (Inl (VmErr e), vm)"
  by (simp add: outcome_def ok_okf)

lemma outcome_cases:
  assumes "outcome d vm k Q (r, vm')"
  obtains x where "r = Inr x" "ok d vm'" "kept vm vm'" "phi vm' + k \<le> phi vm" "Q x"
  | e where "r = Inl (VmErr e)" "should_propagate e"
  | e where "r = Inl (VmErr e)" "okf d vm'" "kept vm vm'" "phi vm' + min 0 k \<le> phi vm" "is_revert_opcode e \<Longrightarrow> ok d vm'"
  using assms by (cases r; fastforce simp: outcome_def split: vm_fail.splits)

lemma outcome_errI:
  "okf d vm' \<Longrightarrow> kept vm vm' \<Longrightarrow> phi vm' + min 0 k \<le> phi vm \<Longrightarrow> (is_revert_opcode e \<Longrightarrow> ok d vm') \<Longrightarrow>
    outcome d vm k Q (Inl (VmErr e), vm')"
  by (simp add: outcome_def)

lemma outcome_propagate: "should_propagate e \<Longrightarrow> outcome d vm k Q (Inl (VmErr e), vm')"
  by (simp add: outcome_def)

lemma outcome_after:
  assumes "kept vm vm1" "phi vm1 + k \<le> phi vm" "0 \<le> k \<or> j \<le> 0" "outcome d vm1 j Q (r, vm2)"
  shows "outcome d vm (k + j) Q (r, vm2)"
  using assms(4)
proof (cases rule: outcome_cases)
  case (3 e)
  moreover have "min 0 (k + j) \<le> k + min 0 j" using assms(3) by linarith
  ultimately show ?thesis using assms(2) kept_trans [OF assms(1)] by (auto intro!: outcome_errI)
qed (use assms kept_trans [OF assms(1)] in \<open>auto intro: outcome_propagate\<close>)

lemma runs_bind:
  assumes "runs d B k m Q" "\<And>x. Q x \<Longrightarrow> runs d (B - k) j (f x) R" "0 \<le> k \<or> j \<le> 0"
  shows "runs d B (k + j) (bind m f) R"
proof (rule runsI)
  fix vm assume ok: "ok d vm" and B: "phi vm \<le> B"
  obtain r vm1 where m: "m vm = (r, vm1)" by (cases "m vm")
  from runsD [OF assms(1) ok B] have "outcome d vm k Q (r, vm1)" by (simp add: m)
  then show "outcome d vm (k + j) R (bind m f vm)"
  proof (cases rule: outcome_cases)
    case (1 x)
    obtain r2 vm2 where f: "f x vm1 = (r2, vm2)" by (cases "f x vm1")
    from 1 B have "phi vm1 \<le> B - k" by linarith
    with runsD [OF assms(2) 1(2)] 1 have "outcome d vm1 j R (r2, vm2)" by (simp flip: f)
    with 1 assms(3) show ?thesis by (simp add: bind_def m f outcome_after)
  next
    case (3 e)
    moreover have "min 0 (k + j) \<le> min 0 k" using assms(3) by linarith
    ultimately show ?thesis by (auto simp: bind_def m intro!: outcome_errI)
  qed (simp add: bind_def m outcome_propagate)
qed

lemma runs_mono: "runs d B k m Q \<Longrightarrow> B' \<le> B \<Longrightarrow> j \<le> k \<Longrightarrow> (\<And>x. Q x \<Longrightarrow> R x) \<Longrightarrow> runs d B' j m R"
  unfolding runs_def outcome_def by (fastforce split: sum.splits prod.splits vm_fail.splits)

text \<open>Sequencing with the costs \<open>0\<close> and \<open>1\<close>, which are all a handler inside a frame needs.\<close>

lemma runs_bind0: "runs d B 0 m Q \<Longrightarrow> (\<And>x. Q x \<Longrightarrow> runs d B k (f x) R) \<Longrightarrow> runs d B k (bind m f) R"
  using runs_bind [of d B 0 m Q k f R] by simp

lemma runs_bind1: "runs d B 1 m Q \<Longrightarrow> (\<And>x. Q x \<Longrightarrow> runs d B 0 (f x) R) \<Longrightarrow> runs d B 1 (bind m f) R"
  using runs_bind [of d B 1 m Q 0 f R] runs_mono [of d B 0 _ R "B - 1" 0 R] by fastforce

section \<open>Rules for the parts of a machine\<close>

lemma runs_ret: "Q x \<Longrightarrow> k \<le> 0 \<Longrightarrow> runs d B k (ret x) Q"
  by (rule runsI) simp

lemma runs_err: "runs d B k (err (VmErr e)) Q"
  by (rule runsI) (simp add: outcome_err)

lemma runs_read:
  assumes "\<And>vm. ok d vm \<Longrightarrow> sound (g vm)" "\<And>vm x. ok d vm \<Longrightarrow> g vm = Inr x \<Longrightarrow> Q x"
  shows "runs d B 0 (\<lambda>vm. (g vm, vm)) Q"
proof (rule runsI)
  fix vm assume ok: "ok d vm"
  then show "outcome d vm 0 Q (g vm, vm)"
    using assms [OF ok] by (cases "g vm") (auto dest!: sound_Inl intro: outcome_err)
qed

lemma runs_lift_result: "sound r \<Longrightarrow> runs d B 0 (lift_result r) (\<lambda>x. r = Inr x)"
  using runs_read [where g = "\<lambda>_. r"] by (simp add: lift_result_def [abs_def])

lemma runs_gets: "(\<And>vm. ok d vm \<Longrightarrow> Q (g vm)) \<Longrightarrow> runs d B 0 (gets g) Q"
  unfolding gets_def [abs_def] by (rule runs_read) auto

lemma runs_guard: "runs d B 0 (\<lambda>vm. guard_err (b vm) (VmErr e) vm) (\<lambda>_. True)"
  by (rule runsI) (simp add: outcome_err)

lemma runs_guard_err: "runs d B 0 (guard_err b (VmErr e)) (\<lambda>_. \<not> b)"
  by (rule runsI) (simp add: outcome_err)

lemma runs_if: "(b \<Longrightarrow> runs d B k m Q) \<Longrightarrow> (\<not> b \<Longrightarrow> runs d B k m' Q) \<Longrightarrow> runs d B k (if b then m else m') Q"
  by simp

lemma runs_if_bind:
  "(b \<Longrightarrow> runs d B 0 m (\<lambda>_. True)) \<Longrightarrow> (\<not> b \<Longrightarrow> runs d B 0 m' (\<lambda>_. True)) \<Longrightarrow> (\<And>x. runs d B k (f x) R) \<Longrightarrow>
    runs d B k (bind (if b then m else m') f) R"
  by (rule runs_bind0 [where Q = "\<lambda>_. True"]) simp_all

lemma runs_bind_assoc: "runs d B k (bind m (\<lambda>x. bind (f x) g)) Q \<Longrightarrow> runs d B k (bind (bind m f) g) Q"
  by (simp add: bind_assoc)

lemma runs_case_prod: "(\<And>a b. x = (a, b) \<Longrightarrow> runs d B k (f a b) Q) \<Longrightarrow> runs d B k (case x of (a, b) \<Rightarrow> f a b) Q"
  by (cases x) simp

text \<open>Replacing the current frame, and replacing parts of the machine that have no invariant.\<close>

definition alike :: "CallFrame \<Rightarrow> CallFrame \<Rightarrow> bool" where
  "alike c c' \<longleftrightarrow> gas_remaining c' = gas_remaining c \<and> memory c' = memory c \<and>
     state_gas_used_at_entry c' = state_gas_used_at_entry c \<and> frame_state_gas_spilled c' = frame_state_gas_spilled c"

lemma update_frame:
  assumes "okf d vm" "frame_ok (snd d) c" "alike (cf vm) c"
  shows "okf d (vm \<lparr> current_call_frame := c \<rparr>)" "kept vm (vm \<lparr> current_call_frame := c \<rparr>)"
    "phi (vm \<lparr> current_call_frame := c \<rparr>) = phi vm"
  using assms by (simp_all add: okf_def alike_def kept_def phi_def mem_ok_def)

lemma update_db:
  assumes "okf d vm" "db_ok d'"
  shows "okf d (vm \<lparr> db := d' \<rparr>)" "kept vm (vm \<lparr> db := d' \<rparr>)" "phi (vm \<lparr> db := d' \<rparr>) = phi vm"
  using assms by (simp_all add: okf_def kept_def phi_def mem_ok_def)

lemma update_substate [simp]:
  "okf d (vm \<lparr> substate := s \<rparr>) = okf d vm" "kept vm (vm \<lparr> substate := s \<rparr>)" "phi (vm \<lparr> substate := s \<rparr>) = phi vm"
  "ok d (vm \<lparr> substate := s \<rparr>) = ok d vm"
  by (simp_all add: okf_def ok_def kept_def phi_def mem_ok_def)

lemma runs_modify_substate: "runs d B 0 (modify (\<lambda>vm. vm \<lparr> substate := s vm \<rparr>)) (\<lambda>_. True)"
  by (rule runsI) simp

lemma runs_on_substate: "runs d B 0 (on_substate f) (\<lambda>_. True)"
  by (rule runsI) (simp add: on_substate_def split: prod.split)

lemma runs_modify_frame:
  assumes "\<And>c. frame_ok (snd d) c \<Longrightarrow> frame_ok (snd d) (u c)" "\<And>c. alike c (u c)"
  shows "runs d B 0 (modify_frame u) (\<lambda>_. True)"
proof (rule runsI)
  fix vm assume ok: "ok d vm"
  then have "frame_ok (snd d) (cf vm)" by (simp add: ok_def okf_def)
  with ok assms show "outcome d vm 0 (\<lambda>_. True) (modify_frame u vm)"
    using update_frame [OF ok_okf [OF ok], of "u (cf vm)"] by (auto simp: modify_frame_def ok_def alike_def)
qed

text \<open>The stack.\<close>

definition stack_safe :: "(Stack, 'a) action \<Rightarrow> ('a \<Rightarrow> bool) \<Rightarrow> bool" where
  "stack_safe m Q \<longleftrightarrow> (\<forall>s. stack_ok s \<longrightarrow> stack_ok (snd (m s)) \<and>
     (case fst (m s) of Inr x \<Rightarrow> Q x | Inl e \<Rightarrow> \<exists>h. e = halt h))"

lemma runs_on_stack:
  assumes "stack_safe m Q"
  shows "runs d B 0 (on_stack m) Q"
proof (rule runsI)
  fix vm assume ok: "ok d vm"
  obtain r s where m: "m (stack (cf vm)) = (r, s)" by (cases "m (stack (cf vm))")
  from ok have f: "frame_ok (snd d) (cf vm)" and st: "stack_ok (stack (cf vm))" by (simp_all add: ok_def okf_def frame_ok_def)
  from assms st m have s: "stack_ok s" and r: "case r of Inr x \<Rightarrow> Q x | Inl e \<Rightarrow> \<exists>h. e = halt h"
    by (auto simp: stack_safe_def dest!: spec [of _ "stack (cf vm)"])
  from f s have "frame_ok (snd d) ((cf vm) \<lparr> stack := s \<rparr>)" by (simp add: frame_ok_def)
  from update_frame [OF ok_okf [OF ok] this] ok show "outcome d vm 0 Q (on_stack m vm)"
    using r by (cases r) (auto simp: on_stack_eq m ok_def alike_def)
qed

lemma stack_safe_push [simp]: "stack_safe (push v) (\<lambda>_. True)"
  by (auto simp: stack_safe_def push_def stack_ok_def split: option.split)

lemma stack_safe_push_zero [simp]: "stack_safe push_zero (\<lambda>_. True)"
  by (simp add: push_zero_push)

lemma stack_safe_pop: "n \<le> STACK_LIMIT \<Longrightarrow> stack_safe (pop n) (\<lambda>xs. length xs = n)"
  by (auto simp: stack_safe_def pop_def stack_ok_def wrapping_add_def STACK_LIMIT_def)

lemma stack_safe_pop1 [simp]: "stack_safe pop1 (\<lambda>_. True)"
  by (auto simp: stack_safe_def pop1_def stack_ok_def wrapping_add_def STACK_LIMIT_def)

lemma stack_safe_top_mut [simp]: "stack_safe (top_mut f) (\<lambda>_. True)"
  by (auto simp: stack_safe_def top_mut_def stack_ok_def)

lemma stack_safe_binop [simp]: "stack_safe (pop1_and_top_mut f) (\<lambda>_. True)"
  by (auto simp: stack_safe_def pop1_and_top_mut_def bind_def pop1_def top_mut_def stack_ok_def wrapping_add_def
      STACK_LIMIT_def)

lemma stack_safe_dup [simp]: "stack_safe (dup n) (\<lambda>_. True)"
  by (auto simp: stack_safe_def dup_def stack_ok_def Let_def split: option.split)

lemma stack_safe_swap [simp]: "stack_safe (stack_swap n) (\<lambda>_. True)"
  by (auto simp: stack_safe_def stack_swap_def stack_ok_def Let_def)

lemma stack_safe_swap_unchecked:
  "i < STACK_LIMIT \<Longrightarrow> j < STACK_LIMIT \<Longrightarrow> i \<noteq> j \<Longrightarrow> stack_safe (swap_unchecked i j) (\<lambda>_. True)"
  by (auto simp: stack_safe_def swap_unchecked_def stack_ok_def)

text \<open>The memory.\<close>

definition mem_safe :: "(mem_state, 'a) action \<Rightarrow> ('a \<Rightarrow> bool) \<Rightarrow> bool" where
  "mem_safe m Q \<longleftrightarrow> (\<forall>pre x buf mem. mem_rel pre x (buf, mem) \<longrightarrow> length x \<le> 2 ^ 34 \<longrightarrow> length pre + 2 ^ 34 \<le> 2 ^ 62 \<longrightarrow>
     (\<exists>r y s. m (buf, mem) = (Inr r, s) \<and> Q r \<and> mem_rel pre y s \<and> length y \<le> 2 ^ 34 \<and>
        length (fst s) \<le> max (length buf) (length pre + 2 ^ 34)))"

lemma mem_safeI:
  assumes "\<And>pre x buf mem. mem_rel pre x (buf, mem) \<Longrightarrow> length pre + n + 96 \<le> 2 ^ 63 \<Longrightarrow>
      \<exists>s. m (buf, mem) = (Inr (r x), s) \<and> mem_rel pre (y x) s \<and> grown pre buf n (fst s)"
    and "n \<le> 2 ^ 33 + 64"
    and "\<And>x. length x \<le> 2 ^ 34 \<Longrightarrow> length (y x) \<le> 2 ^ 34" "\<And>x. length x \<le> 2 ^ 34 \<Longrightarrow> Q (r x)"
  shows "mem_safe m Q"
  unfolding mem_safe_def
proof (intro allI impI)
  fix pre x buf mem
  assume rel: "mem_rel pre x (buf, mem)" and x: "length x \<le> 2 ^ 34" and pre: "length pre + 2 ^ 34 \<le> 2 ^ 62"
  have "length pre + n + 96 \<le> 2 ^ 63" using pre assms(2) by simp
  from assms(1) [OF rel this] obtain s where s: "m (buf, mem) = (Inr (r x), s)" "mem_rel pre (y x) s"
    "grown pre buf n (fst s)" by blast
  moreover have "max (length buf) (length pre + n + 96) \<le> max (length buf) (length pre + 2 ^ 34)"
    using assms(2) by simp
  ultimately show "\<exists>r y s. m (buf, mem) = (Inr r, s) \<and> Q r \<and> mem_rel pre y s \<and> length y \<le> 2 ^ 34 \<and>
      length (fst s) \<le> max (length buf) (length pre + 2 ^ 34)"
    using order_trans assms(3,4) [OF x] by blast
qed

lemma next_multiple_32_le: "n \<le> 2 ^ 33 + 64 \<Longrightarrow> next_multiple_of n 32 \<le> 2 ^ 34"
  using next_multiple_of_less [of 32 n] by simp

lemma length_m_load:
  "length x \<le> 2 ^ 34 \<Longrightarrow> off + sz \<le> 2 ^ 33 + 64 \<Longrightarrow> length (snd (m_load off sz x)) \<le> 2 ^ 34 \<and> length (fst (m_load off sz x)) = sz"
  using m_expand_ge [of "off + sz" x] next_multiple_32_le [of "off + sz"]
  by (simp add: m_load_def length_m_expand Let_def)

lemma length_m_store:
  "length x \<le> 2 ^ 34 \<Longrightarrow> off + length data \<le> 2 ^ 33 + 64 \<Longrightarrow> length (m_store off data x) \<le> 2 ^ 34"
  using m_expand_ge [of "off + length data" x] next_multiple_32_le [of "off + length data"]
  by (simp add: m_store_def length_m_expand)

lemma length_m_copy:
  assumes "length x \<le> 2 ^ 34" "max to' from + sz \<le> 2 ^ 33 + 64"
  shows "length (m_copy from to' sz x) \<le> 2 ^ 34"
proof (cases "sz = 0")
  case False
  let ?ys = "m_expand (max to' from + sz) x"
  have ge: "max to' from + sz \<le> length ?ys" and le: "length ?ys \<le> 2 ^ 34"
    using m_expand_ge [of "max to' from + sz" x] assms next_multiple_32_le [OF assms(2)]
    by (simp_all add: length_m_expand)
  have "length (slice_range from (from + sz) ?ys) = sz" using ge by simp
  then have "length (overwrite to' (slice_range from (from + sz) ?ys) ?ys) = length ?ys" using ge by simp
  with le False show ?thesis by (simp add: m_copy_def Let_def)
qed (use assms in \<open>simp add: m_copy_def\<close>)

lemmas mem_lengths = length_m_load [simplified] length_m_store [simplified] length_m_copy [simplified]
  next_multiple_32_le [simplified]

lemma mem_safe_with_range: "off + sz \<le> 2 ^ 33 + 64 \<Longrightarrow> mem_safe (with_range off sz f) (\<lambda>_. True)"
  by (rule mem_safeI, erule with_range_refines) (simp_all add: mem_lengths)

lemma mem_safe_load_range: "off + sz \<le> 2 ^ 33 + 64 \<Longrightarrow> mem_safe (load_range off sz) (\<lambda>r. length r = sz)"
  unfolding load_range_with_range
  by (rule mem_safeI, erule with_range_refines) (simp_all add: mem_lengths)

lemma mem_safe_load_word: "off \<le> 2 ^ 33 \<Longrightarrow> mem_safe (load_word off) (\<lambda>_. True)"
  by (rule mem_safeI, erule load_word_refines) (simp_all add: mem_lengths)

lemma mem_safe_store_word: "off \<le> 2 ^ 33 \<Longrightarrow> mem_safe (store_word off w) (\<lambda>_. True)"
  by (rule mem_safeI, erule store_word_refines) (simp_all add: mem_lengths)

lemma mem_safe_store_data: "off + length data \<le> 2 ^ 33 + 64 \<Longrightarrow> mem_safe (store_data off data) (\<lambda>_. True)"
  by (rule mem_safeI, erule store_data_refines) (simp_all add: mem_lengths)

lemma mem_safe_store_zeros: "off + sz \<le> 2 ^ 33 + 64 \<Longrightarrow> mem_safe (store_zeros off sz) (\<lambda>_. True)"
  by (rule mem_safeI, erule store_zeros_refines) (simp_all add: mem_lengths)

lemma mem_safe_copy_within: "max to' from + sz \<le> 2 ^ 33 + 64 \<Longrightarrow> mem_safe (copy_within from to' sz) (\<lambda>_. True)"
  by (rule mem_safeI, erule copy_within_refines) (simp_all add: mem_lengths)

lemma mem_safe_resize: "n \<le> 2 ^ 33 + 64 \<Longrightarrow> mem_safe (resize n) (\<lambda>_. True)"
  by (rule mem_safeI, erule resize_refines) (simp_all add: length_m_expand mem_lengths)

lemma runs_on_memory:
  assumes "mem_safe m Q"
  shows "runs d B 0 (on_memory m) Q"
proof (rule runsI)
  fix vm assume ok: "ok d vm"
  then obtain x xs where rel: "frames_rel (mem_buffer vm, memory (cf vm), map memory (rev (call_frames vm))) (x, xs)"
    and len: "length x \<le> 2 ^ 34" "\<forall>y \<in> set xs. length y \<le> 2 ^ 34" and b: "length (mem_buffer vm) \<le> 2 ^ 62"
    "current_base (memory (cf vm)) + 2 ^ 34 \<le> 2 ^ 62" by (auto simp: ok_def okf_def mem_ok_def)
  from rel obtain pre where pre: "mem_rel pre x (mem_buffer vm, memory (cf vm))"
    and par: "parents_rel pre (map memory (rev (call_frames vm))) xs" by (auto simp: frames_rel_def)
  from pre have base: "current_base (memory (cf vm)) = length pre" by (auto elim: mem_relE)
  with assms pre len b obtain r y buf' m' where m: "m (mem_buffer vm, memory (cf vm)) = (Inr r, buf', m')" and r: "Q r"
    and y: "mem_rel pre y (buf', m')" "length y \<le> 2 ^ 34" "length buf' \<le> max (length (mem_buffer vm)) (length pre + 2 ^ 34)"
    unfolding mem_safe_def by (metis prod.collapse)
  have base': "current_base m' = length pre" using y(1) by (auto elim: mem_relE)
  let ?vm = "vm \<lparr> mem_buffer := buf', current_call_frame := (cf vm) \<lparr> memory := m' \<rparr> \<rparr>"
  have "mem_ok ?vm" unfolding mem_ok_def
  proof (intro conjI exI)
    show "frames_rel (mem_buffer ?vm, memory (cf ?vm), map memory (rev (call_frames ?vm))) (y, xs)"
      using frames_relI [OF y(1) par] by simp
  qed (use y len b base base' in \<open>simp_all\<close>)
  moreover from ok have "frame_ok (snd d) (cf ?vm)" by (simp add: ok_def okf_def frame_ok_def)
  ultimately have "ok d ?vm" using ok by (simp add: ok_def okf_def)
  moreover have "kept vm ?vm" using y(3) by (simp add: kept_def base base')
  moreover have "phi ?vm = phi vm" by (simp add: phi_def)
  ultimately show "outcome d vm 0 Q (on_memory m vm)" by (simp add: on_memory_def zoom_def m r)
qed

lemma mem_len_le: "ok d vm \<Longrightarrow> mem_len (memory (cf vm)) \<le> 2 ^ 34"
  by (auto simp: ok_def okf_def mem_ok_def frames_rel_def elim: mem_relE)

text \<open>The database.\<close>

definition db_safe :: "(GeneralizedDatabase, 'a) action \<Rightarrow> ('a \<Rightarrow> bool) \<Rightarrow> bool" where
  "db_safe m Q \<longleftrightarrow> (\<forall>d. db_ok d \<longrightarrow> db_ok (snd (m d)) \<and>
     (case fst (m d) of Inr x \<Rightarrow> Q x | Inl e \<Rightarrow> \<exists>i. e = internal i))"

lemma db_safe_bind:
  assumes "db_safe m Q" "\<And>x. Q x \<Longrightarrow> db_safe (f x) R"
  shows "db_safe (bind m f) R"
  unfolding db_safe_def
proof (intro allI impI)
  fix d assume "db_ok d"
  obtain r d' where m: "m d = (r, d')" by (cases "m d")
  with assms \<open>db_ok d\<close> show "db_ok (snd (bind m f d)) \<and> (case fst (bind m f d) of Inr x \<Rightarrow> R x | Inl e \<Rightarrow> \<exists>i. e = internal i)"
    by (cases r) (auto simp: db_safe_def bind_def dest!: spec [of _ d])
qed

lemma db_safe_ret: "Q x \<Longrightarrow> db_safe (ret x) Q"
  by (simp add: db_safe_def)

lemma from_store_Inl: "from_store r = Inl e \<Longrightarrow> \<exists>i. e = internal i"
  by (cases r) (auto simp: from_store_def)

lemma from_store_cases: "case from_store r of Inl e \<Rightarrow> \<exists>i. e = internal i | Inr x \<Rightarrow> r = Inr x"
  by (cases r) (simp_all add: from_store_def)

lemma db_safe_load_account [simp]: "db_safe (get_account a) (\<lambda>_. True)"
  unfolding db_safe_def
proof (intro allI impI)
  fix d assume d: "db_ok d"
  from from_store_cases [of "get_account_state (GeneralizedDatabase.store d) a"] d
  show "db_ok (snd (get_account a d)) \<and> (case fst (get_account a d) of Inr x \<Rightarrow> True | Inl e \<Rightarrow> \<exists>i. e = internal i)"
    by (auto simp: get_account_def load_account_def Let_def db_ok_def cache_account_def track_initial_def
        split: option.split sum.split)
qed

lemma db_safe_modify_account [simp]: "db_safe (modify (cache_account a acc)) (\<lambda>_. True)"
  by (simp add: db_safe_def db_ok_def cache_account_def)

lemma db_safe_get_account_mut [simp]: "db_safe (db_get_account_mut a upd) (\<lambda>_. True)"
  unfolding db_get_account_mut_def get_account_def [symmetric] Let_def
  by (rule db_safe_bind [OF db_safe_load_account], rule db_safe_bind [OF db_safe_modify_account], simp add: db_safe_ret)

lemma db_safe_get_code [simp]: "db_safe (get_code h) code_wf"
  unfolding db_safe_def
proof (intro allI impI)
  fix d assume d: "db_ok d"
  from from_store_cases [of "store_account_code (GeneralizedDatabase.store d) h"] d
  show "db_ok (snd (get_code h d)) \<and> (case fst (get_code h d) of Inr x \<Rightarrow> code_wf x | Inl e \<Rightarrow> \<exists>i. e = internal i)"
    by (auto simp: get_code_def db_ok_def split: option.split sum.split)
qed

lemma db_safe_get_account_code [simp]: "db_safe (get_account_code a) code_wf"
  unfolding get_account_code_def by (rule db_safe_bind [OF db_safe_load_account]) simp

lemma db_safe_get_code_length [simp]: "db_safe (get_code_length a) (\<lambda>_. True)"
proof -
  have "db_safe (get_code_metadata h) (\<lambda>_. True)" for h
    by (auto simp: db_safe_def get_code_metadata_def db_ok_def split: option.split sum.split dest: from_store_Inl)
  then show ?thesis
    unfolding get_code_length_def by (intro db_safe_bind [OF db_safe_load_account]) (simp add: db_safe_ret)
qed

lemma db_safe_restore_cache_state [simp]: "db_safe (restore_cache_state b) (\<lambda>_. True)"
  by (auto simp: db_safe_def restore_cache_state_def db_ok_def Let_def split: if_splits)

lemma runs_on_db:
  assumes "db_safe m Q"
  shows "runs d B 0 (on_db m) Q"
proof (rule runsI)
  fix vm assume ok: "ok d vm"
  obtain r d' where m: "m (db vm) = (r, d')" by (cases "m (db vm)")
  from ok have "db_ok (db vm)" by (simp add: ok_def okf_def)
  with assms m have "db_ok d'" "case r of Inr x \<Rightarrow> Q x | Inl e \<Rightarrow> \<exists>i. e = internal i"
    by (auto simp: db_safe_def dest!: spec [of _ "db vm"])
  with ok show "outcome d vm 0 Q (on_db m vm)"
    using update_db [OF ok_okf [OF ok], of d'] by (cases r) (auto simp: on_db_def zoom_def m ok_def)
qed

section \<open>Accounts\<close>

lemma runs_backup: "runs d B 0 (modify_frame (\<lambda>f. f \<lparr> call_frame_backup := b f \<rparr>)) (\<lambda>_. True)"
  by (rule runs_modify_frame) (simp_all add: frame_ok_def alike_def)

lemma runs_return_data: "runs d B 0 (modify_frame (\<lambda>f. f \<lparr> sub_return_data := b \<rparr>)) (\<lambda>_. True)"
  by (rule runs_modify_frame) (simp_all add: frame_ok_def alike_def)

lemma runs_get_account: "runs d B 0 (on_db (get_account a)) (\<lambda>_. True)"
  by (rule runs_on_db) simp

lemma runs_get_account_mut: "runs d B 0 (get_account_mut a upd) (\<lambda>_. True)"
  unfolding get_account_mut_def
  by (rule runs_bind0 [OF runs_get_account], rule runs_bind0 [OF runs_backup], rule runs_on_db, simp)

lemma runs_put_account: "runs d B 0 (on_db (modify (cache_account a acc))) (\<lambda>_. True)"
  by (rule runs_on_db) simp

lemma runs_increase_account_balance: "runs d B 0 (increase_account_balance a v) (\<lambda>_. True)"
  unfolding increase_account_balance_def put_balance_def
  by (rule runs_if, simp add: runs_ret, rule runs_bind0 [OF runs_get_account_mut],
      rule runs_bind0 [OF runs_lift_result], simp, rule runs_put_account)

lemma runs_decrease_account_balance: "runs d B 0 (decrease_account_balance a v) (\<lambda>_. True)"
  unfolding decrease_account_balance_def put_balance_def
  by (rule runs_if, simp add: runs_ret, rule runs_bind0 [OF runs_get_account_mut],
      rule runs_bind0 [OF runs_lift_result], simp, rule runs_put_account)

lemma runs_transfer: "runs d B 0 (transfer from to' v) (\<lambda>_. True)"
  unfolding transfer_def
  by (rule runs_if, rule runs_bind0 [OF runs_decrease_account_balance], rule runs_increase_account_balance,
      simp add: runs_ret)

lemma runs_increment_account_nonce: "runs d B 0 (increment_account_nonce a) (\<lambda>_. True)"
  unfolding increment_account_nonce_def
  by (rule runs_bind0 [OF runs_get_account_mut], rule runs_bind0 [OF runs_lift_result], simp,
      rule runs_bind0 [OF runs_put_account], simp add: runs_ret)

lemma runs_get_storage_value: "runs d B 0 (get_storage_value a k) (\<lambda>_. True)"
proof -
  have c: "db_safe (cache_slot a k v) (\<lambda>_. True)" for v
    by (auto simp: db_safe_def cache_slot_def cache_account_def db_ok_def split: option.split)
  have v: "db_safe (get_value_from_database a k) (\<lambda>_. True)"
    by (auto simp: db_safe_def get_value_from_database_def db_ok_def split: option.split sum.split dest: from_store_Inl)
  note b = db_safe_bind [OF v c]
  show ?thesis
    unfolding get_storage_value_def
    by (rule runs_on_db) (use b c in \<open>auto simp: db_safe_def split: option.split\<close>)
qed

lemma runs_access_storage_slot: "runs d B 0 (access_storage_slot_for_sstore a k) (\<lambda>_. True)"
proof -
  have "runs d B 0 (\<lambda>vm. (Inr (f vm), vm \<lparr> storage_original_values := g vm \<rparr>)) (\<lambda>_. True)" for f g
    by (rule runsI) (simp add: ok_def okf_def kept_def phi_def mem_ok_def)
  then show ?thesis
    unfolding access_storage_slot_for_sstore_def Let_def
    by (intro runs_bind0 [OF runs_on_substate] runs_bind0 [OF runs_get_storage_value])
qed

lemma runs_update_account_storage: "runs d B 0 (update_account_storage a k v c) (\<lambda>_. True)"
  unfolding update_account_storage_def backup_storage_slot_def
  by (rule runs_bind0 [OF runs_backup], rule runs_bind0 [OF runs_get_account_mut], simp add: runs_ret)

section \<open>Gas\<close>

text \<open>A machine in which only the gas counters of the current frame and the state gas differ.\<close>

definition regassed :: "VM \<Rightarrow> VM \<Rightarrow> bool" where
  "regassed vm vm' \<longleftrightarrow> vm' = vm \<lparr> current_call_frame := (cf vm) \<lparr> gas_remaining := gas_remaining (cf vm'),
       frame_state_gas_spilled := frame_state_gas_spilled (cf vm') \<rparr>,
     state_gas_used := state_gas_used vm', state_gas_reservoir := state_gas_reservoir vm',
     state_gas_spill := state_gas_spill vm' \<rparr>"

lemma regas:
  assumes vm': "regassed vm vm'" and okf: "okf d vm"
    and gas: "- (2 ^ 63) \<le> gas_remaining (cf vm')" "gas_remaining (cf vm') < 2 ^ 63"
    and t: "owed vm' - int (frame_state_gas_spilled (cf vm')) = owed vm - int (frame_state_gas_spilled (cf vm))"
  shows "okf d vm'" "kept vm vm'"
    "phi vm' = phi vm + max 0 (gas_remaining (cf vm')) - max 0 (gas_remaining (cf vm)) + owed vm' - owed vm"
proof -
  obtain g s u r p where e: "vm' = vm \<lparr> current_call_frame := (cf vm) \<lparr> gas_remaining := g,
      frame_state_gas_spilled := s \<rparr>, state_gas_used := u, state_gas_reservoir := r, state_gas_spill := p \<rparr>"
    by (rule that [OF vm' [unfolded regassed_def]])
  have l: "owed vm' - int (fst d) - int s = owed vm - int (fst d) - int (frame_state_gas_spilled (cf vm))" using t by (simp add: e)
  have "ledger (owed vm' - int (fst d) - int s) (rev (call_frames vm))" unfolding l using okf by (simp add: okf_def)
  moreover have "state_gas_used_at_entry (cf vm) \<le> owed vm' - int (fst d) - int s" unfolding l using okf by (simp add: okf_def)
  ultimately show "okf d vm'" using okf gas by (simp add: e okf_def frame_ok_def mem_ok_def)
  show "kept vm vm'" by (simp add: e kept_def)
  show "phi vm' = phi vm + max 0 (gas_remaining (cf vm')) - max 0 (gas_remaining (cf vm)) + owed vm' - owed vm"
    by (simp add: e phi_def)
qed

lemma ledger_nonneg: "ledger t fs \<Longrightarrow> 0 \<le> t"
  by (induction fs arbitrary: t) fastforce+

lemma gas_le_phi:
  assumes "okf d vm"
  shows "gas_remaining (cf vm) \<le> phi vm" "0 \<le> phi vm"
proof -
  have "0 \<le> sum_list (map (\<lambda>f. max 0 (gas_remaining f)) (rev (call_frames vm)))"
    by (rule sum_list_nonneg) auto
  moreover have "ledger (owed vm - int (fst d)) (frames_of vm)" using assms by (simp only: okf_def)
  from ledger_nonneg [OF this] have "0 \<le> owed vm" by simp
  ultimately show "gas_remaining (cf vm) \<le> phi vm" "0 \<le> phi vm" by (simp_all add: phi_def)
qed

lemma gas_range: "ok d vm \<Longrightarrow> 0 \<le> gas_remaining (cf vm) \<and> gas_remaining (cf vm) < 2 ^ 63"
  by (simp add: ok_def okf_def frame_ok_def)

lemma runs_increase_consumed_gas:
  assumes "k \<le> int g" "g < 2 ^ 63"
  shows "runs d B k (on_frame (increase_consumed_gas g)) (\<lambda>_. True)"
proof (rule runsI)
  fix vm assume ok: "ok d vm"
  note range = gas_range [OF ok]
  let ?vm = "put_gas_remaining (gas_remaining (cf vm) - int g) vm"
  have "wrap_i64 (int g) = int g" "wrap_i64 (gas_remaining (cf vm) - int g) = gas_remaining (cf vm) - int g"
    using assms(2) range by (simp_all add: wrap_i64_id)
  then have e: "on_frame (increase_consumed_gas g) vm =
      (if gas_remaining (cf vm) < int g then Inl (halt OutOfGas) else Inr (), ?vm)"
    by (simp add: on_frame_def zoom_def increase_consumed_gas_def Let_def)
  have r: "okf d ?vm" "kept vm ?vm" "phi ?vm = phi vm + max 0 (gas_remaining (cf vm) - int g) - gas_remaining (cf vm)"
    using regas [of vm ?vm d] ok_okf [OF ok] range assms(2) by (simp_all add: regassed_def)
  show "outcome d vm k (\<lambda>_. True) (on_frame (increase_consumed_gas g) vm)"
    using r range assms(1) by (auto simp: e ok_def)
qed

lemma runs_charge:
  assumes "sound c" "\<And>g. c = Inr g \<Longrightarrow> k \<le> int g \<and> g < 2 ^ 63"
  shows "runs d B k (charge c) (\<lambda>_. True)"
  unfolding charge_def
  by (rule runs_bind0 [OF runs_lift_result [OF assms(1)]], rule runs_increase_consumed_gas) (use assms(2) in auto)

lemma runs_charge_with:
  assumes "\<And>n. n \<le> 2 ^ 34 \<Longrightarrow> sound (c n)" "\<And>n g. n \<le> 2 ^ 34 \<Longrightarrow> c n = Inr g \<Longrightarrow> k \<le> int g \<and> g < 2 ^ 63"
  shows "runs d B k (charge_with c) (\<lambda>_. True)"
  unfolding charge_with_def
  by (rule runs_bind0 [OF runs_gets [where Q = "\<lambda>n. n \<le> 2 ^ 34"]])
    (use assms mem_len_le in \<open>auto intro!: runs_charge\<close>)

section \<open>State gas\<close>

lemmas state_gas_eval = bind_def try_update_def checked_i64_def try_i64_def return_gas_def Let_def

lemma outcome_regas:
  assumes "ok d vm" "regassed vm vm'" "0 \<le> gas_remaining (cf vm')" "gas_remaining (cf vm') < 2 ^ 63"
    "owed vm' - int (frame_state_gas_spilled (cf vm')) = owed vm - int (frame_state_gas_spilled (cf vm))"
    "gas_remaining (cf vm') + owed vm' = gas_remaining (cf vm) + owed vm"
  shows "outcome d vm 0 (\<lambda>_. True) (Inr (), vm')"
  using regas [OF assms(2) ok_okf [OF assms(1)] _ assms(4,5)] assms by (simp add: ok_def)

lemma runs_increase_state_gas:
  assumes "gas < 2 ^ 62"
  shows "runs d B 0 (increase_state_gas gas) (\<lambda>_. True)"
proof (rule runsI)
  fix vm assume ok: "ok d vm"
  note range = gas_range [OF ok]
  define spill where "spill = gas - min (state_gas_reservoir vm) gas"
  have spill: "spill < 2 ^ 62" using assms by (simp add: spill_def)
  let ?vm = "put_gas_remaining (gas_remaining (cf vm) - int spill) vm"
  define pay where "pay = (if spill > 0 then on_frame (increase_consumed_gas spill) else ret ())"
  have c: "pay vm = (if gas_remaining (cf vm) < int spill then Inl (halt OutOfGas) else Inr (), ?vm)"
    using spill range by (simp add: pay_def on_frame_def zoom_def increase_consumed_gas_def Let_def wrap_i64_id)
  obtain rest where rest: "increase_state_gas gas vm = bind pay rest vm"
    and rest_def: "rest = (\<lambda>_.
     bind (modify (\<lambda>v. put_reservoir (state_gas_reservoir v - min (state_gas_reservoir vm) gas) v)) (\<lambda>_.
     bind (lift_result (ok_or (try_i64 gas) (internal Overflow))) (\<lambda>g.
     bind (try_update (\<lambda>vm. checked_i64 (state_gas_used vm + g)) put_state_gas_used Overflow) (\<lambda>_.
     bind (try_update (\<lambda>vm. checked_add (state_gas_spill vm) spill) put_state_gas_spill Overflow) (\<lambda>_.
     try_update (\<lambda>vm. checked_add (frame_state_gas_spilled (cf vm)) spill) put_frame_spill Overflow)))))"
    by (rule that [OF _ refl]) (simp only: increase_state_gas_def bind_gets Let_def spill_def pay_def)
  show "outcome d vm 0 (\<lambda>_. True) (increase_state_gas gas vm)"
  proof (cases "gas_remaining (cf vm) < int spill")
    case True
    have "okf d ?vm" "kept vm ?vm" "phi ?vm = phi vm + max 0 (gas_remaining (cf vm) - int spill) - gas_remaining (cf vm)"
      using regas [of vm ?vm d] ok_okf [OF ok] range spill by (simp_all add: regassed_def)
    then show ?thesis using True range by (simp add: rest bind_def c)
  next
    case False
    then show ?thesis using c range ok
      by (auto simp: rest rest_def c state_gas_eval spill_def regassed_def simp del: outcome_Inr
          intro!: outcome_regas split: option.splits)
  qed
qed

lemma runs_credit_state_gas_refund: "runs d B 0 (credit_state_gas_refund amount) (\<lambda>_. True)"
proof (rule runsI)
  fix vm assume ok: "ok d vm"
  note range = gas_range [OF ok]
  define n where "n = min (frame_state_gas_spilled (cf vm)) amount"
  have n: "n \<le> frame_state_gas_spilled (cf vm)" "n \<le> amount" by (simp_all add: n_def)
  show "outcome d vm 0 (\<lambda>_. True) (credit_state_gas_refund amount vm)"
    using range ok n
    by (auto simp: credit_state_gas_refund_def n_def [symmetric] state_gas_eval regassed_def simp del: outcome_Inr
        intro!: outcome_regas split: option.splits)
qed

lemma runs_refund_new_account_state_gas: "runs d B 0 (refund_new_account_state_gas b) (\<lambda>_. True)"
  unfolding refund_new_account_state_gas_def
  by (rule runs_if, rule runs_bind0 [OF runs_gets [where Q = "\<lambda>_. True"]])
    (simp_all add: runs_credit_state_gas_refund runs_ret)

lemma runs_repay_state_gas_spill: "runs d B 0 repay_state_gas_spill (\<lambda>_. True)"
proof (rule runsI)
  fix vm assume ok: "ok d vm"
  note range = gas_range [OF ok]
  define n where "n = min (state_gas_reservoir vm) (frame_state_gas_spilled (cf vm))"
  have n: "n \<le> frame_state_gas_spilled (cf vm)" "n \<le> state_gas_reservoir vm" by (simp_all add: n_def)
  show "outcome d vm 0 (\<lambda>_. True) (repay_state_gas_spill vm)"
  proof (cases "n = 0")
    case True
    with ok show ?thesis by (simp add: repay_state_gas_spill_def n_def [symmetric])
  next
    case False
    with range ok n show ?thesis
      by (auto simp: repay_state_gas_spill_def n_def [symmetric] state_gas_eval regassed_def simp del: outcome_Inr
          intro!: outcome_regas split: option.splits)
  qed
qed

text \<open>
  A failing frame gives its state gas back.  The reservoir then holds what it held when the frame was entered, by the
  balance: the clamp at zero in the code is never needed.
\<close>

lemma refill_exact:
  assumes "okf (0, p) vm" "refill_frame_state_gas (state_gas_used_at_entry (cf vm)) vm = (Inr x, vm')"
  shows "regassed vm vm'" "gas_remaining (cf vm') = gas_remaining (cf vm) + int (frame_state_gas_spilled (cf vm))"
    "frame_state_gas_spilled (cf vm') = 0" "state_gas_used vm' = state_gas_used_at_entry (cf vm)"
    "owed vm' = owed vm - int (frame_state_gas_spilled (cf vm))" "gas_remaining (cf vm') < 2 ^ 63"
proof -
  let ?S = "int (frame_state_gas_spilled (cf vm))" and ?E = "state_gas_used_at_entry (cf vm)"
  have e: "?E \<le> owed vm - ?S" using assms(1) by (simp add: okf_def)
  have r: "vm' = put_frame_spill 0 (put_state_gas_spill (state_gas_spill vm - frame_state_gas_spilled (cf vm))
      (put_state_gas_used ?E (put_reservoir (nat (owed vm - ?E - ?S))
        (put_gas_remaining (gas_remaining (cf vm) + ?S) vm)))) \<and> gas_remaining (cf vm) + ?S < 2 ^ 63"
    using assms(2) e
    by (auto simp: refill_frame_state_gas_def state_gas_eval algebra_simps max_def split: option.splits if_splits)
  show "regassed vm vm'" "gas_remaining (cf vm') = gas_remaining (cf vm) + ?S" "frame_state_gas_spilled (cf vm') = 0"
    "state_gas_used vm' = ?E" "owed vm' = owed vm - ?S" "gas_remaining (cf vm') < 2 ^ 63"
    using r e by (simp_all add: regassed_def)
qed

lemma refill_sound: "sound (fst (refill_frame_state_gas e vm))"
  by (simp add: refill_frame_state_gas_def state_gas_eval split: option.split)

end
