(* ===== verification/Evm_Safe_Handlers.thy ===== *)
theory Evm_Safe_Handlers
  imports Evm_Safety
begin

text \<open>
  The opcode handlers inside a frame keep the machine well formed, cost at least one unit of gas unless they end the
  frame, and raise no error but those of the code.
\<close>

section \<open>Costs\<close>

text \<open>A cost that can be computed, is positive and fits the signed gas counter.\<close>

definition fair :: "vm_fail + nat \<Rightarrow> bool" where
  "fair c \<longleftrightarrow> (\<exists>g. c = Inr g \<and> 1 \<le> g \<and> g < 2 ^ 62)"

lemma fair_Inr [simp]: "fair (Inr g) \<longleftrightarrow> 1 \<le> g \<and> g < 2 ^ 62"
  by (simp add: fair_def)

lemma grow_bound: "n \<le> 2 ^ 34 \<Longrightarrow> c \<le> 2 ^ 34 \<Longrightarrow> grow n c < 2 ^ 50"
  using spec_cost_bound [of n] by (simp add: grow_def)

lemma fair_copy_behavior:
  assumes "n \<le> 2 ^ 34" "c \<le> 2 ^ 34" "sz \<le> 2 ^ 34" "dyn \<le> 100" "st \<le> 1000" "1 \<le> st"
  shows "fair (copy_behavior n c sz dyn st)"
proof -
  have "dyn * words sz \<le> 100 * 2 ^ 30" using words_le [OF assms(3)] assms(4) by (intro mult_le_mono) simp_all
  then show ?thesis using copy_behavior_exact [OF assms(1-5)] grow_bound [OF assms(1,2)] assms(5,6) by simp
qed

lemmas copy_costs = gas_calldatacopy_def gas_codecopy_def gas_returndatacopy_def gas_keccak256_def

lemma fair_copies:
  assumes "n \<le> 2 ^ 34" "c \<le> 2 ^ 34" "sz < 2 ^ 32"
  shows "fair (gas_calldatacopy n c sz)" "fair (gas_codecopy n c sz)" "fair (gas_returndatacopy n c sz)"
    "fair (gas_keccak256 n c sz)"
  using assms by (simp_all add: copy_costs fair_copy_behavior)

lemma fair_mload:
  assumes "n \<le> 2 ^ 34" "c \<le> 2 ^ 34"
  shows "fair (gas_mload n c)" "fair (gas_mstore n c)" "fair (gas_mstore8 n c)"
  using grow_bound [OF assms] expansion_grow(1) [OF assms]
  by (simp_all add: gas_mload_def gas_mstore_def gas_mstore8_def mem_expansion_behavior_def checked_small)

lemma fair_mcopy:
  assumes "n \<le> 2 ^ 34" "c \<le> 2 ^ 34" "sz < 2 ^ 32"
  shows "fair (gas_mcopy n c sz)"
  using fair_copy_behavior [OF assms(1,2), of sz 3 3] assms(3)
  by (simp add: gas_mcopy_def copy_behavior_def)

lemma fair_log:
  assumes "n \<le> 2 ^ 34" "c \<le> 2 ^ 34" "sz < 2 ^ 32" "t \<le> 4"
  shows "fair (gas_log n c sz t)"
  using log_exact [OF assms(1,2) _ assms(4), of sz] grow_bound [OF assms(1,2)] assms(3,4) by simp

lemma fair_create:
  assumes "n \<le> 2 ^ 34" "c \<le> 2 ^ 34" "sz < 2 ^ 32"
  shows "fair (gas_create n c sz f)" "fair (gas_create_2 n c sz f)"
  using create_exact [OF assms(1,2), of sz] grow_bound [OF assms(1,2)] words_le [of sz] assms(3)
  by (auto simp: gas_create_def gas_create_2_def)

lemma fair_access:
  "fair (gas_balance cold f)" "fair (gas_extcodesize cold f)" "fair (gas_extcodehash cold f)" "fair (gas_sload cold f)"
  using access_cost_le [of f]
  by (auto simp: gas_balance_def gas_extcodesize_def gas_extcodehash_def gas_sload_def address_access_exact access_def
      checked_small cold_account_access_cost_def cold_storage_access_cost_def)

lemma fair_extcodecopy:
  assumes "n \<le> 2 ^ 34" "c \<le> 2 ^ 34" "sz < 2 ^ 32"
  shows "fair (gas_extcodecopy sz n c cold f)"
proof -
  have "3 * words sz \<le> 3 * 2 ^ 30" using words_le [of sz] assms(3) by simp
  then show ?thesis
    using copy_behavior_exact [OF assms(1,2), of sz 3 0] grow_bound [OF assms(1,2)] access_cost_le(1) [of f] assms(3)
    by (auto simp: gas_extcodecopy_def address_access_exact access_def checked_small cold_account_access_cost_def)
qed

lemma fair_sstore: "fair (gas_sstore original current new cold f)"
  using access_cost_le(2) [of f] by (auto simp: gas_sstore_def Let_def checked_small cold_storage_access_cost_def)

lemma fair_selfdestruct: "fair (gas_selfdestruct cold e b f)" "fair (selfdestruct_base cold f)"
  using access_cost_le(1) [of f] by (auto simp: gas_selfdestruct_def selfdestruct_base_def Let_def checked_small)

lemma fair_exp: "fair (gas_exp ex)"
proof -
  have "unat ex < 2 ^ 256" using unsigned_less [of ex] by simp
  then have "bit_len (unat ex) \<le> 256" by (rule bit_len_le)
  then show ?thesis by (simp add: gas_exp_def checked_small Let_def)
qed

section \<open>Rules for sequences\<close>

lemma runs_storage_state_gas [frame_rules]:
  "runs d B 0 (bind (gets state_gas_storage_set) increase_state_gas) (\<lambda>_. True)"
  by (rule runs_bind0 [OF runs_gets [where Q = "\<lambda>n. n < 2 ^ 40"]], simp add: ok_def okf_def)
    (rule runs_increase_state_gas, simp)

lemma runs_new_account_state_gas [frame_rules]:
  "runs d B 0 (bind (gets state_gas_new_account) increase_state_gas) (\<lambda>_. True)"
  by (rule runs_bind0 [OF runs_gets [where Q = "\<lambda>n. n < 2 ^ 40"]], simp add: ok_def okf_def)
    (rule runs_increase_state_gas, simp)

lemma seq_gas [frame_rules]:
  assumes "\<And>v. runs d B k (f v) R"
  shows "runs d B k (bind (gets (\<lambda>vm. gas_remaining (cf vm))) (\<lambda>g. bind (lift_result (u256_from_i64 g)) f)) R"
  by (rule runs_bind0 [OF runs_gets [where Q = "\<lambda>g. 0 \<le> g"]], simp add: ok_def)
    (rule runs_bind0 [OF runs_lift_result], simp add: u256_from_i64_def, rule assms)

lemma runs_sstore_gate: "runs d B 0 (sstore_gate a key) (\<lambda>_. True)"
  unfolding sstore_gate_def [abs_def] Let_def by (rule runs_read) (simp_all add: check_gas_def)

lemma runs_add_refund: "runs d B 0 (add_refund delta) (\<lambda>_. True)"
  by (rule runsI) (simp add: add_refund_def split: option.split)

lemma seq_charge1 [frame_rules]:
  "fair c \<Longrightarrow> (\<And>x. runs d B 0 (f x) R) \<Longrightarrow> runs d B 1 (bind (charge c) f) R"
  by (rule runs_bind1 [OF runs_charge]) (auto simp: fair_def)

lemma seq_charge0 [frame_rules]:
  "fair c \<Longrightarrow> (\<And>x. runs d B 0 (f x) R) \<Longrightarrow> runs d B 0 (bind (charge c) f) R"
  by (rule runs_bind0 [OF runs_charge]) (auto simp: fair_def)

lemma seq_charge_with1 [frame_rules]:
  "(\<And>n. n \<le> 2 ^ 34 \<Longrightarrow> fair (c n)) \<Longrightarrow> (\<And>x. runs d B 0 (f x) R) \<Longrightarrow> runs d B 1 (bind (charge_with c) f) R"
  by (rule runs_bind1 [OF runs_charge_with]) (fastforce simp: fair_def)+

lemma seq_exit [frame_rules]:
  "n \<le> 2 ^ 33 + 64 \<Longrightarrow> (\<And>x. runs d B 0 (f x) R) \<Longrightarrow> runs d B 0 (bind (charge_with (gas_exit_opcode n)) f) R"
  using grow_bound [of n] expansion_grow(1) [of n]
  by (intro runs_bind0 [OF runs_charge_with]) (fastforce simp: gas_exit_opcode_def)+

lemma seq_size_offset [frame_rules]:
  assumes "\<And>n k. n < 2 ^ 32 \<Longrightarrow> k < 2 ^ 32 \<Longrightarrow> runs d B c (f (n, k)) R"
  shows "runs d B c (bind (lift_result (size_offset_to_usize s off)) f) R"
proof (rule runs_bind0 [OF runs_lift_result])
  show "sound (size_offset_to_usize s off)"
    by (auto simp: size_offset_to_usize_def u256_to_usize_eq)
  fix x assume "size_offset_to_usize s off = Inr x"
  with assms show "runs d B c (f x) R" using size_offset_to_usize_bound [of s off] by (cases x) fastforce
qed

lemma seq_usize [frame_rules]:
  assumes "\<And>n. n < 2 ^ 32 \<Longrightarrow> runs d B c (f n) R"
  shows "runs d B c (bind (lift_result (u256_to_usize v)) f) R"
  by (rule runs_bind0 [OF runs_lift_result]) (use assms in \<open>auto simp: u256_to_usize_eq split: if_splits\<close>)

lemma seq_memory_size [frame_rules]:
  assumes "off < 2 ^ 32" "sz < 2 ^ 32"
    "\<And>n. n \<le> 2 ^ 33 + 64 \<Longrightarrow> calculate_memory_size off sz = Inr n \<Longrightarrow> runs d B c (f n) R"
  shows "runs d B c (bind (lift_result (calculate_memory_size off sz)) f) R"
proof (rule runs_bind0 [OF runs_lift_result])
  note e = calculate_memory_size_eq(1) [OF assms(1,2)]
  show "sound (calculate_memory_size off sz)" by (simp add: e)
  fix x assume x: "calculate_memory_size off sz = Inr x"
  then have "x \<le> 2 ^ 33 + 64" using e next_multiple_of_less [of 32 "off + sz"] assms(1,2) by (auto split: if_splits)
  then show "runs d B c (f x) R" using assms(3) x by blast
qed

lemmas frame_seq [frame_rules] =
  runs_on_substate [THEN runs_bind0] runs_modify_substate [THEN runs_bind0]
  runs_get_account [THEN runs_bind0] runs_get_account_mut [THEN runs_bind0] runs_transfer [THEN runs_bind0]
  runs_increase_account_balance [THEN runs_bind0] runs_increment_account_nonce [THEN runs_bind0]
  runs_get_storage_value [THEN runs_bind0] runs_access_storage_slot [THEN runs_bind0]
  runs_update_account_storage [THEN runs_bind0] runs_credit_state_gas_refund [THEN runs_bind0]
  runs_refund_new_account_state_gas [THEN runs_bind0] runs_guard [THEN runs_bind0]
  runs_return_data [THEN runs_bind0] runs_add_refund [THEN runs_bind0] runs_sstore_gate [THEN runs_bind0]
  runs_if_bind runs_bind_assoc

lemmas frame_last [frame_rules] = runs_modify_substate runs_transfer runs_increase_account_balance
  runs_update_account_storage runs_credit_state_gas_refund runs_refund_new_account_state_gas runs_add_refund runs_sstore_gate
  runs_if runs_err

lemma seq_on_stack [frame_rules]:
  "stack_safe m (\<lambda>_. True) \<Longrightarrow> (\<And>x. runs d B k (f x) R) \<Longrightarrow> runs d B k (bind (on_stack m) f) R"
  by (rule runs_bind0 [OF runs_on_stack]) simp_all

lemma stack_safe_pop_any [simp]: "n \<le> 1024 \<Longrightarrow> stack_safe (pop n) (\<lambda>_. True)"
  using stack_safe_pop [of n] by (auto simp: stack_safe_def STACK_LIMIT_def split: sum.splits)

lemma seq_gets [frame_rules]: "(\<And>x. runs d B k (f x) R) \<Longrightarrow> runs d B k (bind (gets g) f) R"
  by (rule runs_bind0 [OF runs_gets [where Q = "\<lambda>_. True"]]) simp_all

lemma seq_guard_err [frame_rules]:
  "(\<not> b \<Longrightarrow> runs d B k (f ()) R) \<Longrightarrow> runs d B k (bind (guard_err b (VmErr e)) f) R"
  by (rule runs_bind0 [OF runs_guard_err]) simp_all

lemma seq_ret [frame_rules]: "runs d B k (f x) R \<Longrightarrow> runs d B k (bind (ret x) f) R"
  by simp

lemma frame_done [frame_rules]: "runs d B 0 (ret x) (\<lambda>_. True)" "runs d B 0 (ret Halt) (\<lambda>r. r = Halt)"
  by (simp_all add: runs_ret)

lemma seq_with_range [frame_rules]:
  "off < 2 ^ 32 \<Longrightarrow> sz < 2 ^ 32 \<Longrightarrow> (\<And>x. runs d B k (f x) R) \<Longrightarrow> runs d B k (bind (on_memory (with_range off sz g)) f) R"
  by (rule runs_bind0 [OF runs_on_memory [OF mem_safe_with_range]]) simp_all

lemma seq_load_range [frame_rules]:
  "off < 2 ^ 32 \<Longrightarrow> sz < 2 ^ 32 \<Longrightarrow> (\<And>x. length x = sz \<Longrightarrow> runs d B k (f x) R) \<Longrightarrow>
    runs d B k (bind (on_memory (load_range off sz)) f) R"
  by (rule runs_bind0 [OF runs_on_memory [OF mem_safe_load_range]]) simp_all

lemma seq_store_data [frame_rules]:
  "off + length data \<le> 2 ^ 33 \<Longrightarrow> (\<And>x. runs d B k (f x) R) \<Longrightarrow> runs d B k (bind (on_memory (store_data off data)) f) R"
  by (rule runs_bind0 [OF runs_on_memory [OF mem_safe_store_data]]) simp_all

lemma seq_copy_to_memory [frame_rules]:
  assumes "dst < 2 ^ 32" "len < 2 ^ 32" "\<And>x. runs d B k (f x) R"
  shows "runs d B k (bind (copy_to_memory source dst src len) f) R"
proof (rule runs_bind0 [where Q = "\<lambda>_. True"])
  let ?data = "take len (drop src source)"
  have "length ?data \<le> len" by simp
  then have "runs d B 0 (on_memory (store_data dst ?data)) (\<lambda>_. True)"
    using assms by (intro runs_on_memory mem_safe_store_data) simp
  moreover have "runs d B 0 (on_memory (store_zeros (wrapping_add dst (length ?data)) (len - length ?data))) (\<lambda>_. True)"
    using assms by (intro runs_on_memory mem_safe_store_zeros) (simp add: wrapping_add_def)
  ultimately show "runs d B 0 (copy_to_memory source dst src len) (\<lambda>_. True)"
    unfolding copy_to_memory_def Let_def by (auto intro!: runs_if frame_done elim: runs_bind0)
qed (rule assms)

lemma seq_not_static [frame_rules]: "(\<And>x. runs d B k (f x) R) \<Longrightarrow> runs d B k (bind not_static f) R"
  unfolding not_static_def [abs_def] by (rule runs_bind0 [OF runs_guard])

lemma seq_code_length [frame_rules]:
  "(\<And>x. runs d B k (f x) R) \<Longrightarrow> runs d B k (bind (on_db (get_code_length a)) f) R"
  by (rule runs_bind0 [OF runs_on_db [OF db_safe_get_code_length]])

lemma seq_account_code [frame_rules]:
  "(\<And>x. code_wf x \<Longrightarrow> runs d B k (f x) R) \<Longrightarrow> runs d B k (bind (on_db (get_account_code a)) f) R"
  by (rule runs_bind0 [OF runs_on_db [OF db_safe_get_account_code]])

lemma last_hash [frame_rules]:
  "runs d B 0 (lift_result (u256_from_big_endian (hash_bytes h))) (\<lambda>_. True)"
  by (rule runs_mono [OF runs_lift_result order_refl order_refl]) (simp_all add: u256_from_big_endian_def hash_bytes_def)

lemma seq_block_hash [frame_rules]:
  assumes "\<And>x. runs d B k (f x) R"
  shows "runs d B k (bind (\<lambda>vm. (from_store (g vm), vm)) f) R"
  by (rule runs_bind0 [OF runs_read [where Q = "\<lambda>_. True"]]) (simp_all add: assms)

lemma seq_mstore [frame_rules]:
  "off < 2 ^ 32 \<Longrightarrow> calculate_memory_size off 32 = Inr n \<Longrightarrow> (\<And>x. runs d B k (f x) R) \<Longrightarrow>
    runs d B k (bind (on_memory (store_word_prerounded off v n)) f) R"
  by (rule runs_bind0 [OF runs_on_memory [where Q = "\<lambda>_. True"]])
    (simp_all add: store_word_prerounded_eq mem_safe_store_word)

lemma frame_prod [frame_rules]: "runs d B k (f a b) Q \<Longrightarrow> runs d B k (case (a, b) of (x, y) \<Rightarrow> f x y) Q"
  by simp

lemmas frame_case [frame_rules] = runs_case_prod

section \<open>Handlers\<close>

lemmas shapes = continue_def binary_op_def unary_op_def push_op_def pop2_def pop3_def pop4_def Let_def

lemma runs_arithmetic:
  shows "runs d B 1 OpAddHandler (\<lambda>_. True)"
    "runs d B 1 OpSubHandler (\<lambda>_. True)"
    "runs d B 1 OpMulHandler (\<lambda>_. True)"
    "runs d B 1 OpDivHandler (\<lambda>_. True)"
    "runs d B 1 OpSDivHandler (\<lambda>_. True)"
    "runs d B 1 OpModHandler (\<lambda>_. True)"
    "runs d B 1 OpSModHandler (\<lambda>_. True)"
    "runs d B 1 OpAddModHandler (\<lambda>_. True)"
    "runs d B 1 OpMulModHandler (\<lambda>_. True)"
    "runs d B 1 OpSignExtendHandler (\<lambda>_. True)"
    "runs d B 1 OpClzHandler (\<lambda>_. True)"
    "runs d B 1 OpLtHandler (\<lambda>_. True)"
    "runs d B 1 OpGtHandler (\<lambda>_. True)"
    "runs d B 1 OpSLtHandler (\<lambda>_. True)"
    "runs d B 1 OpSGtHandler (\<lambda>_. True)"
    "runs d B 1 OpEqHandler (\<lambda>_. True)"
    "runs d B 1 OpIsZeroHandler (\<lambda>_. True)"
    "runs d B 1 OpAndHandler (\<lambda>_. True)"
    "runs d B 1 OpOrHandler (\<lambda>_. True)"
    "runs d B 1 OpXorHandler (\<lambda>_. True)"
    "runs d B 1 OpNotHandler (\<lambda>_. True)"
    "runs d B 1 OpByteHandler (\<lambda>_. True)"
    "runs d B 1 OpShlHandler (\<lambda>_. True)"
    "runs d B 1 OpShrHandler (\<lambda>_. True)"
    "runs d B 1 OpSarHandler (\<lambda>_. True)"
    "runs d B 1 OpPopHandler (\<lambda>_. True)"
    "runs d B 1 OpPush0Handler (\<lambda>_. True)"
    "runs d B 1 OpExpHandler (\<lambda>_. True)"
  unfolding OpAddHandler_def OpSubHandler_def OpMulHandler_def OpDivHandler_def OpSDivHandler_def OpModHandler_def
    OpSModHandler_def OpAddModHandler_def OpMulModHandler_def OpSignExtendHandler_def OpClzHandler_def
    OpLtHandler_def OpGtHandler_def OpSLtHandler_def OpSGtHandler_def OpEqHandler_def OpIsZeroHandler_def
    OpAndHandler_def OpOrHandler_def OpXorHandler_def OpNotHandler_def OpByteHandler_def OpShlHandler_def
    OpShrHandler_def OpSarHandler_def OpPopHandler_def OpPush0Handler_def OpExpHandler_def shapes
  by ((rule frame_rules | simp add: fair_exp)+)

lemma runs_environment:
  shows "runs d B 1 OpPcHandler (\<lambda>_. True)"
    "runs d B 1 OpMSizeHandler (\<lambda>_. True)"
    "runs d B 1 OpTLoadHandler (\<lambda>_. True)"
    "runs d B 1 OpTStoreHandler (\<lambda>_. True)"
    "runs d B 1 OpJumpDestHandler (\<lambda>_. True)"
    "runs d B 1 OpAddressHandler (\<lambda>_. True)"
    "runs d B 1 OpBalanceHandler (\<lambda>_. True)"
    "runs d B 1 OpOriginHandler (\<lambda>_. True)"
    "runs d B 1 OpGasPriceHandler (\<lambda>_. True)"
    "runs d B 1 OpCallerHandler (\<lambda>_. True)"
    "runs d B 1 OpCallValueHandler (\<lambda>_. True)"
    "runs d B 1 OpCallDataLoadHandler (\<lambda>_. True)"
    "runs d B 1 OpCallDataSizeHandler (\<lambda>_. True)"
    "runs d B 1 OpCallDataCopyHandler (\<lambda>_. True)"
    "runs d B 1 OpCodeSizeHandler (\<lambda>_. True)"
    "runs d B 1 OpCodeCopyHandler (\<lambda>_. True)"
    "runs d B 1 OpExtCodeHashHandler (\<lambda>_. True)"
    "runs d B 1 OpReturnDataSizeHandler (\<lambda>_. True)"
    "runs d B 1 OpReturnDataCopyHandler (\<lambda>_. True)"
    "runs d B 1 OpCoinbaseHandler (\<lambda>_. True)"
    "runs d B 1 OpTimestampHandler (\<lambda>_. True)"
    "runs d B 1 OpNumberHandler (\<lambda>_. True)"
    "runs d B 1 OpPrevRandaoHandler (\<lambda>_. True)"
    "runs d B 1 OpGasLimitHandler (\<lambda>_. True)"
    "runs d B 1 OpChainIdHandler (\<lambda>_. True)"
    "runs d B 1 OpSelfBalanceHandler (\<lambda>_. True)"
    "runs d B 1 OpBaseFeeHandler (\<lambda>_. True)"
    "runs d B 1 OpBlobBaseFeeHandler (\<lambda>_. True)"
    "runs d B 1 OpSlotNumHandler (\<lambda>_. True)"
    "runs d B 1 OpSLoadHandler (\<lambda>_. True)"
    "runs d B 1 OpExtCodeSizeHandler (\<lambda>_. True)"
  unfolding OpPcHandler_def OpMSizeHandler_def OpTLoadHandler_def OpTStoreHandler_def OpJumpDestHandler_def
    OpAddressHandler_def OpBalanceHandler_def OpOriginHandler_def OpGasPriceHandler_def OpCallerHandler_def
    OpCallValueHandler_def OpCallDataLoadHandler_def OpCallDataSizeHandler_def OpCallDataCopyHandler_def
    OpCodeSizeHandler_def OpCodeCopyHandler_def OpExtCodeHashHandler_def OpReturnDataSizeHandler_def
    OpReturnDataCopyHandler_def OpCoinbaseHandler_def OpTimestampHandler_def OpNumberHandler_def
    OpPrevRandaoHandler_def OpGasLimitHandler_def OpChainIdHandler_def OpSelfBalanceHandler_def
    OpBaseFeeHandler_def OpBlobBaseFeeHandler_def OpSlotNumHandler_def OpSLoadHandler_def OpExtCodeSizeHandler_def shapes
  by ((rule frame_rules | simp add: fair_access fair_copies)+)

lemma runs_hash: "runs d B 1 OpKeccak256Handler (\<lambda>_. True)"
  unfolding OpKeccak256Handler_def shapes
  by (rule frame_rules | simp add: fair_copies)+

lemma runs_log: "n \<le> 4 \<Longrightarrow> runs d B 1 (OpLogHandler n) (\<lambda>_. True)"
  unfolding OpLogHandler_def shapes
  by (rule frame_rules | simp add: fair_log)+

lemma runs_memory:
  shows "runs d B 1 OpMStoreHandler (\<lambda>_. True)" "runs d B 1 OpMStore8Handler (\<lambda>_. True)"
    "runs d B 1 OpExtCodeCopyHandler (\<lambda>_. True)"
  unfolding OpMStoreHandler_def OpMStore8Handler_def OpExtCodeCopyHandler_def shapes
  by (rule frame_rules | simp add: fair_mload fair_extcodecopy)+

lemma runs_stack: "runs d B 1 (OpDupHandler n) (\<lambda>_. True)" "runs d B 1 (OpSwapHandler n) (\<lambda>_. True)"
  unfolding OpDupHandler_def OpSwapHandler_def shapes
  by (rule frame_rules | simp)+

lemma runs_block:
  shows "runs d B 1 OpBlockHashHandler (\<lambda>_. True)" "runs d B 1 OpBlobHashHandler (\<lambda>_. True)"
    "runs d B 1 OpGasHandler (\<lambda>_. True)"
  unfolding OpBlockHashHandler_def OpBlobHashHandler_def OpGasHandler_def shapes
  by (rule frame_rules | simp split: option.split | intro conjI allI impI)+

lemma runs_sstore: "runs d B 1 OpSStoreHandler (\<lambda>_. True)"
  unfolding OpSStoreHandler_def shapes
  by (rule frame_rules | simp add: fair_sstore)+

lemma runs_exit:
  shows "runs d B 0 OpStopHandler (\<lambda>r. r = Halt)" "runs d B 0 OpReturnHandler (\<lambda>r. r = Halt)"
    "runs d B 0 OpRevertHandler (\<lambda>r. r = Halt)" "runs d B 0 OpInvalidHandler (\<lambda>r. r = Halt)"
proof -
  have out: "runs d B 0 (modify_frame (\<lambda>f. f \<lparr> frame_output := b \<rparr>)) (\<lambda>_. True)" if "length b < 2 ^ 32" for b
    using that by (intro runs_modify_frame) (simp_all add: frame_ok_def alike_def)
  have set: "runs d B 0 (set_output off len) (\<lambda>_. True)" if "off < 2 ^ 32" "len < 2 ^ 32" for off len
    unfolding set_output_def using that by (auto intro!: frame_rules out)
  show "runs d B 0 OpStopHandler (\<lambda>r. r = Halt)" "runs d B 0 OpReturnHandler (\<lambda>r. r = Halt)"
    "runs d B 0 OpRevertHandler (\<lambda>r. r = Halt)" "runs d B 0 OpInvalidHandler (\<lambda>r. r = Halt)"
    unfolding OpStopHandler_def OpReturnHandler_def OpRevertHandler_def OpInvalidHandler_def shapes
    by (rule frame_rules | rule set [THEN runs_bind0] | simp)+
qed

lemma runs_mcopy: "runs d B 1 OpMCopyHandler (\<lambda>_. True)"
proof -
  have copy: "runs d B 1 (bind (lift_result (calculate_memory_size (max src dst) len)) (\<lambda>new_size.
      bind (charge_with (\<lambda>current. gas_mcopy new_size current len)) (\<lambda>_.
      bind (on_memory (copy_within src dst len)) (\<lambda>_. ret Continue)))) (\<lambda>_. True)"
    if len: "len < 2 ^ 32" and dst: "dst < 2 ^ 32" and src: "src < 2 ^ 32 \<or> src = U64_MAX" for src dst len
  proof (rule runs_bind0 [OF runs_lift_result])
    show "sound (calculate_memory_size (max src dst) len)" by (simp add: calculate_memory_size_def)
    fix n assume n: "calculate_memory_size (max src dst) len = Inr n"
    have small: "len = 0 \<or> src < 2 ^ 32"
      using src n len dst by (auto simp: calculate_memory_size_def checked_add_def split: if_splits)
    then have "n \<le> 2 ^ 34"
      using n dst len calculate_memory_size_eq [of "max src dst" len] by (auto simp: calculate_memory_size_def)
    moreover have "mem_safe (copy_within src dst len) (\<lambda>_. True)"
    proof (cases "len = 0")
      case True
      then show ?thesis by (auto simp: copy_within_def mem_safe_def)
    qed (use small dst len in \<open>simp add: mem_safe_copy_within\<close>)
    ultimately show "runs d B 1 (bind (charge_with (\<lambda>current. gas_mcopy n current len)) (\<lambda>_.
        bind (on_memory (copy_within src dst len)) (\<lambda>_. ret Continue))) (\<lambda>_. True)"
      using len by (auto intro!: frame_rules fair_mcopy runs_bind0 [OF runs_on_memory])
  qed
  have src: "usize_or_max v < 2 ^ 32 \<or> usize_or_max v = U64_MAX" for v
    by (simp add: usize_or_max_def u256_to_usize_eq)
  show ?thesis
    unfolding OpMCopyHandler_def shapes by (rule copy [OF _ _ src] | assumption | rule frame_rules | simp)+
qed

lemma runs_jump: "runs d B 0 (jump t) (\<lambda>_. True)"
proof (rule runsI)
  fix vm assume ok: "ok d vm" and B: "phi vm \<le> B"
  show "outcome d vm 0 (\<lambda>_. True) (jump t vm)"
  proof (cases "is_valid_jumpdest (frame_code (cf vm)) t")
    case True
    let ?c = "(cf vm) \<lparr> pc := wrapping_add t 1 \<rparr>"
    have f: "frame_ok (snd d) (cf vm)" using ok by (simp add: ok_def okf_def)
    with True have "t < code_len (frame_code (cf vm))" "t < 2 ^ 62"
      by (auto simp: frame_ok_def code_wf_def code_len_def)
    with f have "frame_ok (snd d) ?c" by (simp add: frame_ok_def wrapping_add_def)
    note u = update_frame [OF ok_okf [OF ok] this]
    have ok': "ok d (vm \<lparr> current_call_frame := ?c \<rparr>)" "phi (vm \<lparr> current_call_frame := ?c \<rparr>) = phi vm"
      "kept vm (vm \<lparr> current_call_frame := ?c \<rparr>)" using u ok by (auto simp: alike_def ok_def)
    have "outcome d (vm \<lparr> current_call_frame := ?c \<rparr>) 0 (\<lambda>_. True)
        (charge (Inr JUMPDEST_GAS) (vm \<lparr> current_call_frame := ?c \<rparr>))"
      by (rule runsD [OF runs_charge ok'(1), of _ _ B]) (use ok' B in simp_all)
    then show ?thesis using True outcome_after [of vm "vm \<lparr> current_call_frame := ?c \<rparr>" 0 0 d] ok'
      by (cases "charge (Inr JUMPDEST_GAS) (vm \<lparr> current_call_frame := ?c \<rparr>)") (simp add: jump_def modify_frame_def)
  qed (use ok in \<open>simp add: jump_def ok_okf\<close>)
qed

lemma runs_jumps: "runs d B 1 OpJumpHandler (\<lambda>_. True)" "runs d B 1 OpJumpIHandler (\<lambda>_. True)"
  unfolding OpJumpHandler_def OpJumpIHandler_def shapes
  by (rule frame_rules | rule runs_jump [THEN runs_bind0] | rule runs_jump | simp)+

text \<open>
  \<open>MLOAD\<close> writes the top of the stack without a check.  It has looked at the top before, and neither the charge nor the
  memory changes the stack.
\<close>

lemma stack_charge: "charge c vm = (r, vm') \<Longrightarrow> stack (cf vm') = stack (cf vm)"
  by (cases c) (auto simp: charge_def bind_def on_frame_def zoom_def increase_consumed_gas_def Let_def split: if_splits)

lemma stack_on_memory: "on_memory m vm = (r, vm') \<Longrightarrow> stack (cf vm') = stack (cf vm)"
  by (auto simp: on_memory_def zoom_def split: prod.splits)

lemma outcome_bind:
  assumes "outcome d vm k Q (m vm)" "0 \<le> k \<or> j \<le> 0"
    "\<And>x vm1. m vm = (Inr x, vm1) \<Longrightarrow> ok d vm1 \<Longrightarrow> phi vm1 + k \<le> phi vm \<Longrightarrow> Q x \<Longrightarrow> outcome d vm1 j R (f x vm1)"
  shows "outcome d vm (k + j) R (bind m f vm)"
proof -
  obtain r vm1 where m: "m vm = (r, vm1)" by (cases "m vm")
  from assms(1) have "outcome d vm k Q (r, vm1)" by (simp add: m)
  then show ?thesis
  proof (cases rule: outcome_cases)
    case (1 x)
    obtain r2 vm2 where f: "f x vm1 = (r2, vm2)" by (cases "f x vm1")
    from assms(3) [of x vm1] 1 m have "outcome d vm1 j R (r2, vm2)" by (simp add: f)
    with 1 assms(2) show ?thesis by (simp add: bind_def m f outcome_after)
  next
    case (3 e)
    moreover have "min 0 (k + j) \<le> min 0 k" using assms(2) by linarith
    ultimately show ?thesis by (auto simp: bind_def m intro!: outcome_errI)
  qed (simp add: bind_def m outcome_propagate)
qed

lemma outcome_set_top:
  assumes ok: "ok d vm" and top: "offset (stack (cf vm)) < length (vals (stack (cf vm)))"
  shows "outcome d vm 0 (\<lambda>_. True) (continue (on_stack (set_top_unchecked v)) vm)"
proof -
  let ?c = "(cf vm) \<lparr> stack := (stack (cf vm)) \<lparr> vals := (vals (stack (cf vm)))[offset (stack (cf vm)) := v] \<rparr> \<rparr>"
  have "frame_ok (snd d) ?c" using ok by (simp add: ok_def okf_def frame_ok_def stack_ok_def)
  from update_frame [OF ok_okf [OF ok] this] ok top show ?thesis
    by (simp add: continue_def bind_def on_stack_eq set_top_unchecked_def ok_def alike_def)
qed

lemma bind_lift: "bind (lift_result r) f vm = (case r of Inl e \<Rightarrow> (Inl e, vm) | Inr x \<Rightarrow> f x vm)"
  by (cases r) (simp_all add: bind_def)

lemma mload_rest:
  assumes off: "off < 2 ^ 32" and n: "calculate_memory_size off 32 = Inr n" and ok: "ok d vm"
    and top: "offset (stack (cf vm)) < length (vals (stack (cf vm)))"
  shows "outcome d vm 1 (\<lambda>_. True) (bind (charge_with (gas_mload n)) (\<lambda>_.
     bind (on_memory (load_word_prerounded off n)) (\<lambda>word. continue (on_stack (set_top_unchecked word)))) vm)"
proof -
  have "n \<le> 2 ^ 34" using calculate_memory_size_eq [OF off, of 32] n by simp
  then have "runs d (phi vm) 1 (charge_with (gas_mload n)) (\<lambda>_. True)"
    using fair_mload(1) by (intro runs_charge_with) (fastforce simp: fair_def)+
  from runsD [OF this ok]
  have "outcome d vm (1 + 0) (\<lambda>_. True) (bind (charge_with (gas_mload n)) (\<lambda>_.
     bind (on_memory (load_word_prerounded off n)) (\<lambda>word. continue (on_stack (set_top_unchecked word)))) vm)"
  proof (rule outcome_bind [OF _ disjI1])
    fix x vm1 assume c: "charge_with (gas_mload n) vm = (Inr x, vm1)" and ok1: "ok d vm1"
    have st: "stack (cf vm1) = stack (cf vm)"
      using c stack_charge by (auto simp: charge_with_def)
    have "runs d (phi vm1) 0 (on_memory (load_word_prerounded off n)) (\<lambda>_. True)"
      unfolding load_word_prerounded_eq [OF n] using off by (intro runs_on_memory mem_safe_load_word) simp
    from runsD [OF this ok1]
    have "outcome d vm1 (0 + 0) (\<lambda>_. True)
        (bind (on_memory (load_word_prerounded off n)) (\<lambda>word. continue (on_stack (set_top_unchecked word))) vm1)"
      by (rule outcome_bind [OF _ disjI1]) (use top st in \<open>simp_all add: stack_on_memory outcome_set_top\<close>)
    then show "outcome d vm1 0 (\<lambda>_. True)
        (bind (on_memory (load_word_prerounded off n)) (\<lambda>word. continue (on_stack (set_top_unchecked word))) vm1)"
      by simp
  qed simp_all
  then show ?thesis by simp
qed

lemma runs_mload: "runs d B 1 OpMLoadHandler (\<lambda>_. True)"
proof (rule runsI)
  fix vm assume ok: "ok d vm"
  let ?s = "stack (cf vm)"
  show "outcome d vm 1 (\<lambda>_. True) (OpMLoadHandler vm)"
  proof (cases "offset ?s < length (vals ?s)")
    case True
    then have "on_stack (top_mut (\<lambda>v. v)) vm = (Inr (vals ?s ! offset ?s), vm)"
      by (simp add: on_stack_eq top_mut_def)
    then have e: "OpMLoadHandler vm = (case u256_to_usize (vals ?s ! offset ?s) of Inl e \<Rightarrow> (Inl e, vm)
        | Inr off \<Rightarrow> bind (lift_result (calculate_memory_size off 32)) (\<lambda>new_size.
            bind (charge_with (gas_mload new_size)) (\<lambda>_.
            bind (on_memory (load_word_prerounded off new_size)) (\<lambda>word.
            continue (on_stack (set_top_unchecked word))))) vm)"
      by (simp only: OpMLoadHandler_def bind_Inr bind_lift)
    show ?thesis
    proof (cases "u256_to_usize (vals ?s ! offset ?s)")
      case (Inl a)
      then have "a = halt VeryLargeNumber" by (simp add: u256_to_usize_eq split: if_splits)
      with Inl ok show ?thesis by (simp add: e ok_okf)
    next
      case (Inr off)
      then have off: "off < 2 ^ 32" using u256_to_usize_bound by blast
      from calculate_memory_size_eq(1) [OF off, of 32]
      have n: "calculate_memory_size off 32 = Inr (next_multiple_of (off + 32) 32)" by simp
      show ?thesis unfolding e Inr sum.case n bind_lift by (rule mload_rest [OF off n ok True])
    qed
  next
    case False
    then have "on_stack (top_mut (\<lambda>v. v)) vm = (Inl (halt StackUnderflow), vm)"
      by (simp add: on_stack_eq top_mut_def)
    then show ?thesis using ok by (simp add: OpMLoadHandler_def bind_def ok_okf)
  qed
qed

end
