(* ===== verification/Evm_Steps.thy ===== *)
theory Evm_Steps
  imports Evm_Safe_Handlers
begin

text \<open>
  The remaining opcode handlers: those that move the program counter over immediate bytes, and the calls and creations,
  which may enter a new frame.  A step that enters a frame costs at least two units of the potential, so that entering
  and leaving frames cannot go on forever.
\<close>

section \<open>Steps\<close>

definition entered :: "VM \<Rightarrow> VM \<Rightarrow> bool" where
  "entered vm vm' \<longleftrightarrow> length (call_frames vm') = Suc (length (call_frames vm)) \<and>
     length (mem_buffer vm') \<le> max (length (mem_buffer vm)) (current_base (memory (cf vm)) + 2 ^ 34) + 2 ^ 34"

text \<open>Room in the memory buffer for one more frame.\<close>

definition room :: "VM \<Rightarrow> bool" where
  "room vm \<longleftrightarrow> max (length (mem_buffer vm)) (current_base (memory (cf vm)) + 2 ^ 34) + 2 ^ 34 \<le> 2 ^ 62"

definition moved :: "VM \<Rightarrow> int \<Rightarrow> VM \<Rightarrow> bool" where
  "moved vm k vm' \<longleftrightarrow> kept vm vm' \<and> phi vm' + k \<le> phi vm \<or> entered vm vm' \<and> phi vm' + k + 1 \<le> phi vm"

definition stepped :: "VM \<Rightarrow> int \<Rightarrow> (vm_fail + opcode_result) \<times> VM \<Rightarrow> bool" where
  "stepped vm k r \<longleftrightarrow>
     (case r of
        (Inr Continue, vm') \<Rightarrow> ok (0, 32) vm' \<and> moved vm k vm'
      | (Inr Halt, vm') \<Rightarrow> ok (0, 32) vm' \<and> moved vm (min 0 k) vm'
      | (Inl (VmErr e), vm') \<Rightarrow> should_propagate e \<or>
          okf (0, 32) vm' \<and> moved vm (min 0 k) vm' \<and> (is_revert_opcode e \<longrightarrow> ok (0, 32) vm')
      | (Inl VmPanic, vm') \<Rightarrow> False
      | (Inl UndefinedBehaviour, vm') \<Rightarrow> False)"

definition steps :: "int \<Rightarrow> int \<Rightarrow> (VM, opcode_result) action \<Rightarrow> bool" where
  "steps B k h \<longleftrightarrow> (\<forall>vm. ok (0, 0) vm \<longrightarrow> phi vm \<le> B \<longrightarrow> room vm \<longrightarrow> stepped vm k (h vm))"

lemma stepsI: "(\<And>vm. ok (0, 0) vm \<Longrightarrow> phi vm \<le> B \<Longrightarrow> room vm \<Longrightarrow> stepped vm k (h vm)) \<Longrightarrow> steps B k h"
  by (simp add: steps_def)

lemma stepsD: "steps B k h \<Longrightarrow> ok (0, 0) vm \<Longrightarrow> phi vm \<le> B \<Longrightarrow> room vm \<Longrightarrow> stepped vm k (h vm)"
  by (simp add: steps_def)

lemma okf_slack: "okf (0, p) vm \<Longrightarrow> p \<le> 32 \<Longrightarrow> okf (0, 32) vm"
  by (auto simp: okf_def frame_ok_def)

lemma ok_slack: "ok (0, p) vm \<Longrightarrow> p \<le> 32 \<Longrightarrow> ok (0, 32) vm"
  by (auto simp: ok_def okf_slack)

lemma kept_entered: "kept a b \<Longrightarrow> entered b c \<Longrightarrow> entered a c"
  by (auto simp: kept_def entered_def)

lemma kept_room: "kept a b \<Longrightarrow> room a \<Longrightarrow> room b"
  by (auto simp: kept_def room_def)

lemma moved_mono: "moved vm k vm' \<Longrightarrow> j \<le> k \<Longrightarrow> moved vm j vm'"
  by (auto simp: moved_def)

lemma moved_after: "kept vm vm1 \<Longrightarrow> phi vm1 + k \<le> phi vm \<Longrightarrow> moved vm1 j vm' \<Longrightarrow> moved vm (k + j) vm'"
  by (auto simp: moved_def intro: kept_trans kept_entered)

lemma moved_kept: "kept vm vm' \<Longrightarrow> phi vm' + k \<le> phi vm \<Longrightarrow> moved vm k vm'"
  by (simp add: moved_def)

lemma stepped_mono: "stepped vm k r \<Longrightarrow> j \<le> k \<Longrightarrow> stepped vm j r"
  by (auto simp: stepped_def intro: moved_mono split: sum.splits prod.splits vm_fail.splits opcode_result.splits)

lemma stepped_after:
  assumes "kept vm vm1" "phi vm1 + k \<le> phi vm" "0 \<le> k \<or> j \<le> 0" "stepped vm1 j r"
  shows "stepped vm (k + j) r"
proof -
  have "min 0 (k + j) \<le> k + min 0 j" using assms(3) by linarith
  then have "moved vm1 (min 0 j) v \<Longrightarrow> moved vm (min 0 (k + j)) v" for v
    using moved_mono [OF moved_after [OF assms(1,2)]] by blast
  with assms(4) moved_after [OF assms(1,2)] show ?thesis
    by (auto simp: stepped_def split: sum.splits prod.splits vm_fail.splits opcode_result.splits)
qed

lemma outcome_stepped:
  assumes "outcome (0, p) vm k (\<lambda>_. True) r" "p \<le> 32"
  shows "stepped vm k r"
proof -
  obtain x vm' where r: "r = (x, vm')" by (cases r)
  from assms(1) [unfolded r] show ?thesis
  proof (cases rule: outcome_cases)
    case (1 y)
    then show ?thesis using ok_slack [OF _ assms(2)] by (cases y) (auto simp: stepped_def moved_def r)
  qed (use okf_slack [OF _ assms(2)] ok_slack [OF _ assms(2)] in \<open>auto simp: stepped_def moved_def r\<close>)
qed

lemma steps_runs: "runs (0, 0) B k h (\<lambda>_. True) \<Longrightarrow> steps B k h"
  by (rule stepsI) (auto intro: outcome_stepped runsD)

lemma steps_halts:
  assumes "runs (0, 0) B 0 h (\<lambda>r. r = Halt)"
  shows "steps B 1 h"
proof (rule stepsI)
  fix vm assume ok: "ok (0, 0) vm" and B: "phi vm \<le> B"
  obtain x vm' where r: "h vm = (x, vm')" by (cases "h vm")
  from runsD [OF assms ok B] have "outcome (0, 0) vm 0 (\<lambda>r. r = Halt) (x, vm')" by (simp add: r)
  then show "stepped vm 1 (h vm)" unfolding r
    by (cases rule: outcome_cases) (auto simp: stepped_def moved_def intro: okf_slack ok_slack)
qed

lemma steps_bind:
  assumes "runs (0, 0) B k m Q" "\<And>x. Q x \<Longrightarrow> steps (B - k) j (f x)" "0 \<le> k \<or> j \<le> 0"
  shows "steps B (k + j) (bind m f)"
proof (rule stepsI)
  fix vm assume ok: "ok (0, 0) vm" and B: "phi vm \<le> B" and room: "room vm"
  obtain r vm1 where m: "m vm = (r, vm1)" by (cases "m vm")
  from runsD [OF assms(1) ok B] have "outcome (0, 0) vm k Q (r, vm1)" by (simp add: m)
  then show "stepped vm (k + j) (bind m f vm)"
  proof (cases rule: outcome_cases)
    case (1 x)
    from 1 B have "phi vm1 \<le> B - k" by linarith
    with stepsD [OF assms(2) 1(2)] 1 kept_room [OF 1(3) room] have "stepped vm1 j (f x vm1)" by simp
    with 1 assms(3) show ?thesis by (simp add: bind_def m stepped_after)
  next
    case (3 e)
    moreover have "min 0 (k + j) \<le> min 0 k" using assms(3) by linarith
    ultimately show ?thesis using okf_slack [of 0] ok_slack [of 0] by (auto simp: bind_def m stepped_def moved_def)
  qed (simp add: bind_def m stepped_def)
qed

lemma steps_bind0: "runs (0, 0) B 0 m Q \<Longrightarrow> (\<And>x. Q x \<Longrightarrow> steps B k (f x)) \<Longrightarrow> steps B k (bind m f)"
  using steps_bind [of B 0 m Q k f] by simp

lemma steps_mono_bound: "steps B k h \<Longrightarrow> B' \<le> B \<Longrightarrow> steps B' k h"
  by (simp add: steps_def)

lemma steps_bind1: "runs (0, 0) B 1 m Q \<Longrightarrow> (\<And>x. Q x \<Longrightarrow> steps B 0 (f x)) \<Longrightarrow> steps B 1 (bind m f)"
  using steps_bind [of B 1 m Q 0 f] steps_mono_bound [of B 0 _ "B - 1"] by fastforce

section \<open>Immediate bytes\<close>

lemma pc_update:
  assumes "ok (0, 0) vm" "pc (cf vm) \<le> q" "q \<le> pc (cf vm) + 32"
  shows "ok (0, 32) (vm \<lparr> current_call_frame := (cf vm) \<lparr> pc := q \<rparr> \<rparr>)"
    "kept vm (vm \<lparr> current_call_frame := (cf vm) \<lparr> pc := q \<rparr> \<rparr>)"
    "phi (vm \<lparr> current_call_frame := (cf vm) \<lparr> pc := q \<rparr> \<rparr>) = phi vm"
proof -
  have "frame_ok 32 ((cf vm) \<lparr> pc := q \<rparr>)" using assms by (auto simp: ok_def okf_def frame_ok_def)
  from update_frame [OF okf_slack [OF ok_okf [OF assms(1)]], of "(cf vm) \<lparr> pc := q \<rparr>"] this assms(1)
  show "ok (0, 32) (vm \<lparr> current_call_frame := (cf vm) \<lparr> pc := q \<rparr> \<rparr>)"
    "kept vm (vm \<lparr> current_call_frame := (cf vm) \<lparr> pc := q \<rparr> \<rparr>)"
    "phi (vm \<lparr> current_call_frame := (cf vm) \<lparr> pc := q \<rparr> \<rparr>) = phi vm"
    by (simp_all add: alike_def ok_def)
qed

lemma pc_bound: "ok (0, p) vm \<Longrightarrow> p \<le> 32 \<Longrightarrow> pc (cf vm) + 32 < 2 ^ 63 \<and> pc (cf vm) \<le> code_len (frame_code (cf vm)) + p"
  by (auto simp: ok_def okf_def frame_ok_def code_wf_def code_len_def)

lemma steps_skip_immediate: "steps B 0 skip_immediate"
proof (rule stepsI)
  fix vm assume ok: "ok (0, 0) vm"
  have "wrapping_add (pc (cf vm)) 1 = pc (cf vm) + 1" using pc_bound [OF ok] by simp
  with pc_update [OF ok, of "pc (cf vm) + 1"] show "stepped vm 0 (skip_immediate vm)"
    by (simp add: skip_immediate_def continue_def modify_frame_def stepped_def moved_def)
qed

lemma steps_push:
  assumes "1 \<le> n" "n \<le> 32"
  shows "steps B 1 (OpPushHandler n)"
proof (rule stepsI)
  fix vm assume ok: "ok (0, 0) vm"
  let ?p = "pc (cf vm)" and ?code = "dispatch_buf (frame_code (cf vm))"
  let ?vm = "vm \<lparr> current_call_frame := (cf vm) \<lparr> pc := ?p + n \<rparr> \<rparr>"
  note b = pc_bound [OF ok, simplified] and u = pc_update [OF ok, of "?p + n"]
  have ok': "ok (0, 32) ?vm" and k: "kept vm ?vm" and phi: "phi ?vm = phi vm" using u assms by simp_all
  have "code_wf (frame_code (cf vm))" using ok by (simp add: ok_def okf_def frame_ok_def)
  then have len: "?p + n \<le> length ?code"
    using b assms by (simp add: code_wf_def dispatch_buf_def code_len_def)
  let ?rest = "\<lambda>_. bind (gets (\<lambda>vm. dispatch_buf (frame_code (cf vm)))) (\<lambda>code.
     bind (lift_result (read_unchecked ?p (?p + n) code)) (\<lambda>buf.
     continue (on_stack (push (u256_from_big_endian_const buf)))))"
  have e: "OpPushHandler n vm = bind (charge (Inr PUSHN_GAS)) ?rest ?vm"
    using b assms by (simp add: OpPushHandler_def checked_add_def bind_lift modify_frame_def)
  have "outcome (0, 32) ?vm (1 + 0) (\<lambda>_. True) (bind (charge (Inr PUSHN_GAS)) ?rest ?vm)"
  proof (rule outcome_bind [where Q = "\<lambda>_. True"])
    show "outcome (0, 32) ?vm 1 (\<lambda>_. True) (charge (Inr PUSHN_GAS) ?vm)"
      by (rule runsD [OF runs_charge ok' order_refl]) simp_all
    fix x vm1 assume c: "charge (Inr PUSHN_GAS) ?vm = (Inr x, vm1)" and ok1: "ok (0, 32) vm1"
    have "frame_code (cf vm1) = frame_code (cf vm)"
      using c by (auto simp: charge_def bind_def on_frame_def zoom_def increase_consumed_gas_def Let_def split: if_splits)
    moreover have "outcome (0, 32) vm1 0 (\<lambda>_. True) (continue (on_stack (push v)) vm1)" for v
      unfolding continue_def by (rule runsD [OF _ ok1 order_refl]) (rule frame_rules | simp)+
    ultimately show "outcome (0, 32) vm1 0 (\<lambda>_. True) (?rest x vm1)"
      using len by (simp add: bind_lift read_unchecked_def)
  qed simp
  then have "stepped ?vm 1 (OpPushHandler n vm)" unfolding e using outcome_stepped [of 32] by simp
  then show "stepped vm 1 (OpPushHandler n vm)" using stepped_after [OF k, of 0 1] phi by simp
qed

lemma step_relative: "\<not> (0x5B \<le> b \<and> b < 0x80) \<Longrightarrow> 1 \<le> unat (b + 145)" for b :: byte
proof (rule ccontr)
  assume nb: "\<not> (0x5B \<le> b \<and> b < 0x80)" and "\<not> 1 \<le> unat (b + 145)"
  then have "unat (b + 145) = 0" by linarith
  then have "b + 145 = 0" by (rule unsigned_eq_0_iff [THEN iffD1])
  then have "b = - 145" by (simp add: eq_neg_iff_add_eq_0)
  also have "- 145 = (111 :: byte)" by simp
  finally have "b = 111" .
  with nb show False by simp
qed

lemmas steps_frame = runs_on_substate [THEN steps_bind0] runs_get_account [THEN steps_bind0]
  runs_get_account_mut [THEN steps_bind0] runs_guard_err [THEN steps_bind0] runs_guard [THEN steps_bind0]
  runs_return_data [THEN steps_bind0]

lemma steps_charge1: "fair c \<Longrightarrow> (\<And>x. steps B 0 (f x)) \<Longrightarrow> steps B 1 (bind (charge c) f)"
  by (rule steps_bind1 [OF runs_charge]) (auto simp: fair_def)

lemma steps_on_stack: "stack_safe m (\<lambda>_. True) \<Longrightarrow> (\<And>x. steps B k (f x)) \<Longrightarrow> steps B k (bind (on_stack m) f)"
  by (rule steps_bind0 [OF runs_on_stack]) simp_all

lemma steps_gets: "(\<And>x. steps B k (f x)) \<Longrightarrow> steps B k (bind (gets g) f)"
  by (rule steps_bind0 [OF runs_gets [where Q = "\<lambda>_. True"]]) simp_all

lemma steps_lift: "sound r \<Longrightarrow> (\<And>x. r = Inr x \<Longrightarrow> steps B k (f x)) \<Longrightarrow> steps B k (bind (lift_result r) f)"
  by (rule steps_bind0 [OF runs_lift_result])

lemmas step_rules = steps_charge1 steps_on_stack steps_gets steps_lift steps_frame

lemma steps_dupn: "steps B 1 OpDupNHandler"
  unfolding OpDupNHandler_def Let_def
  by (rule step_rules steps_skip_immediate | simp add: get_unchecked_def)+

lemma steps_swapn: "steps B 1 OpSwapNHandler"
  unfolding OpSwapNHandler_def Let_def
proof (rule steps_charge1, simp, rule steps_gets, rule steps_frame)
  fix b :: byte assume b: "\<not> (0x5B \<le> b \<and> b < 0x80)"
  note r = step_relative [OF b]
  show "steps B 0 (bind (gets (\<lambda>vm. offset (stack (cf vm)))) (\<lambda>top_offset.
     bind (lift_result (ok_or (checked_add top_offset (unat (b + 145))) (halt StackUnderflow))) (\<lambda>absolute_offset.
     bind (guard_err (absolute_offset \<ge> STACK_LIMIT) (halt StackUnderflow)) (\<lambda>_.
     bind (on_stack (swap_unchecked top_offset absolute_offset)) (\<lambda>_. skip_immediate)))))"
    by (rule step_rules steps_skip_immediate stack_safe_swap_unchecked | use r in simp)+
qed

lemma exchange_distinct:
  assumes "\<not> (0x52 \<le> b \<and> b < 0x80)"
  shows "unat (fst (exchange_offsets b)) \<noteq> unat (snd (exchange_offsets b))"
proof -
  let ?P = "\<lambda>b :: byte. (0x52 \<le> b \<and> b < 0x80) \<or> fst (exchange_offsets b) \<noteq> snd (exchange_offsets b)"
  have "list_all (\<lambda>n. ?P (word_of_nat n)) [0..<256]" by code_simp
  then have "?P (word_of_nat (unat b))" unfolding list_all_iff by (rule bspec) (use unsigned_less [of b] in simp)
  with assms show ?thesis by (auto dest: unsigned_word_eqI)
qed

lemma steps_exchange: "steps B 1 OpExchangeHandler"
  unfolding OpExchangeHandler_def
proof (rule steps_charge1, simp, rule steps_gets, rule steps_frame)
  fix b :: byte assume b: "\<not> (0x52 \<le> b \<and> b < 0x80)"
  note r = exchange_distinct [OF b]
  show "steps B 0 (bind (gets (\<lambda>vm. offset (stack (cf vm)))) (\<lambda>stack_offset.
     bind (lift_result (ok_or (checked_add stack_offset (unat (fst (exchange_offsets b)))) (halt StackUnderflow))) (\<lambda>q.
     bind (lift_result (ok_or (checked_add stack_offset (unat (snd (exchange_offsets b)))) (halt StackUnderflow))) (\<lambda>r.
     bind (guard_err (q \<ge> STACK_LIMIT \<or> r \<ge> STACK_LIMIT) (halt StackUnderflow)) (\<lambda>_.
     bind (on_stack (swap_unchecked q r)) (\<lambda>_. skip_immediate))))))"
    by (rule step_rules steps_skip_immediate stack_safe_swap_unchecked | use r in simp)+
qed

section \<open>Costs of calls\<close>

text \<open>A call costs more than the gas it gives to the callee, and at most what is left.\<close>

definition call_cost_ok :: "nat \<Rightarrow> vm_fail + nat \<times> nat \<Rightarrow> bool" where
  "call_cost_ok left r \<longleftrightarrow> sound r \<and> (\<forall>cost limit. r = Inr (cost, limit) \<longrightarrow> limit + 100 \<le> cost \<and> cost \<le> left)"

lemma call_cost_split:
  assumes "left < 2 ^ 63" "stipend \<le> 2300" "100 \<le> costs" "\<not> z \<Longrightarrow> 9000 \<le> costs"
  shows "call_cost_ok left (calculate_cost_and_gas_limit_call z g left costs stipend)"
proof -
  have s: "\<not> z \<Longrightarrow> 2300 \<le> costs" using assms(4) by fastforce
  have e: "calculate_cost_and_gas_limit_call z g left costs stipend =
    (if left < costs then Inl (halt OutOfGas)
     else let avail = left - costs; gas = min (unat g) (avail - avail div 64)
          in Inr (costs + gas, gas + (if z then 0 else stipend)))"
    using assms(1) by (intro call_split_exact [OF _ assms(2) s]) simp_all
  have m: "min (unat g) (left - costs - (left - costs) div 64) \<le> left - costs" by simp
  show ?thesis using m assms(2-4) unfolding e call_cost_ok_def by (auto simp: Let_def simp del: min_le_iff_disj)
qed

lemma call_cost_memory:
  assumes "n \<le> 2 ^ 34" "c \<le> 2 ^ 34" "left < 2 ^ 63"
  shows "call_cost_ok left (gas_call n c cold e value g left f)"
    "call_cost_ok left (gas_callcode n c cold value g left f)"
    "call_cost_ok left (gas_delegatecall n c cold g left f)"
    "call_cost_ok left (gas_staticcall n c cold g left f)"
proof -
  note g = expansion_grow [OF assms(1,2)]
  note defs = Let_def address_access_exact g(1) checked_small and a = access_le [of cold f] access_cost_le [of f]
  have a': "100 \<le> access cold f" by (simp add: access_def cold_account_access_cost_def)
  show "call_cost_ok left (gas_call n c cold e value g left f)"
    using g(2) a a' by (auto simp: gas_call_def defs intro!: call_cost_split [OF assms(3)])
  show "call_cost_ok left (gas_callcode n c cold value g left f)"
    using g(2) a a' by (auto simp: gas_callcode_def defs intro!: call_cost_split [OF assms(3)])
  show "call_cost_ok left (gas_delegatecall n c cold g left f)"
    using g(2) a a' by (auto simp: gas_delegatecall_def defs intro!: call_cost_split [OF assms(3)])
  show "call_cost_ok left (gas_staticcall n c cold g left f)"
    using g(2) a a' by (auto simp: gas_staticcall_def defs intro!: call_cost_split [OF assms(3)])
qed

end
