(* ===== verification/Evm_Safe_Calls.thy ===== *)
theory Evm_Safe_Calls
  imports Evm_Steps
begin

text \<open>
  The calls, the creations and \<open>SELFDESTRUCT\<close> keep the machine well formed.  A call hands \<open>limit\<close> units of gas to the callee and has
  charged more than that before.
\<close>

section \<open>Giving gas back inside a frame\<close>

lemma steps_weaken: "steps B k h \<Longrightarrow> B' \<le> B \<Longrightarrow> j \<le> k \<Longrightarrow> steps B' j h"
  by (auto simp: steps_def intro: stepped_mono)

lemma runs_push_fail: "runs d B 0 push_fail (\<lambda>_. True)"
  unfolding push_fail_def continue_def by (rule frame_rules | simp)+

text \<open>The update of the gas of the current frame by at most \<open>n\<close>.\<close>

lemma runs_put_gas:
  assumes "\<And>vm g. ok d vm \<Longrightarrow> phi vm \<le> B \<Longrightarrow> u vm = Some g \<Longrightarrow> 0 \<le> g \<and> g < 2 ^ 63 \<and> g \<le> gas_remaining (cf vm) + int n"
  shows "runs d B (- int n) (try_update u put_gas_remaining Overflow) (\<lambda>_. True)"
proof (rule runsI)
  fix vm assume ok: "ok d vm" and B: "phi vm \<le> B"
  show "outcome d vm (- int n) (\<lambda>_. True) (try_update u put_gas_remaining Overflow vm)"
  proof (cases "u vm")
    case (Some g)
    note g = assms [OF ok B Some] and r = gas_range [OF ok]
    from regas [of vm "put_gas_remaining g vm" d] ok_okf [OF ok] g
    have "okf d (put_gas_remaining g vm)" "kept vm (put_gas_remaining g vm)"
      "phi (put_gas_remaining g vm) = phi vm + max 0 g - max 0 (gas_remaining (cf vm))" by (simp_all add: regassed_def)
    with g r Some show ?thesis by (simp add: try_update_def ok_def)
  qed (simp add: try_update_def)
qed

lemma runs_early_revert:
  assumes "limit < 2 ^ 63"
  shows "runs d B (- int limit) (early_revert_message_call limit) (\<lambda>_. True)"
proof -
  have "runs d B (- int limit)
      (try_update (\<lambda>vm. checked_i64 (gas_remaining (cf vm) + wrap_i64 (int limit))) put_gas_remaining Overflow) (\<lambda>_. True)"
  proof (rule runs_put_gas)
    fix vm g assume ok: "ok d vm" and g: "checked_i64 (gas_remaining (cf vm) + wrap_i64 (int limit)) = Some g"
    have "wrap_i64 (int limit) = int limit" using assms by (simp add: wrap_i64_id)
    with g gas_range [OF ok] show "0 \<le> g \<and> g < 2 ^ 63 \<and> g \<le> gas_remaining (cf vm) + int limit"
      by (auto simp: checked_i64_def split: if_splits)
  qed
  from runs_bind [OF this runs_push_fail] show ?thesis unfolding early_revert_message_call_def by simp
qed

lemma log_transfer_rules [frame_rules]:
  "runs d B 0 (log_transfer b from to' v) (\<lambda>_. True)"
  unfolding log_transfer_def by (rule frame_rules | simp)+

lemma seq_log_transfer [frame_rules]:
  "(\<And>x. runs d B k (f x) R) \<Longrightarrow> runs d B k (bind (log_transfer b from to' v) f) R"
  by (rule runs_bind0 [OF log_transfer_rules])

lemma handle_precompile_result_cases:
  "sound (handle_precompile_result r limit remaining)"
  by (cases r) (auto simp: handle_precompile_result_def intro!: sound_and_then)

lemma runs_call_precompile:
  assumes "B + int limit < 2 ^ 63" "ro < 2 ^ 32" "rs < 2 ^ 32"
  shows "runs d B (- int limit)
    (call_precompile execute limit value sender to' transfers data ro rs charged) (\<lambda>_. True)"
proof -
  obtain r remaining where e: "execute data limit = (r, remaining)" by (cases "execute data limit")
  have give: "runs d B (- int limit) (if ctx_is_success ctx
            then bind (lift_result (ok_or (checked_sub limit (gas_used ctx)) (internal Underflow))) (\<lambda>unused.
              try_update (\<lambda>vm. map_option (\<lambda>g. wrap_i64 (int g)) (checked_add (as_u64 (gas_remaining (cf vm))) unused))
                put_gas_remaining Overflow)
            else ret ()) (\<lambda>_. True)" for ctx
  proof (rule runs_if)
    show "runs d B (- int limit) (ret ()) (\<lambda>_. True)" by (simp add: runs_ret)
    have "runs d B (- int limit) (try_update (\<lambda>vm. map_option (\<lambda>g. wrap_i64 (int g))
        (checked_add (as_u64 (gas_remaining (cf vm))) n)) put_gas_remaining Overflow) (\<lambda>_. True)" if "n \<le> limit" for n
    proof (rule runs_put_gas)
      fix vm g assume ok: "ok d vm" and B: "phi vm \<le> B"
        and g: "map_option (\<lambda>g. wrap_i64 (int g)) (checked_add (as_u64 (gas_remaining (cf vm))) n) = Some g"
      have le: "gas_remaining (cf vm) + int n < 2 ^ 63" using gas_le_phi(1) [OF ok_okf [OF ok]] B assms(1) that by linarith
      have "g = wrap_i64 (gas_remaining (cf vm) + int n)" using g gas_range [OF ok] by (auto simp: as_u64_def)
      also have "\<dots> = gas_remaining (cf vm) + int n" using le gas_range [OF ok] by (simp add: wrap_i64_id)
      finally show "0 \<le> g \<and> g < 2 ^ 63 \<and> g \<le> gas_remaining (cf vm) + int limit" using le gas_range [OF ok] that by simp
    qed
    then show "runs d B (- int limit) (bind (lift_result (ok_or (checked_sub limit (gas_used ctx)) (internal Underflow)))
        (\<lambda>unused. try_update (\<lambda>vm. map_option (\<lambda>g. wrap_i64 (int g)) (checked_add (as_u64 (gas_remaining (cf vm))) unused))
          put_gas_remaining Overflow)) (\<lambda>_. True)"
      by (intro runs_bind0 [OF runs_lift_result]) auto
  qed
  have rest: "runs d B' 0 (bind (on_memory (store_data ro (take rs (ctx_output ctx)))) (\<lambda>_.
      bind (modify_frame (\<lambda>c. c \<lparr> sub_return_data := ctx_output ctx \<rparr>)) (\<lambda>_.
      bind (on_stack (push (if ctx_is_success ctx then SUCCESS else FAIL))) (\<lambda>_.
      bind (refund_new_account_state_gas (charged \<and> \<not> ctx_is_success ctx)) (\<lambda>_.
      continue (if transfers \<and> ctx_is_success ctx
        then bind (transfer sender to' value) (\<lambda>_.
          bind (gets vm_fork) (\<lambda>f. log_transfer (f \<ge> Amsterdam \<and> value \<noteq> 0 \<and> sender \<noteq> to') sender to' value))
        else ret ())))))) (\<lambda>_. True)" for ctx B'
    unfolding continue_def by (rule frame_rules | use assms(2,3) in simp)+
  show ?thesis
    unfolding call_precompile_def e prod.case Let_def
    by (rule runs_bind0 [OF runs_lift_result [OF handle_precompile_result_cases]],
        rule runs_bind [OF give rest, simplified])
qed

section \<open>Entering a frame\<close>

definition fresh_frame :: "nat \<Rightarrow> VM \<Rightarrow> CallFrame \<Rightarrow> bool" where
  "fresh_frame limit vm c \<longleftrightarrow> frame_ok 0 c \<and> gas_remaining c = int limit \<and>
     memory c = next_memory (mem_buffer vm, memory (cf vm)) \<and> state_gas_used_at_entry c = state_gas_used vm \<and>
     frame_state_gas_spilled c = 0"

lemma enter_ok:
  assumes ok: "ok (0, 0) vm" and room: "room vm" and c: "fresh_frame limit vm c"
  shows "ok (0, 0) (add_callframe c vm)" "phi (add_callframe c vm) = phi vm + int limit"
proof -
  let ?vm = "add_callframe c vm"
  have frames: "frames_of ?vm = c # frames_of vm" by (simp add: add_callframe_def)
  from ok obtain x xs where rel: "frames_rel (mem_buffer vm, memory (cf vm), map memory (rev (call_frames vm))) (x, xs)"
    and len: "length x \<le> 2 ^ 34" "\<forall>y \<in> set xs. length y \<le> 2 ^ 34" and b: "length (mem_buffer vm) \<le> 2 ^ 62"
    by (auto simp: ok_def okf_def mem_ok_def)
  then have "frames_rel (mem_buffer vm, memory c, map memory (frames_of vm)) ([], x # xs)"
    using c mem_rel_next_memory [of "mem_buffer vm"] by (auto simp: frames_rel_def fresh_frame_def)
  moreover have "current_base (memory c) = length (mem_buffer vm)" using c by (simp add: fresh_frame_def next_memory_def)
  ultimately have mem: "mem_ok ?vm" unfolding mem_ok_def frames
    using len b room by (intro conjI exI [of _ "[]"] exI [of _ "x # xs"]) (auto simp: add_callframe_def room_def)
  have "ledger (owed vm) (frames_of vm)" using ok by (simp add: ok_def okf_def)
  then have "ledger (owed vm) (frames_of ?vm)" unfolding frames using c by (simp add: fresh_frame_def)
  moreover have "list_all (\<lambda>f. frame_ok 32 f \<and> 0 \<le> gas_remaining f) (call_frames ?vm)"
    using ok by (auto simp: ok_def okf_def add_callframe_def frame_ok_def)
  ultimately show "ok (0, 0) ?vm" using ok c mem
    by (simp add: ok_def okf_def fresh_frame_def frames add_callframe_def)
  show "phi ?vm = phi vm + int limit" unfolding phi_def frames using c by (simp add: fresh_frame_def add_callframe_def)
qed

lemma steps_enter:
  assumes c: "\<And>vm. ok (0, 0) vm \<Longrightarrow> fresh_frame limit vm (c vm)"
    and tail: "\<And>x B. runs (0, 0) B 0 (tail x) (\<lambda>_. True)"
  shows "steps B (- int limit - 1) (\<lambda>vm. bind (enter_frame (c vm)) tail vm)"
proof (rule stepsI)
  fix vm assume ok: "ok (0, 0) vm" and room: "room vm"
  let ?vm = "add_callframe (c vm) vm"
  note e = enter_ok [OF ok room c [OF ok]]
  obtain r vm' where t: "tail () ?vm = (r, vm')" by (cases "tail () ?vm")
  from runsD [OF tail e(1) order_refl] have "outcome (0, 0) ?vm 0 (\<lambda>_. True) (r, vm')" by (simp add: t)
  then show "stepped vm (- int limit - 1) (bind (enter_frame (c vm)) tail vm)"
  proof (cases rule: outcome_cases)
    case (1 x)
    have "entered vm vm'"
      using 1(3) c [OF ok] by (auto simp: kept_def entered_def add_callframe_def fresh_frame_def next_memory_def)
    then show ?thesis using 1 e(2) ok_slack [OF 1(2)] by (cases x) (simp_all add: enter_frame_def t stepped_def moved_def)
  next
    case (3 err)
    have "entered vm vm'"
      using 3(3) c [OF ok] by (auto simp: kept_def entered_def add_callframe_def fresh_frame_def next_memory_def)
    then show ?thesis using 3 e(2) okf_slack [OF 3(2)] ok_slack [of 0 vm']
      by (simp add: enter_frame_def t stepped_def moved_def)
  qed (simp add: enter_frame_def t stepped_def)
qed

lemma runs_take_stack: "runs d B 0 take_stack stack_ok"
proof (rule runsI)
  fix vm assume ok: "ok d vm"
  then have pool: "list_all (\<lambda>s. length (vals s) = STACK_LIMIT) (stack_pool vm)" by (simp add: ok_def okf_def)
  show "outcome d vm 0 stack_ok (take_stack vm)"
  proof (cases "stack_pool vm = []")
    case True
    with ok show ?thesis by (simp add: take_stack_def stack_clear_def stack_default_def stack_ok_def)
  next
    case False
    with pool have "length (vals (last (stack_pool vm))) = STACK_LIMIT"
      "list_all (\<lambda>s. length (vals s) = STACK_LIMIT) (butlast (stack_pool vm))"
      by (auto simp: list_all_iff dest: in_set_butlastD)
    with False ok show ?thesis
      by (simp add: take_stack_def stack_clear_def stack_ok_def ok_def okf_def kept_def phi_def mem_ok_def)
  qed
qed

lemma fresh_CallFrame_new:
  assumes "ok (0, 0) vm" "stack_ok st" "code_wf code" "limit < 2 ^ 63" "ro < 2 ^ 32" "rs < 2 ^ 32"
  shows "fresh_frame limit vm ((CallFrame_new sender to' ca code value data static limit dep tr cr ro rs st
    (next_memory (mem_buffer vm, memory (cf vm)))) \<lparr> state_gas_used_at_entry := state_gas_used vm, target_alive := al,
      new_account_state_gas_charged := na \<rparr>)"
  using assms by (simp add: fresh_frame_def CallFrame_new_def frame_ok_def wrap_i64_id)

lemma steps_enter_call:
  assumes "code_wf code" "limit < 2 ^ 63" "ro < 2 ^ 32" "rs < 2 ^ 32"
  shows "steps B (- int limit - 1)
    (enter_call limit value sender to' ca transfers static data ro rs code charged dep)"
  unfolding enter_call_def
proof (rule steps_bind0 [OF runs_take_stack])
  fix st assume st: "stack_ok st"
  define tail where "tail = (\<lambda>_ :: unit. bind (if transfers then transfer sender to' value else ret ()) (\<lambda>_.
     bind (modify (\<lambda>vm. vm \<lparr> substate := push_backup (substate vm) \<rparr>)) (\<lambda>_.
     bind (gets vm_fork) (\<lambda>f.
     continue (log_transfer (transfers \<and> f \<ge> Amsterdam \<and> value \<noteq> 0 \<and> sender \<noteq> to') sender to' value)))))"
  have "runs (0, 0) B' 0 (tail x) (\<lambda>_. True)" for x B'
    unfolding tail_def continue_def by (rule frame_rules | simp)+
  then have "steps B (- int limit - 1) (\<lambda>vm. bind (enter_frame ((CallFrame_new sender to' ca code value data static
      limit dep transfers False ro rs st (next_memory (mem_buffer vm, memory (cf vm))))
      \<lparr> state_gas_used_at_entry := state_gas_used vm, new_account_state_gas_charged := charged \<rparr>)) tail vm)"
    using fresh_CallFrame_new [OF _ st assms, where al = False] by (intro steps_enter) (simp_all add: CallFrame_new_def)
  then show "steps B (- int limit - 1) (bind (gets (\<lambda>vm. next_memory (mem_buffer vm, memory (cf vm)))) (\<lambda>mem.
     bind (gets (\<lambda>vm. (CallFrame_new sender to' ca code value data static limit dep transfers False ro rs st mem)
         \<lparr> state_gas_used_at_entry := state_gas_used vm, new_account_state_gas_charged := charged \<rparr>))
       (\<lambda>new_call_frame.
     bind (enter_frame new_call_frame) (\<lambda>_.
     bind (if transfers then transfer sender to' value else ret ()) (\<lambda>_.
     bind (modify (\<lambda>vm. vm \<lparr> substate := push_backup (substate vm) \<rparr>)) (\<lambda>_.
     bind (gets vm_fork) (\<lambda>f.
     continue (log_transfer (transfers \<and> f \<ge> Amsterdam \<and> value \<noteq> 0 \<and> sender \<noteq> to') sender to' value))))))))"
    by (simp add: steps_def tail_def)
qed

lemma steps_read:
  assumes "\<And>vm. ok (0, 0) vm \<Longrightarrow> sound (g vm)" "\<And>vm x. ok (0, 0) vm \<Longrightarrow> g vm = Inr x \<Longrightarrow> Q x"
    "\<And>x. Q x \<Longrightarrow> steps B k (f x)"
  shows "steps B k (bind (\<lambda>vm. (g vm, vm)) f)"
  using assms by (intro steps_bind0 [OF runs_read [where Q = Q]])

lemma steps_generic_call:
  assumes "code_wf code" "B + int limit < 2 ^ 63" "limit < 2 ^ 63" "ro < 2 ^ 32" "rs < 2 ^ 32"
  shows "steps B (- int limit - 1)
    (generic_call limit value sender to' ca transfers static data ro rs code delegated charged)"
proof -
  note enter = steps_enter_call [OF assms(1,3-5)]
  have revert: "steps B (- int limit - 1)
      (bind (refund_new_account_state_gas charged) (\<lambda>_. early_revert_message_call limit))"
    by (rule steps_weaken [OF steps_runs [OF runs_bind0 [OF runs_refund_new_account_state_gas runs_early_revert]]
        order_refl]) (use assms(3) in simp_all)
  have pre: "steps B (- int limit - 1) (call_precompile execute limit value sender to' transfers data ro rs charged)"
    for execute
    by (rule steps_weaken [OF steps_runs [OF runs_call_precompile] order_refl]) (use assms in simp_all)
  have fund: "runs (0, 0) B 0 (if transfers \<and> value \<noteq> 0
      then bind (on_db (get_account sender)) (\<lambda>acc. ret (balance (info acc) < value)) else ret False) (\<lambda>_. True)"
    by (rule frame_rules | simp)+
  show ?thesis
    unfolding generic_call_def
    by (rule steps_bind0 [OF runs_return_data], rule steps_bind0 [OF fund])
      (auto intro!: revert enter pre steps_read [where Q = "\<lambda>_. True"] steps_gets split: option.split)
qed

section \<open>Message calls\<close>

lemma check_gas_sound [simp]: "sound (check_gas g c)"
  by (simp add: check_gas_def)

lemma runs_check_call_static_gas:
  assumes "ao < 2 ^ 32" "al < 2 ^ 32" "ro < 2 ^ 32" "rl < 2 ^ 32"
  shows "runs d B 0 (check_call_static_gas ao al ro rl a v) (\<lambda>(n, _, _). n \<le> 2 ^ 33 + 64)"
  unfolding check_call_static_gas_def Let_def
proof (rule seq_memory_size [OF assms(1,2)], rule seq_memory_size [OF assms(3,4)])
  fix n m :: nat assume n: "n \<le> 2 ^ 33 + 64" and m: "m \<le> 2 ^ 33 + 64"
  show "runs d B 0 (bind (gets (\<lambda>vm. \<not> is_address_accessed (substate vm) a)) (\<lambda>address_was_cold.
     bind (gets (\<lambda>vm. expansion_cost (max n m) (mem_len (memory (cf vm))))) (\<lambda>memory_expansion_cost.
     bind (gets (\<lambda>vm. if address_was_cold then cold_account_access_cost (vm_fork vm)
         else WARM_ADDRESS_ACCESS_COST_GAS)) (\<lambda>access_gas_cost.
     bind (lift_result (and_then (or_out_of_gas (checked_add memory_expansion_cost access_gas_cost)) (\<lambda>c.
       or_out_of_gas (checked_add c v)))) (\<lambda>static_cost.
     bind (\<lambda>vm. (check_gas static_cost (cf vm), vm)) (\<lambda>_.
     ret (max n m, address_was_cold, static_cost))))))) (\<lambda>(n, _, _). n \<le> 2 ^ 33 + 64)"
    by (intro seq_gets runs_bind0 [OF runs_lift_result] runs_bind0 [OF runs_read [where Q = "\<lambda>_. True"]] runs_ret)
      (use n m in auto)
qed

lemma runs_resolve_code: "runs d B 0 (resolve_code a st) (\<lambda>(code, _). code_wf code)"
proof -
  have auth: "sound (get_authorized_address_from_code c)" for c
    by (simp add: get_authorized_address_from_code_def)
  have peek: "runs d B 0 (eip7702_peek_delegation a) (\<lambda>(code, _). code_wf code)"
    unfolding eip7702_peek_delegation_def
    by (rule seq_account_code, rule runs_if, simp add: runs_ret)
      (rule runs_bind0 [OF runs_lift_result [OF auth]], rule runs_gets, simp)
  show ?thesis
    unfolding resolve_code_def
  proof (rule runs_bind0 [OF peek])
    fix r :: "Code \<times> (address \<times> nat) option" assume r: "case r of (code, _) \<Rightarrow> code_wf code"
    obtain code del where "r = (code, del)" by (cases r)
    with r show "runs d B 0 (case r of (target_code, delegation) \<Rightarrow>
       case delegation of
         None \<Rightarrow> ret (target_code, False, 0, a)
       | Some (auth_address, access_cost) \<Rightarrow>
           bind (lift_result (or_out_of_gas (checked_add st access_cost))) (\<lambda>c.
           bind (\<lambda>vm. (check_gas c (cf vm), vm)) (\<lambda>_.
           bind (on_substate (add_accessed_address auth_address)) (\<lambda>_.
           bind (on_db (get_account_code auth_address)) (\<lambda>code.
           ret (code, True, access_cost, auth_address)))))) (\<lambda>(code, _). code_wf code)"
      by (auto split: option.split intro!: runs_ret runs_bind0 [OF runs_lift_result]
          runs_bind0 [OF runs_read [where Q = "\<lambda>_. True"]] runs_bind0 [OF runs_on_substate] seq_account_code)
  qed
qed

lemma runs_gas_left_after: "runs d B 0 (gas_left_after eip) (\<lambda>left. left + eip < 2 ^ 63)"
  unfolding gas_left_after_def [abs_def]
proof (rule runs_read)
  fix vm left assume ok: "ok d vm" and l: "or_out_of_gas (checked_sub (as_u64 (gas_remaining (cf vm))) eip) = Inr left"
  have "as_u64 (gas_remaining (cf vm)) < 2 ^ 63"
    using gas_range [OF ok] by (simp add: as_u64_def nat_less_iff)
  with l show "left + eip < 2 ^ 63" by auto
qed simp

lemma steps_prepare_call:
  assumes "cost + eip < 2 ^ 63" "limit + 100 \<le> cost" "\<And>x. steps (B - (int cost + int eip)) (- int limit - 1) (f x)"
  shows "steps B 1 (bind (prepare_call cost eip) f)"
proof -
  have "runs (0, 0) B (int cost + int eip) (prepare_call cost eip) (\<lambda>_. True)"
    unfolding prepare_call_def by (rule runs_charge) (use assms(1) in auto)
  from steps_bind [OF this assms(3)] have "steps B (int cost + int eip + (- int limit - 1)) (bind (prepare_call cost eip) f)"
    by simp
  then show ?thesis by (rule steps_weaken) (use assms(2) in simp_all)
qed

lemma steps_finish_call:
  assumes "code_wf code" "B < 2 ^ 63" "ro < 2 ^ 32" "rs < 2 ^ 32" "ao < 2 ^ 32" "al < 2 ^ 32" "n \<le> 2 ^ 33 + 64"
    "cost + eip < 2 ^ 63" "limit + 100 \<le> cost"
  shows "steps B 1 (bind (prepare_call cost eip) (\<lambda>_.
     bind (if needs then bind (gets state_gas_new_account) increase_state_gas else ret ()) (\<lambda>_.
     bind (on_memory (resize n)) (\<lambda>_.
     bind (get_calldata ao al) (\<lambda>data.
     bind (gets cf) (\<lambda>c.
     generic_call limit (value c) (sender c) (to' c) ca (transfers c) (static c) data ro rs code delegated charged))))))"
proof (rule steps_prepare_call [OF assms(8,9)])
  let ?B = "B - (int cost + int eip)"
  have B: "?B + int limit < 2 ^ 63" and l: "limit < 2 ^ 63" using assms(2,8,9) by simp_all
  have sg: "runs (0, 0) ?B 0 (if needs then bind (gets state_gas_new_account) increase_state_gas else ret ()) (\<lambda>_. True)"
    by (rule frame_rules | simp)+
  show "steps ?B (- int limit - 1)
     (bind (if needs then bind (gets state_gas_new_account) increase_state_gas else ret ()) (\<lambda>_.
     bind (on_memory (resize n)) (\<lambda>_.
     bind (get_calldata ao al) (\<lambda>data.
     bind (gets cf) (\<lambda>c.
     generic_call limit (value c) (sender c) (to' c) ca (transfers c) (static c) data ro rs code delegated charged)))))"
    unfolding get_calldata_def
    by (rule steps_bind0 [OF sg], rule steps_bind0 [OF runs_on_memory [OF mem_safe_resize [OF assms(7)]]],
        rule steps_bind0 [OF runs_on_memory [OF mem_safe_load_range]])
      (use assms(1,3-6) B l in \<open>auto intro!: steps_gets steps_generic_call\<close>)
qed

lemmas steps_finish_plain = steps_finish_call [where needs = False, unfolded if_False bind_ret]

lemma steps_size_offset:
  assumes "\<And>n k. n < 2 ^ 32 \<Longrightarrow> k < 2 ^ 32 \<Longrightarrow> steps B c (f (n, k))"
  shows "steps B c (bind (lift_result (size_offset_to_usize s off)) f)"
proof (rule steps_lift)
  show "sound (size_offset_to_usize s off)"
    by (auto simp: size_offset_to_usize_def u256_to_usize_eq)
  fix x assume "size_offset_to_usize s off = Inr x"
  with assms show "steps B c (f x)" using size_offset_to_usize_bound [of s off] by (cases x) fastforce
qed

lemma steps_memory_size:
  assumes "off < 2 ^ 32" "sz < 2 ^ 32" "\<And>n. n \<le> 2 ^ 33 + 64 \<Longrightarrow> steps B c (f n)"
  shows "steps B c (bind (lift_result (calculate_memory_size off sz)) f)"
proof (rule steps_lift)
  note e = calculate_memory_size_eq(1) [OF assms(1,2)]
  show "sound (calculate_memory_size off sz)" by (simp add: e)
  fix x assume "calculate_memory_size off sz = Inr x"
  then show "steps B c (f x)"
    using e next_multiple_of_less [of 32 "off + sz"] assms by (intro assms(3)) (auto split: if_splits)
qed

lemma steps_check_call:
  assumes "ao < 2 ^ 32" "al < 2 ^ 32" "ro < 2 ^ 32" "rl < 2 ^ 32" "\<And>n c st. n \<le> 2 ^ 33 + 64 \<Longrightarrow> steps B k (f (n, c, st))"
  shows "steps B k (bind (check_call_static_gas ao al ro rl a v) f)"
  by (rule steps_bind0 [OF runs_check_call_static_gas [OF assms(1-4)]]) (use assms(5) in auto)

lemma steps_resolve_code:
  assumes "\<And>code del eip ca. code_wf code \<Longrightarrow> steps B k (f (code, del, eip, ca))"
  shows "steps B k (bind (resolve_code a st) f)"
  by (rule steps_bind0 [OF runs_resolve_code]) (use assms in auto)

lemma steps_gas_left:
  "(\<And>left. left + eip < 2 ^ 63 \<Longrightarrow> steps B k (f left)) \<Longrightarrow> steps B k (bind (gas_left_after eip) f)"
  by (rule steps_bind0 [OF runs_gas_left_after])

lemma steps_call_cost:
  assumes "\<And>m. m \<le> 2 ^ 34 \<Longrightarrow> call_cost_ok left (g m)"
    "\<And>cost limit. limit + 100 \<le> cost \<Longrightarrow> cost \<le> left \<Longrightarrow> steps B k (f (cost, limit))"
  shows "steps B k (bind (\<lambda>vm. (g (mem_len (memory (cf vm))), vm)) f)"
proof (rule steps_read [where Q = "\<lambda>(cost, limit). limit + 100 \<le> cost \<and> cost \<le> left"])
  fix vm assume "ok (0, 0) vm"
  then have c: "call_cost_ok left (g (mem_len (memory (cf vm))))" by (intro assms(1) mem_len_le)
  then show "sound (g (mem_len (memory (cf vm))))" by (simp add: call_cost_ok_def)
  fix x assume "g (mem_len (memory (cf vm))) = Inr x"
  with c show "case x of (cost, limit) \<Rightarrow> limit + 100 \<le> cost \<and> cost \<le> left" by (cases x) (simp add: call_cost_ok_def)
qed (use assms(2) in auto)

lemma steps_prod: "steps B k (f a b) \<Longrightarrow> steps B k (case (a, b) of (x, y) \<Rightarrow> f x y)"
  by simp

lemma steps_if_bind:
  "(b \<Longrightarrow> runs (0, 0) B 0 m (\<lambda>_. True)) \<Longrightarrow> (\<not> b \<Longrightarrow> runs (0, 0) B 0 m' (\<lambda>_. True)) \<Longrightarrow> (\<And>x. steps B k (f x)) \<Longrightarrow>
    steps B k (bind (if b then m else m') f)"
  by (rule steps_bind0 [where Q = "\<lambda>_. True"]) simp_all

lemmas call_rules = steps_size_offset steps_memory_size steps_check_call steps_resolve_code steps_gas_left steps_prod
  steps_if_bind steps_on_stack steps_gets steps_frame

lemma steps_call:
  assumes B: "B < 2 ^ 63"
  shows "steps B 1 OpCallHandler"
proof -
  note cost = steps_call_cost [OF call_cost_memory(1)]
  have left: "runs (0, 0) B 0 (if needs then (\<lambda>vm. (or_out_of_gas (checked_sub left
             (state_gas_new_account vm - min (state_gas_reservoir vm) (state_gas_new_account vm))), vm))
           else ret left) (\<lambda>l. l \<le> left)" for needs left
    by (rule runs_if) (auto intro!: runs_ret runs_read)
  show ?thesis
    unfolding OpCallHandler_def Let_def
    by (rule steps_bind0 [OF left] | rule cost | rule steps_finish_call | rule call_rules | rule frame_rules | assumption
        | use B in simp)+
qed

lemma steps_other_calls:
  assumes B: "B < 2 ^ 63"
  shows "steps B 1 OpCallCodeHandler" "steps B 1 OpDelegateCallHandler" "steps B 1 OpStaticCallHandler"
proof -
  note cost = steps_call_cost [OF call_cost_memory(2)] steps_call_cost [OF call_cost_memory(3)]
    steps_call_cost [OF call_cost_memory(4)]
  show "steps B 1 OpCallCodeHandler" "steps B 1 OpDelegateCallHandler" "steps B 1 OpStaticCallHandler"
    unfolding OpCallCodeHandler_def OpDelegateCallHandler_def OpStaticCallHandler_def Let_def
    by (rule cost | rule steps_finish_plain | rule call_rules | rule frame_rules | assumption | use B in simp)+
qed

section \<open>Creation\<close>

lemma code_wf_from_parts:
  assumes "length code < 2 ^ 62"
  shows "code_wf (from_parts_unchecked h code (compute_jumpdests target code))"
proof -
  let ?c = "from_parts_unchecked h code (compute_jumpdests target code)"
  have "is_valid_jumpdest ?c t = bitmap_bit (compute_jumpdests target code) t" for t
    by (simp add: from_parts_unchecked_def is_valid_jumpdest_def bitmap_bit_def and_push_bit del: push_bit_of_1)
  then have "is_valid_jumpdest ?c t \<longrightarrow> t < length code" for t
    using compute_jumpdests_ok [of code target t] assms by (simp add: valid_dest_def)
  then show ?thesis using assms by (simp add: code_wf_def from_parts_unchecked_def nth_append BYTECODE_PADDING_def)
qed

lemma steps_enter_create:
  assumes "length code < 2 ^ 32" "limit < 2 ^ 63"
  shows "steps B (- int limit - 1) (enter_create deployer new_address code value limit dep alive)"
  unfolding enter_create_def
proof (rule steps_bind0 [OF runs_take_stack])
  fix st assume st: "stack_ok st"
  define tail where "tail = (\<lambda>_ :: unit. bind (increment_account_nonce new_address) (\<lambda>_.
     bind (transfer deployer new_address value) (\<lambda>_.
     bind (modify (\<lambda>vm. vm \<lparr> substate := push_backup (substate vm) \<rparr>)) (\<lambda>_.
     bind (on_substate (add_created_account new_address)) (\<lambda>_.
     bind (gets vm_fork) (\<lambda>f.
     continue (log_transfer (f \<ge> Amsterdam \<and> value \<noteq> 0) deployer new_address value)))))))"
  have wf: "code_wf (from_bytecode_unchecked t code 0)" for t
    unfolding from_bytecode_unchecked_def using assms(1) by (intro code_wf_from_parts) simp
  have "runs (0, 0) B' 0 (tail x) (\<lambda>_. True)" for x B'
    unfolding tail_def continue_def by (rule frame_rules | simp)+
  then have "steps B (- int limit - 1) (\<lambda>vm. bind (enter_frame ((CallFrame_new deployer new_address new_address
      (from_bytecode_unchecked (host_target vm) code 0) value [] False limit dep True True 0 0 st
        (next_memory (mem_buffer vm, memory (cf vm))))
      \<lparr> state_gas_used_at_entry := state_gas_used vm, target_alive := alive \<rparr>)) tail vm)"
    using fresh_CallFrame_new [OF _ st wf assms(2), where ro = 0 and rs = 0 and na = False]
    by (intro steps_enter) (simp_all add: CallFrame_new_def)
  then show "steps B (- int limit - 1) (bind (gets (\<lambda>vm. next_memory (mem_buffer vm, memory (cf vm)))) (\<lambda>mem.
     bind (gets (\<lambda>vm. (CallFrame_new deployer new_address new_address
         (from_bytecode_unchecked (host_target vm) code 0) value [] False limit dep True True 0 0 st mem)
         \<lparr> state_gas_used_at_entry := state_gas_used vm, target_alive := alive \<rparr>)) (\<lambda>new_call_frame.
     bind (enter_frame new_call_frame) (\<lambda>_.
     bind (increment_account_nonce new_address) (\<lambda>_.
     bind (transfer deployer new_address value) (\<lambda>_.
     bind (modify (\<lambda>vm. vm \<lparr> substate := push_backup (substate vm) \<rparr>)) (\<lambda>_.
     bind (on_substate (add_created_account new_address)) (\<lambda>_.
     bind (gets vm_fork) (\<lambda>f.
     continue (log_transfer (f \<ge> Amsterdam \<and> value \<noteq> 0) deployer new_address value))))))))))"
    by (simp add: steps_def tail_def)
qed

text \<open>All but a 64th of the gas goes to the new frame.\<close>

lemma max_message_call_gas_eq:
  assumes "0 \<le> g" "g < 2 ^ 63"
  shows "max_message_call_gas g = Inr (nat (g - g div 64))" "nat (g - g div 64) < 2 ^ 63"
proof -
  have q: "0 \<le> g div 64" "64 * (g div 64) + g mod 64 = g" "0 \<le> g mod 64"
    using assms by (simp_all add: pos_imp_zdiv_nonneg_iff)
  then have d: "0 \<le> g - g div 64" "g - g div 64 \<le> g" by linarith+
  have "g - sgn g * (\<bar>g\<bar> div 64) = g - g div 64" using assms by (simp add: sgn_if)
  then have "max_message_call_gas g = Inr (nat (wrap_i64 (g - g div 64) mod 2 ^ 64))"
    by (simp only: max_message_call_gas_def Let_def)
  with d assms show "max_message_call_gas g = Inr (nat (g - g div 64))" "nat (g - g div 64) < 2 ^ 63"
    by (simp_all add: wrap_i64_id)
qed

lemma seq_message_gas:
  assumes "\<And>limit. limit < 2 ^ 63 \<Longrightarrow> steps B k (f limit)"
  shows "steps B k (bind (\<lambda>vm. (max_message_call_gas (gas_remaining (cf vm)), vm)) f)"
  by (rule steps_read [where Q = "\<lambda>limit. limit < 2 ^ 63"])
    (use assms gas_range max_message_call_gas_eq in \<open>auto dest!: gas_range\<close>)

lemma steps_create_frame:
  assumes "limit < 2 ^ 63" "length code < 2 ^ 32"
  shows "steps B (- 1) (bind (on_frame (increase_consumed_gas limit)) (\<lambda>_.
     bind (increment_account_nonce deployer) (\<lambda>_.
     bind (get_account_mut new_address (\<lambda>acc. acc)) (\<lambda>new_account.
     if create_would_collide new_account then
       bind (if b then bind (gets state_gas_new_account) credit_state_gas_refund else ret ()) (\<lambda>_. push_fail)
     else enter_create deployer new_address code value limit new_depth alive))))"
proof -
  have fail: "steps (B - int limit) (- int limit - 1)
      (bind (if b then bind (gets state_gas_new_account) credit_state_gas_refund else ret ()) (\<lambda>_. push_fail))"
    by (rule steps_weaken [OF steps_runs order_refl, of _ 0]) (rule frame_rules runs_push_fail | simp)+
  have "steps (B - int limit) (- int limit - 1) (bind (increment_account_nonce deployer) (\<lambda>_.
     bind (get_account_mut new_address (\<lambda>acc. acc)) (\<lambda>new_account.
     if create_would_collide new_account then
       bind (if b then bind (gets state_gas_new_account) credit_state_gas_refund else ret ()) (\<lambda>_. push_fail)
     else enter_create deployer new_address code value limit new_depth alive)))"
    by (rule steps_bind0 [OF runs_increment_account_nonce], rule steps_bind0 [OF runs_get_account_mut])
      (use assms in \<open>simp add: fail steps_enter_create\<close>)
  from steps_bind [OF runs_increase_consumed_gas [of "int limit" limit] this] assms(1) show ?thesis by simp
qed

lemma runs_push_fail_after:
  "steps B (- 1) (bind (\<lambda>vm. (max_message_call_gas (gas_remaining (cf vm)), vm)) (\<lambda>_. push_fail))"
  by (rule seq_message_gas, rule steps_weaken [OF steps_runs [OF runs_push_fail] order_refl]) simp

lemma steps_generic_create:
  assumes "off < 2 ^ 32" "sz < 2 ^ 32"
  shows "steps B (- 1) (generic_create value off sz salt)"
proof -
  note depth = steps_read [where g = "\<lambda>vm. ok_or (checked_add (depth (cf vm)) 1) (internal Overflow)" and Q = "\<lambda>_. True"]
  note load = steps_bind0 [OF runs_on_memory [OF mem_safe_load_range [of off sz]]]
  show ?thesis
    unfolding generic_create_def Let_def
    by (rule steps_gets, rule steps_frame, rule steps_frame, rule steps_frame, rule load, use assms in simp,
        rule steps_gets, rule steps_frame, rule steps_gets, rule depth, simp, simp, simp only: if_split,
        intro conjI impI, rule runs_push_fail_after, rule steps_frame, rule steps_frame, rule steps_if_bind,
        rule frame_rules, simp add: runs_ret, rule seq_message_gas, rule steps_create_frame)
      (use assms in simp_all)
qed

lemma create_cost:
  assumes "n \<le> 2 ^ 34" "c \<le> 2 ^ 34" "sz < 2 ^ 32"
  shows "\<exists>g. gas_create n c sz f = Inr g \<and> 2 \<le> g \<and> g < 2 ^ 62" "\<exists>g. gas_create_2 n c sz f = Inr g \<and> 2 \<le> g \<and> g < 2 ^ 62"
  using create_exact [OF assms(1,2), of sz] grow_bound [OF assms(1,2)] words_le [of sz] assms(3)
  by (auto simp: gas_create_def gas_create_2_def)

lemma steps_charge_create:
  assumes "\<And>c. c \<le> 2 ^ 34 \<Longrightarrow> \<exists>g. cost c = Inr g \<and> 2 \<le> g \<and> g < 2 ^ 62" "\<And>x B. steps B (- 1) (f x)"
  shows "steps B 1 (bind (charge_with cost) f)"
proof -
  have "runs (0, 0) B 2 (charge_with cost) (\<lambda>_. True)"
    by (rule runs_charge_with) (use assms(1) in fastforce)+
  from steps_bind [OF this assms(2)] show ?thesis by simp
qed

lemma steps_creates: "steps B 1 OpCreateHandler" "steps B 1 OpCreate2Handler"
proof -
  have static: "runs (0, 0) B' 0 create_static (\<lambda>_. True)" for B'
    unfolding create_static_def [abs_def] by (rule runs_guard)
  note charge = steps_charge_create [OF create_cost(1)] steps_charge_create [OF create_cost(2)]
  show "steps B 1 OpCreateHandler" "steps B 1 OpCreate2Handler"
    unfolding OpCreateHandler_def OpCreate2Handler_def pop3_def pop4_def
    by (rule steps_bind0 [OF static] | rule charge | rule steps_generic_create | rule call_rules | assumption | simp)+
qed

section \<open>Self-destruction\<close>

lemma runs_zero_balance: "runs d B 0 (zero_balance a) (\<lambda>_. True)"
  unfolding zero_balance_def by (rule frame_rules | simp)+

lemma runs_selfdestruct_effects: "runs d B 0 (selfdestruct_effects f a b v) (\<lambda>_. True)"
  unfolding selfdestruct_effects_def
  by (rule frame_rules | rule runs_zero_balance [THEN runs_bind0] | rule runs_zero_balance | simp)+

lemma runs_selfdestruct: "runs d B 0 OpSelfDestructHandler (\<lambda>r. r = Halt)"
proof -
  have base: "runs d B 0 (bind (lift_result (selfdestruct_base cold f)) (\<lambda>base_cost vm.
      guard_err (gas_remaining (cf vm) < wrap_i64 (int base_cost)) (halt OutOfGas) vm)) (\<lambda>_. True)" for cold f
    by (rule runs_bind0 [OF runs_lift_result], simp add: selfdestruct_base_def, rule runs_guard)
  show ?thesis
    unfolding OpSelfDestructHandler_def Let_def
    by (rule base | rule runs_selfdestruct_effects [THEN runs_bind0] | rule frame_rules | simp add: fair_selfdestruct)+
qed

end
