(* ===== verification/Evm_Settle.thy ===== *)
theory Evm_Settle
  imports Evm_Safe_Calls
begin

text \<open>
  What happens when the code of a frame is finished: its result (\<open>handle_opcode_result\<close>, \<open>handle_opcode_error\<close>) and the
  return to the caller (\<open>handle_return\<close>).  The gas that is left goes to the caller, the state gas of a failed frame goes back to the
  reservoir, and the machine the caller goes on with is well formed.
\<close>

section \<open>Results of a frame\<close>

definition settles :: "nat \<Rightarrow> VM \<Rightarrow> (vm_fail + ContextResult) \<times> VM \<Rightarrow> bool" where
  "settles p vm r \<longleftrightarrow>
     (case r of
        (Inr ctx, vm') \<Rightarrow> ok (0, p) vm' \<and> kept vm vm' \<and> phi vm' \<le> phi vm \<and>
          int (gas_used ctx) + gas_remaining (cf vm') = int (gas_limit (cf vm'))
      | (Inl e, vm') \<Rightarrow> \<exists>e'. e = VmErr e')"

lemma settles_after: "kept vm vm1 \<Longrightarrow> phi vm1 \<le> phi vm \<Longrightarrow> settles p vm1 r \<Longrightarrow> settles p vm r"
  using kept_trans [of vm vm1] by (auto simp: settles_def split: sum.splits prod.splits)

lemma frame_gas_used_cases:
  assumes "ok d vm"
  obtains (used) n where "frame_gas_used vm = (Inr n, vm)" "int n + gas_remaining (cf vm) = int (gas_limit (cf vm))"
  | (underflow) "frame_gas_used vm = (Inl (internal Underflow), vm)"
proof -
  have g: "as_u64 (gas_remaining (cf vm)) = nat (gas_remaining (cf vm))" using gas_range [OF assms] by (simp add: as_u64_def)
  show thesis
  proof (cases "nat (gas_remaining (cf vm)) \<le> gas_limit (cf vm)")
    case True
    then show thesis using g gas_range [OF assms]
      by (intro used [of "gas_limit (cf vm) - nat (gas_remaining (cf vm))"])
        (simp_all add: frame_gas_used_def checked_sub_def of_nat_diff)
  qed (use g underflow in \<open>simp add: frame_gas_used_def checked_sub_def\<close>)
qed

text \<open>The two ends a context result is made with: with the output of the frame, or without.\<close>

lemma settles_finish:
  assumes ok: "ok (0, p) vm"
  shows "settles p vm (bind frame_gas_used (\<lambda>used. bind take_output (\<lambda>out.
    ret \<lparr> ctx_result = r, gas_used = used, gas_spent = used, ctx_output = out \<rparr>)) vm)"
    "settles p vm (bind frame_gas_used (\<lambda>used.
      ret \<lparr> ctx_result = r, gas_used = used, gas_spent = used, ctx_output = [] \<rparr>) vm)"
proof -
  let ?c = "(cf vm) \<lparr> frame_output := [] \<rparr>"
  have "frame_ok p ?c" using ok by (simp add: ok_def okf_def frame_ok_def)
  with update_frame [OF ok_okf [OF ok], of ?c] ok
  have "ok (0, p) (vm \<lparr> current_call_frame := ?c \<rparr>)" "kept vm (vm \<lparr> current_call_frame := ?c \<rparr>)"
    "phi (vm \<lparr> current_call_frame := ?c \<rparr>) = phi vm" by (simp_all add: ok_def alike_def)
  then show "settles p vm (bind frame_gas_used (\<lambda>used. bind take_output (\<lambda>out.
    ret \<lparr> ctx_result = r, gas_used = used, gas_spent = used, ctx_output = out \<rparr>)) vm)"
    by (cases rule: frame_gas_used_cases [OF ok]) (simp_all add: bind_def take_output_def settles_def)
  show "settles p vm (bind frame_gas_used (\<lambda>used.
      ret \<lparr> ctx_result = r, gas_used = used, gas_spent = used, ctx_output = [] \<rparr>) vm)"
    by (cases rule: frame_gas_used_cases [OF ok]) (use ok in \<open>simp_all add: bind_def settles_def\<close>)
qed

lemma refill_from_amsterdam_cases:
  assumes okf: "okf (0, p) vm"
  obtains (refilled) vm' where "refill_from_amsterdam vm = (Inr (), vm')" "okf (0, p) vm'" "kept vm vm'" "phi vm' \<le> phi vm"
      "ok (0, p) vm \<Longrightarrow> ok (0, p) vm'"
  | (failed) e vm' where "refill_from_amsterdam vm = (Inl (VmErr e), vm')"
proof (cases "vm_fork vm \<ge> Amsterdam")
  case False
  then show thesis using okf by (intro refilled [of vm]) (simp_all add: refill_from_amsterdam_def)
next
  case True
  let ?r = "refill_frame_state_gas (state_gas_used_at_entry (cf vm)) vm"
  have e: "refill_from_amsterdam vm = ?r" using True by (simp add: refill_from_amsterdam_def)
  show thesis
  proof (cases ?r)
    case (Pair r vm')
    show thesis
    proof (cases r)
      case (Inl x)
      then show thesis using refill_sound [of "state_gas_used_at_entry (cf vm)" vm] Pair e failed
        by (auto dest!: sound_Inl)
    next
      case (Inr x)
      note x = refill_exact [OF okf Pair [unfolded Inr]]
      have low: "- (2 ^ 63) \<le> gas_remaining (cf vm)" using okf by (simp add: okf_def)
      note g = regas [OF x(1) okf] 
      have "okf (0, p) vm'" "kept vm vm'" "phi vm' \<le> phi vm" using g x(2-6) low by simp_all
      then show thesis using x(2) Pair Inr e by (intro refilled [of vm']) (simp_all add: ok_def)
    qed
  qed
qed

lemma put_zero_gas:
  assumes "okf d vm"
  shows "ok d (put_gas_remaining 0 vm)" "kept vm (put_gas_remaining 0 vm)" "phi (put_gas_remaining 0 vm) \<le> phi vm"
  using regas [of vm "put_gas_remaining 0 vm" d] assms by (simp_all add: regassed_def ok_def)

lemma settles_error:
  assumes okf: "okf (0, p) vm" and rev: "is_revert_opcode e \<Longrightarrow> ok (0, p) vm"
  shows "settles p vm (handle_opcode_error e vm)"
proof (cases "should_propagate e")
  case True
  then show ?thesis by (simp add: handle_opcode_error_def settles_def)
next
  case False
  from okf show ?thesis
  proof (cases rule: refill_from_amsterdam_cases)
    case (refilled vm')
    let ?vm = "if is_revert_opcode e then vm' else put_gas_remaining 0 vm'"
    have ok: "ok (0, p) ?vm" and k: "kept vm ?vm" and ph: "phi ?vm \<le> phi vm"
      using refilled put_zero_gas [OF refilled(2)] kept_trans [of vm vm'] rev by auto
    have "handle_opcode_error e vm = bind frame_gas_used (\<lambda>used. bind take_output (\<lambda>out.
        ret \<lparr> ctx_result = Revert e, gas_used = used, gas_spent = used, ctx_output = out \<rparr>)) ?vm"
      using refilled(1) False by (simp add: handle_opcode_error_def bind_def)
    with settles_after [OF k ph settles_finish(1) [OF ok]] show ?thesis by simp
  qed (use False in \<open>simp add: handle_opcode_error_def bind_def settles_def\<close>)
qed

section \<open>Deploying code\<close>

lemma runs_validate: "runs d B 0 validate_contract_creation (\<lambda>_. True)"
proof -
  have amsterdam: "runs d B 0
       (bind (lift_result (ok_or (checked_mul (div_ceil n 32) CODE_DEPOSIT_REGULAR_COST_PER_WORD_GAS)
         (internal Overflow))) (\<lambda>regular.
       bind (\<lambda>vm. (ok_or (checked_mul n (vm_cost_per_state_byte vm)) (internal Overflow), vm)) (\<lambda>state.
       bind (on_frame (increase_consumed_gas regular)) (\<lambda>_.
       if state > 0 then increase_state_gas state else ret ())))) (\<lambda>_. True)" if n: "n \<le> AMSTERDAM_MAX_CODE_SIZE" for n
  proof (rule runs_bind0 [OF runs_lift_result])
    fix regular assume "ok_or (checked_mul (div_ceil n 32) 6) (internal Overflow) = Inr regular"
    then have r: "regular < 2 ^ 63" using n by (auto simp: div_ceil_def AMSTERDAM_MAX_CODE_SIZE_def split: if_splits)
    show "runs d B 0 (bind (\<lambda>vm. (ok_or (checked_mul n (vm_cost_per_state_byte vm)) (internal Overflow), vm)) (\<lambda>state.
       bind (on_frame (increase_consumed_gas regular)) (\<lambda>_.
       if state > 0 then increase_state_gas state else ret ()))) (\<lambda>_. True)"
    proof (rule runs_bind0 [OF runs_read [where Q = "\<lambda>s. s < 2 ^ 62"]])
      fix vm s assume ok: "ok d vm" and s: "ok_or (checked_mul n (vm_cost_per_state_byte vm)) (internal Overflow) = Inr s"
      have "n * vm_cost_per_state_byte vm \<le> 2 ^ 16 * 2 ^ 40"
        using n ok by (intro mult_le_mono) (simp_all add: AMSTERDAM_MAX_CODE_SIZE_def ok_def okf_def)
      with s show "s < 2 ^ 62" by simp
    qed (use r in \<open>auto intro!: runs_bind0 [OF runs_increase_consumed_gas] runs_increase_state_gas runs_ret\<close>)
  qed simp
  have before: "runs d B 0 (bind (lift_result (ok_or (checked_mul n CODE_DEPOSIT_COST_GAS) (internal Overflow)))
      (\<lambda>regular. on_frame (increase_consumed_gas regular))) (\<lambda>_. True)" if "n \<le> MAX_CODE_SIZE" for n
    by (rule runs_bind0 [OF runs_lift_result]) (use that in \<open>auto simp: MAX_CODE_SIZE_def intro!: runs_increase_consumed_gas\<close>)
  show ?thesis
    unfolding validate_contract_creation_def Let_def
    by (rule amsterdam | rule before | rule frame_rules | simp)+
qed

lemma runs_update_account_bytecode:
  assumes "code_wf code"
  shows "runs d B 0 (update_account_bytecode a code) (\<lambda>_. True)"
  unfolding update_account_bytecode_def
proof (rule runs_bind0 [OF runs_get_account_mut], rule runsI)
  fix x :: LevmAccount and vm assume ok: "ok d vm"
  let ?d = "(db vm) \<lparr> codes := fmupd (code_hash code) code (codes (db vm)) \<rparr>"
  let ?c = "(cf vm) \<lparr> call_frame_backup := (call_frame_backup (cf vm))
    \<lparr> inserted_code_hashes := inserted_code_hashes (call_frame_backup (cf vm)) @ [code_hash code] \<rparr> \<rparr>"
  let ?vm = "vm \<lparr> db := ?d, current_call_frame := ?c \<rparr>"
  have "db_ok ?d" using ok assms by (auto simp: ok_def okf_def db_ok_def)
  from update_db [OF ok_okf [OF ok] this]
  have d: "okf d (vm \<lparr> db := ?d \<rparr>)" "kept vm (vm \<lparr> db := ?d \<rparr>)" "phi (vm \<lparr> db := ?d \<rparr>) = phi vm" by simp_all
  have "frame_ok (snd d) ?c" using ok by (simp add: ok_def okf_def frame_ok_def)
  from update_frame [OF d(1) this] d(2,3) ok kept_trans [OF d(2)]
  have "ok d ?vm \<and> kept vm ?vm \<and> phi ?vm = phi vm" by (simp add: alike_def ok_def)
  with ok show "outcome d vm 0 (\<lambda>_. True) (case fmlookup (codes (db vm)) (code_hash code) of
         Some _ \<Rightarrow> (Inr (), vm)
       | None \<Rightarrow> (Inr (), ?vm))" by (simp split: option.split)
qed

lemma settles_bind:
  assumes "outcome (0, p) vm 0 Q (m vm)"
    "\<And>x vm1. ok (0, p) vm1 \<Longrightarrow> Q x \<Longrightarrow> settles p vm1 (f x vm1)"
  shows "settles p vm (bind m f vm)"
proof -
  obtain r vm1 where m: "m vm = (r, vm1)" by (cases "m vm")
  from assms(1) have "outcome (0, p) vm 0 Q (r, vm1)" by (simp add: m)
  then show ?thesis
    by (cases rule: outcome_cases) (auto simp: bind_def m settles_def [of p vm "(Inl _, _)"] intro: settles_after assms(2))
qed

lemma settles_create_error:
  assumes okf: "okf (0, p) vm"
  shows "settles p vm (bind refill_from_amsterdam (\<lambda>_.
    bind (modify (put_gas_remaining 0)) (\<lambda>_.
    bind frame_gas_used (\<lambda>used.
    ret \<lparr> ctx_result = Revert e, gas_used = used, gas_spent = used, ctx_output = [] \<rparr>))) vm)"
  using okf
proof (cases rule: refill_from_amsterdam_cases)
  case (refilled vm')
  note z = put_zero_gas [OF refilled(2)]
  have "kept vm (put_gas_remaining 0 vm')" "phi (put_gas_remaining 0 vm') \<le> phi vm"
    using kept_trans [OF refilled(3) z(2)] z(3) refilled(4) by simp_all
  from settles_after [OF this settles_finish(2) [OF z(1)]] show ?thesis
    using refilled(1) by (simp add: bind_def [of refill_from_amsterdam])
qed (simp add: bind_def settles_def)

lemma settles_result:
  assumes ok: "ok (0, p) vm"
  shows "settles p vm (handle_opcode_result vm)"
proof (cases "is_create (cf vm)")
  case False
  then show ?thesis using settles_finish(1) [OF ok] by (simp add: handle_opcode_result_def Let_def)
next
  case True
  let ?fin = "bind frame_gas_used (\<lambda>used. bind take_output (\<lambda>out.
        ret \<lparr> ctx_result = Success, gas_used = used, gas_spent = used, ctx_output = out \<rparr>))"
  let ?deploy = "bind (gets (\<lambda>vm. (to_address (cf vm),
      from_bytecode (host_target vm) (keccak256 (crypto vm)) (frame_output (cf vm))))) (\<lambda>(a, code).
      bind (update_account_bytecode a code) (\<lambda>_. ?fin))"
  have deploy: "settles p vm1 (?deploy vm1)" if ok1: "ok (0, p) vm1" for vm1
  proof -
    have "length (frame_output (cf vm1)) < 2 ^ 62" using ok1 by (simp add: ok_def okf_def frame_ok_def)
    then have wf: "code_wf (from_bytecode (host_target vm1) (keccak256 (crypto vm1)) (frame_output (cf vm1)))"
      unfolding from_bytecode_def by (rule code_wf_from_parts)
    have "settles p vm1 (bind (update_account_bytecode (to_address (cf vm1))
        (from_bytecode (host_target vm1) (keccak256 (crypto vm1)) (frame_output (cf vm1)))) (\<lambda>_. ?fin) vm1)"
      by (rule settles_bind [where Q = "\<lambda>_. True"])
        (rule runsD [OF runs_update_account_bytecode [OF wf] ok1 order_refl], rule settles_finish)
    then show ?thesis by simp
  qed
  obtain r vm1 where v: "validate_contract_creation vm = (r, vm1)" by (cases "validate_contract_creation vm")
  from runsD [OF runs_validate ok order_refl] have "outcome (0, p) vm 0 (\<lambda>_. True) (r, vm1)" by (simp add: v)
  then show ?thesis
  proof (cases rule: outcome_cases)
    case (1 x)
    then show ?thesis using True v settles_after [OF 1(3) _ deploy [OF 1(2)]]
      by (simp add: handle_opcode_result_def Let_def bind_def [of "try_action _"] try_action_def)
  next
    case (2 e)
    then show ?thesis using True v
      by (simp add: handle_opcode_result_def Let_def bind_def [of "try_action _"] try_action_def settles_def)
  next
    case (3 e)
    then show ?thesis using True v settles_after [OF 3(3) _ settles_create_error [OF 3(2)]]
      by (simp add: handle_opcode_result_def Let_def bind_def [of "try_action _"] try_action_def settles_def)
  qed
qed

end
