(* ===== verification/Evm_Return.thy ===== *)
theory Evm_Return
  imports Evm_Settle
begin

text \<open>The return to the caller.\<close>

section \<open>Backups\<close>

lemma backup_frame: "ok d vm \<Longrightarrow> ok d (vm \<lparr> current_call_frame := (cf vm) \<lparr> call_frame_backup := b \<rparr> \<rparr>)"
  "kept vm (vm \<lparr> current_call_frame := (cf vm) \<lparr> call_frame_backup := b \<rparr> \<rparr>)"
  "phi (vm \<lparr> current_call_frame := (cf vm) \<lparr> call_frame_backup := b \<rparr> \<rparr>) = phi vm"
  by (simp_all add: ok_def okf_def frame_ok_def mem_ok_def kept_def phi_def)

lemma runs_state_backup: "runs d B 0 (handle_state_backup ctx consume) (\<lambda>_. True)"
proof -
  have r: "runs d B 0 (on_db (restore_cache_state b)) (\<lambda>_. True)" for b B
    by (rule runs_on_db) simp
  have restore: "runs d B 0 vm_restore_cache_state (\<lambda>_. True)"
    unfolding vm_restore_cache_state_def [abs_def]
    by (rule runsI) (rule runsD [OF r _ order_refl])
  have consuming: "runs d B 0 restore_cache_state_consuming (\<lambda>_. True)"
  proof (rule runsI)
    fix vm assume ok: "ok d vm"
    let ?vm = "vm \<lparr> current_call_frame := (cf vm) \<lparr> call_frame_backup := CallFrameBackup_default \<rparr> \<rparr>"
    obtain x vm' where e: "restore_cache_state_consuming vm = (x, vm')" by (cases "restore_cache_state_consuming vm")
    have "outcome d ?vm 0 (\<lambda>_. True) (x, vm')"
      unfolding e [symmetric] restore_cache_state_consuming_def by (rule runsD [OF r backup_frame(1) [OF ok] order_refl])
    from outcome_after [OF backup_frame(2) _ _ this] show "outcome d vm 0 (\<lambda>_. True) (restore_cache_state_consuming vm)"
      unfolding e by (simp add: backup_frame)
  qed
  show ?thesis
    unfolding handle_state_backup_def
    by (rule restore consuming frame_rules | simp)+
qed

lemma state_backup_frame:
  assumes "handle_state_backup ctx consume vm = (r, vm')"
  shows "gas_remaining (cf vm') = gas_remaining (cf vm)" "gas_limit (cf vm') = gas_limit (cf vm)"
  using assms
  by (auto simp: handle_state_backup_def restore_cache_state_consuming_def vm_restore_cache_state_def on_db_def zoom_def
      split: prod.splits if_splits)

section \<open>Leaving the frame\<close>

lemma ledger_mono: "ledger t fs \<Longrightarrow> t \<le> u \<Longrightarrow> ledger u fs"
proof (induction fs arbitrary: t u)
  case (Cons f fs)
  then show ?case using Cons.IH [of "t - int (frame_state_gas_spilled f)" "u - int (frame_state_gas_spilled f)"] by simp
qed simp

lemma okf_take_over: "okf (d, p) vm \<Longrightarrow> okf (0, p) vm"
  unfolding okf_def using ledger_mono [of "owed vm - int d" "frames_of vm" "owed vm"] by simp

lemma ok_take_over: "ok (d, p) vm \<Longrightarrow> ok (0, p) vm"
  by (auto simp: ok_def dest: okf_take_over)

abbreviation popped :: "VM \<Rightarrow> VM" where
  "popped vm \<equiv> vm \<lparr> call_frames := butlast (call_frames vm), current_call_frame := last (call_frames vm) \<rparr>"

lemma pop_and_clean:
  assumes ok: "ok (0, p) vm" and ne: "call_frames vm \<noteq> []"
  obtains buf where "release_memory (cf vm) (popped vm) = (Inr (), (popped vm) \<lparr> mem_buffer := buf \<rparr>)"
    "ok (frame_state_gas_spilled (cf vm), 32) ((popped vm) \<lparr> mem_buffer := buf \<rparr>)"
    "phi ((popped vm) \<lparr> mem_buffer := buf \<rparr>) = phi vm - gas_remaining (cf vm)" "length buf = length (mem_buffer vm)"
    "current_base (memory (last (call_frames vm))) \<le> length (mem_buffer vm)"
proof -
  obtain fs f where cfs: "call_frames vm = fs @ [f]" using ne by (cases "call_frames vm" rule: rev_cases) auto
  from ok obtain x xs where rel: "frames_rel (mem_buffer vm, memory (cf vm), map memory (rev (call_frames vm))) (x, xs)"
    and len: "length x \<le> 2 ^ 34" "\<forall>y \<in> set xs. length y \<le> 2 ^ 34" and b: "length (mem_buffer vm) \<le> 2 ^ 62"
    "current_base (memory (cf vm)) + 2 ^ 34 \<le> 2 ^ 62"
    by (auto simp: ok_def okf_def mem_ok_def)
  then obtain pre where pre: "mem_rel pre x (mem_buffer vm, memory (cf vm))"
    and par: "parents_rel pre (memory f # map memory (rev fs)) xs" by (auto simp: frames_rel_def cfs)
  from par obtain y ys pre' where xs: "xs = y # ys" and y: "mem_rel pre' y (pre, memory f)"
    and ys: "parents_rel pre' (map memory (rev fs)) ys" by (cases xs) auto
  have lp: "length pre \<le> length (mem_buffer vm)" "current_base (memory (cf vm)) = length pre"
    using pre by (auto elim: mem_relE)
  have base: "current_base (memory f) \<le> length pre" using y by (auto elim!: mem_relE)
  from clean_from_base_refines [OF pre] b(1) obtain k where
    k: "clean_from_base (mem_buffer vm, memory (cf vm)) = (Inr (), pre @ replicate k 0, memory (cf vm))"
    "length (pre @ replicate k (0 :: byte)) = length (mem_buffer vm)" by auto
  let ?buf = "pre @ replicate k 0" and ?vm = "(popped vm) \<lparr> mem_buffer := pre @ replicate k 0 \<rparr>"
  have "frames_rel (?buf, memory f, map memory (rev fs)) (y, ys)"
    by (rule frames_relI [OF mem_rel_zeros [OF y] ys])
  then have mem: "mem_ok ?vm" unfolding mem_ok_def
    using len xs k(2) b lp base by (intro conjI exI [of _ y] exI [of _ ys]) (simp_all add: cfs)
  have l: "ledger (owed vm - int (frame_state_gas_spilled (cf vm))) (f # rev fs)"
    using ok by (simp add: ok_def okf_def cfs)
  show thesis
  proof (rule that [of ?buf])
    show "release_memory (cf vm) (popped vm) = (Inr (), ?vm)" by (simp add: release_memory_def zoom_def k(1))
    show "ok (frame_state_gas_spilled (cf vm), 32) ?vm"
      using ok l mem by (simp add: ok_def okf_def cfs)
    show "phi ?vm = phi vm - gas_remaining (cf vm)" using ok by (simp add: phi_def cfs ok_def)
    show "current_base (memory (last (call_frames vm))) \<le> length (mem_buffer vm)" using base lp by (simp add: cfs)
  qed (use k(2) in simp)
qed

section \<open>The caller goes on\<close>

text \<open>\<open>lands d k m\<close>: a machine with \<open>d\<close> units of state gas to take over is well formed, with nothing to take over, after \<open>m\<close>.\<close>

definition lands :: "nat \<Rightarrow> int \<Rightarrow> (VM, 'a) action \<Rightarrow> bool" where
  "lands d k m \<longleftrightarrow> (\<forall>vm. ok (d, 32) vm \<longrightarrow>
     (case m vm of
        (Inr x, vm') \<Rightarrow> ok (0, 32) vm' \<and> kept vm vm' \<and> phi vm' + k \<le> phi vm
      | (Inl e, vm') \<Rightarrow> \<exists>e'. e = VmErr e'))"

lemma landsI:
  "(\<And>vm r vm'. ok (d, 32) vm \<Longrightarrow> m vm = (r, vm') \<Longrightarrow>
     (case r of Inr x \<Rightarrow> ok (0, 32) vm' \<and> kept vm vm' \<and> phi vm' + k \<le> phi vm | Inl e \<Rightarrow> \<exists>e'. e = VmErr e')) \<Longrightarrow> lands d k m"
  by (fastforce simp: lands_def split: prod.split sum.splits)

lemma landsD:
  "lands d k m \<Longrightarrow> ok (d, 32) vm \<Longrightarrow> m vm = (r, vm') \<Longrightarrow>
     (case r of Inr x \<Rightarrow> ok (0, 32) vm' \<and> kept vm vm' \<and> phi vm' + k \<le> phi vm | Inl e \<Rightarrow> \<exists>e'. e = VmErr e')"
  by (auto simp: lands_def split: sum.splits)

lemma lands_runs:
  assumes "\<And>B. runs (d, 32) B k m (\<lambda>_. True)"
  shows "lands d k m"
proof (rule landsI)
  fix vm r vm' assume ok: "ok (d, 32) vm" and m: "m vm = (r, vm')"
  from runsD [OF assms ok order_refl] have "outcome (d, 32) vm k (\<lambda>_. True) (r, vm')" by (simp add: m)
  then show "case r of Inr x \<Rightarrow> ok (0, 32) vm' \<and> kept vm vm' \<and> phi vm' + k \<le> phi vm | Inl e \<Rightarrow> \<exists>e'. e = VmErr e'"
    by (cases rule: outcome_cases) (auto intro: ok_take_over)
qed

lemma lands_bind:
  assumes "\<And>B. runs (d, 32) B k m Q" "\<And>x. Q x \<Longrightarrow> lands d j (f x)"
  shows "lands d (k + j) (bind m f)"
proof (rule landsI)
  fix vm r vm' assume ok: "ok (d, 32) vm" and b: "bind m f vm = (r, vm')"
  obtain r1 vm1 where m: "m vm = (r1, vm1)" by (cases "m vm")
  from runsD [OF assms(1) ok order_refl] have "outcome (d, 32) vm k Q (r1, vm1)" by (simp add: m)
  then show "case r of Inr x \<Rightarrow> ok (0, 32) vm' \<and> kept vm vm' \<and> phi vm' + (k + j) \<le> phi vm | Inl e \<Rightarrow> \<exists>e'. e = VmErr e'"
  proof (cases rule: outcome_cases)
    case (1 x)
    with b m have "f x vm1 = (r, vm')" by (simp add: bind_def)
    from landsD [OF assms(2) [OF 1(5)] 1(2) this] 1(4) kept_trans [OF 1(3)] show ?thesis by (auto split: sum.splits)
  qed (use b m in \<open>auto simp: bind_def\<close>)
qed

lemma lands_then:
  assumes "lands d k m" "\<And>x. lands 0 j (f x)"
  shows "lands d (k + j) (bind m f)"
proof (rule landsI)
  fix vm r vm' assume ok: "ok (d, 32) vm" and b: "bind m f vm = (r, vm')"
  obtain r1 vm1 where m: "m vm = (r1, vm1)" by (cases "m vm")
  note l = landsD [OF assms(1) ok m]
  show "case r of Inr x \<Rightarrow> ok (0, 32) vm' \<and> kept vm vm' \<and> phi vm' + (k + j) \<le> phi vm | Inl e \<Rightarrow> \<exists>e'. e = VmErr e'"
  proof (cases r1)
    case (Inl e)
    with b m l show ?thesis by (auto simp: bind_def)
  next
    case (Inr x)
    with b m have "f x vm1 = (r, vm')" by (simp add: bind_def)
    moreover have "ok (0, 32) vm1" "kept vm vm1" "phi vm1 + k \<le> phi vm" using l Inr by simp_all
    ultimately show ?thesis using landsD [OF assms(2)] kept_trans [of vm vm1] by (fastforce split: sum.splits)
  qed
qed

lemma lands_incorporate: "lands (frame_state_gas_spilled child) 0 (incorporate_child child)"
proof -
  let ?S = "frame_state_gas_spilled child"
  have take: "lands ?S 0 (try_update (\<lambda>vm. checked_add (frame_state_gas_spilled (cf vm)) ?S) put_frame_spill Overflow)"
  proof (rule landsI)
    fix vm r vm' assume ok: "ok (?S, 32) vm"
      and u: "try_update (\<lambda>vm. checked_add (frame_state_gas_spilled (cf vm)) ?S) put_frame_spill Overflow vm = (r, vm')"
    let ?vm = "put_frame_spill (frame_state_gas_spilled (cf vm) + ?S) vm"
    have "ledger (owed vm - int ?S) (frames_of vm)" using ok by (simp add: ok_def okf_def)
    then have "ledger (owed ?vm) (frames_of ?vm)" by (simp add: algebra_simps)
    then have "ok (0, 32) ?vm \<and> kept vm ?vm \<and> phi ?vm = phi vm"
      using ok by (simp add: ok_def okf_def frame_ok_def mem_ok_def kept_def phi_def)
    with u show "case r of Inr x \<Rightarrow> ok (0, 32) vm' \<and> kept vm vm' \<and> phi vm' + 0 \<le> phi vm | Inl e \<Rightarrow> \<exists>e'. e = VmErr e'"
      by (auto simp: try_update_def split: option.splits)
  qed
  have repay: "lands 0 0 (bind (gets vm_fork) (\<lambda>f. if f \<ge> Amsterdam then repay_state_gas_spill else ret ()))"
    by (rule lands_runs, rule seq_gets) (simp add: runs_repay_state_gas_spill runs_ret)
  show ?thesis
    unfolding incorporate_child_def merge_call_frame_backup_with_parent_def
    using lands_bind [OF runs_backup lands_then [OF take repay]] by simp
qed

lemma runs_release_stack:
  assumes "length (vals (stack child)) = STACK_LIMIT"
  shows "runs d B 0 (release_stack child) (\<lambda>_. True)"
  by (rule runsI) (use assms in \<open>simp add: release_stack_def ok_def okf_def kept_def phi_def mem_ok_def stack_clear_def\<close>)

lemma runs_return_unused_gas:
  assumes "int (gas_used ctx) + gas_remaining child = int (gas_limit child)" "0 \<le> gas_remaining child"
    "gas_remaining child < 2 ^ 63"
  shows "runs d B (- gas_remaining child) (return_unused_gas child ctx) (\<lambda>_. True)"
proof -
  have u: "checked_sub (gas_limit child) (gas_used ctx) = Some (nat (gas_remaining child))"
    using assms(1,2) by (auto simp: checked_sub_def)
  have "runs d B (- int (nat (gas_remaining child))) (try_update (\<lambda>vm. checked_i64 (gas_remaining (cf vm) +
      wrap_i64 (int (nat (gas_remaining child))))) put_gas_remaining Overflow) (\<lambda>_. True)"
  proof (rule runs_put_gas)
    fix vm g assume ok: "ok d vm"
      and g: "checked_i64 (gas_remaining (cf vm) + wrap_i64 (int (nat (gas_remaining child)))) = Some g"
    then show "0 \<le> g \<and> g < 2 ^ 63 \<and> g \<le> gas_remaining (cf vm) + int (nat (gas_remaining child))"
      using gas_range [OF ok] assms(2,3) by (auto simp: checked_i64_def wrap_i64_id split: if_splits)
  qed
  then show ?thesis
    unfolding return_unused_gas_def u using assms(2) by (intro runs_bind0 [OF runs_lift_result]) auto
qed

lemma lands_return_call:
  assumes gas: "int (gas_used ctx) + gas_remaining child = int (gas_limit child)" "0 \<le> gas_remaining child"
    and c: "frame_ok p child"
  shows "lands (frame_state_gas_spilled child) (- gas_remaining child)
     (bind (return_unused_gas child ctx) (\<lambda>_.
     bind (on_memory (store_data (ret_offset child) (take (ret_size child) (ctx_output ctx)))) (\<lambda>_.
     bind (modify_frame (\<lambda>c. c \<lparr> sub_return_data := ctx_output ctx \<rparr>)) (\<lambda>_.
     bind (case ctx_result ctx of
         Success \<Rightarrow> bind (on_stack (push SUCCESS)) (\<lambda>_. incorporate_child child)
       | Revert _ \<Rightarrow> bind (refund_new_account_state_gas (new_account_state_gas_charged child)) (\<lambda>_.
           on_stack (push FAIL))) (\<lambda>_.
     release_stack child)))))"
proof -
  let ?d = "frame_state_gas_spilled child"
  have range: "gas_remaining child < 2 ^ 63" "length (vals (stack child)) = STACK_LIMIT" "ret_offset child < 2 ^ 32"
    "ret_size child < 2 ^ 32" using c by (simp_all add: frame_ok_def stack_ok_def)
  have st: "runs d B 0 (on_memory (store_data (ret_offset child) (take (ret_size child) (ctx_output ctx)))) (\<lambda>_. True)" for d B
    using range(3,4) by (intro runs_on_memory mem_safe_store_data) simp
  have push: "runs d B 0 (on_stack (push v)) (\<lambda>_. True)" for d B v by (rule runs_on_stack) simp
  have "lands ?d 0 (bind (on_stack (push SUCCESS)) (\<lambda>_. incorporate_child child))"
    using lands_bind [OF push lands_incorporate] by simp
  moreover have "lands ?d 0 (bind (refund_new_account_state_gas (new_account_state_gas_charged child)) (\<lambda>_. on_stack (push FAIL)))"
    by (intro lands_runs runs_bind0 [OF runs_refund_new_account_state_gas] push)
  ultimately have res: "lands ?d 0 (case ctx_result ctx of
         Success \<Rightarrow> bind (on_stack (push SUCCESS)) (\<lambda>_. incorporate_child child)
       | Revert _ \<Rightarrow> bind (refund_new_account_state_gas (new_account_state_gas_charged child)) (\<lambda>_.
           on_stack (push FAIL)))" by (simp split: tx_result.split)
  note rel = lands_then [OF res lands_runs [OF runs_release_stack [OF range(2)]]]
  from lands_bind [OF runs_return_unused_gas [OF gas range(1)] lands_bind [OF st lands_bind [OF runs_return_data rel]]]
  show ?thesis by simp
qed

lemma lands_return_create:
  assumes gas: "int (gas_used ctx) + gas_remaining child = int (gas_limit child)" "0 \<le> gas_remaining child"
    and c: "frame_ok p child"
  shows "lands (frame_state_gas_spilled child) (- gas_remaining child)
     (bind (return_unused_gas child ctx) (\<lambda>_.
     bind (case ctx_result ctx of
         Success \<Rightarrow> bind (on_stack (push (address_to_word (to_address child)))) (\<lambda>_. incorporate_child child)
       | Revert e \<Rightarrow>
           bind (gets vm_fork) (\<lambda>f.
           bind (if f \<ge> Amsterdam \<and> \<not> target_alive child
             then bind (gets state_gas_new_account) credit_state_gas_refund else ret ()) (\<lambda>_.
           bind (if is_revert_opcode e then modify_frame (\<lambda>c. c \<lparr> sub_return_data := ctx_output ctx \<rparr>) else ret ())
             (\<lambda>_. on_stack (push FAIL))))) (\<lambda>_.
     release_stack child)))"
proof -
  let ?d = "frame_state_gas_spilled child"
  have range: "gas_remaining child < 2 ^ 63" "length (vals (stack child)) = STACK_LIMIT"
    using c by (simp_all add: frame_ok_def stack_ok_def)
  have push: "runs d B 0 (on_stack (push v)) (\<lambda>_. True)" for d B v by (rule runs_on_stack) simp
  have "lands ?d 0 (bind (on_stack (push (address_to_word (to_address child)))) (\<lambda>_. incorporate_child child))"
    using lands_bind [OF push lands_incorporate] by simp
  moreover have "lands ?d 0 (bind (gets vm_fork) (\<lambda>f.
           bind (if f \<ge> Amsterdam \<and> \<not> target_alive child
             then bind (gets state_gas_new_account) credit_state_gas_refund else ret ()) (\<lambda>_.
           bind (if is_revert_opcode e then modify_frame (\<lambda>c. c \<lparr> sub_return_data := ctx_output ctx \<rparr>) else ret ())
             (\<lambda>_. on_stack (push FAIL)))))" for e
    by (rule lands_runs) (rule push frame_rules runs_return_data | simp)+
  ultimately have res: "lands ?d 0 (case ctx_result ctx of
         Success \<Rightarrow> bind (on_stack (push (address_to_word (to_address child)))) (\<lambda>_. incorporate_child child)
       | Revert e \<Rightarrow>
           bind (gets vm_fork) (\<lambda>f.
           bind (if f \<ge> Amsterdam \<and> \<not> target_alive child
             then bind (gets state_gas_new_account) credit_state_gas_refund else ret ()) (\<lambda>_.
           bind (if is_revert_opcode e then modify_frame (\<lambda>c. c \<lparr> sub_return_data := ctx_output ctx \<rparr>) else ret ())
             (\<lambda>_. on_stack (push FAIL)))))" by (simp split: tx_result.split)
  from lands_bind [OF runs_return_unused_gas [OF gas range(1)] lands_then [OF res lands_runs [OF runs_release_stack [OF range(2)]]]]
  show ?thesis by simp
qed

lemma lands_return:
  assumes "int (gas_used ctx) + gas_remaining child = int (gas_limit child)" "0 \<le> gas_remaining child" "frame_ok p child"
  obtains rest where "(if is_create child then handle_return_create child ctx else handle_return_call child ctx) =
      bind (release_memory child) (\<lambda>_. rest)"
    "lands (frame_state_gas_spilled child) (- gas_remaining child) rest"
proof (cases "is_create child")
  case True
  show thesis
    by (rule that [OF _ lands_return_create [OF assms]]) (simp only: handle_return_create_def True if_True)
next
  case False
  show thesis
    by (rule that [OF _ lands_return_call [OF assms]]) (simp only: handle_return_call_def False if_False)
qed

text \<open>After the return the caller is the current frame, and the potential has not grown.\<close>

lemma handle_return_ok:
  assumes ok: "ok (0, p) vm" and ne: "call_frames vm \<noteq> []"
    and gas: "int (gas_used ctx) + gas_remaining (cf vm) = int (gas_limit (cf vm))"
    and r: "handle_return ctx vm = (r, vm')"
  shows "case r of
      Inr _ \<Rightarrow> ok (0, 32) vm' \<and> Suc (length (call_frames vm')) = length (call_frames vm) \<and> phi vm' \<le> phi vm \<and>
        length (mem_buffer vm') \<le> max (length (mem_buffer vm)) (current_base (memory (cf vm)) + 2 ^ 34) + 2 ^ 34
    | Inl e \<Rightarrow> \<exists>e'. e = VmErr e'"
proof -
  obtain r1 vm1 where b: "handle_state_backup ctx True vm = (r1, vm1)" by (cases "handle_state_backup ctx True vm")
  from runsD [OF runs_state_backup ok order_refl, of ctx True]
  have "outcome (0, p) vm 0 (\<lambda>_. True) (r1, vm1)" by (simp add: b)
  then show ?thesis
  proof (cases rule: outcome_cases)
    case (1 x)
    note f = state_backup_frame [OF b]
    have ne1: "call_frames vm1 \<noteq> []" using ne 1(3) by (simp add: kept_def)
    let ?c = "cf vm1"
    have c: "frame_ok p ?c" "0 \<le> gas_remaining ?c" using 1(2) by (simp_all add: ok_def okf_def)
    have gas1: "int (gas_used ctx) + gas_remaining ?c = int (gas_limit ?c)" using gas f by simp
    obtain rest where e: "(if is_create ?c then handle_return_create ?c ctx else handle_return_call ?c ctx) =
        bind (release_memory ?c) (\<lambda>_. rest)"
      and l: "lands (frame_state_gas_spilled ?c) (- gas_remaining ?c) rest"
      by (rule lands_return [OF gas1 c(2,1)])
    obtain buf where rm: "release_memory ?c (popped vm1) = (Inr (), (popped vm1) \<lparr> mem_buffer := buf \<rparr>)"
      and ok2: "ok (frame_state_gas_spilled ?c, 32) ((popped vm1) \<lparr> mem_buffer := buf \<rparr>)"
      and ph: "phi ((popped vm1) \<lparr> mem_buffer := buf \<rparr>) = phi vm1 - gas_remaining ?c"
      and len: "length buf = length (mem_buffer vm1)"
      and base: "current_base (memory (last (call_frames vm1))) \<le> length (mem_buffer vm1)"
      by (rule pop_and_clean [OF 1(2) ne1])
    have "pop_call_frame vm1 = (Inr ?c, popped vm1)" using ne1 by (simp add: pop_call_frame_def)
    with r b 1(1) rm e have "rest ((popped vm1) \<lparr> mem_buffer := buf \<rparr>) = (r, vm')"
      by (simp add: handle_return_def bind_def)
    note res = landsD [OF l ok2 this]
    have le: "length (mem_buffer vm1) \<le> max (length (mem_buffer vm)) (current_base (memory (cf vm)) + 2 ^ 34)"
      and frames: "call_frames vm1 = call_frames vm" using 1(3) by (simp_all add: kept_def)
    show ?thesis
    proof (cases r)
      case (Inr y)
      with res have k: "kept ((popped vm1) \<lparr> mem_buffer := buf \<rparr>) vm'" and "ok (0, 32) vm'" and "phi vm' \<le> phi vm1"
        using ph by simp_all
      moreover have "Suc (length (call_frames vm')) = length (call_frames vm)"
        using k ne frames by (simp add: kept_def)
      moreover have "length (mem_buffer vm') \<le> length (mem_buffer vm1) + 2 ^ 34"
        using k len base by (auto simp: kept_def max_def split: if_splits)
      ultimately show ?thesis using Inr 1(4) le by simp
    qed (use res in simp)
  qed (use r b in \<open>auto simp: handle_return_def bind_def\<close>)
qed

end
