(* ===== verification/Evm_Run.thy ===== *)
theory Evm_Run
  imports Evm_Return
begin

text \<open>
  The dispatch loop.  On a well-formed machine every turn of the loop leaves a well-formed machine with less gas, or
  fewer frames, and no turn panics or reads outside a buffer; hence the loop returns.
\<close>

section \<open>Every handler of every table\<close>

lemma steps_fun_upd: "(\<And>op. op \<noteq> 0 \<Longrightarrow> steps B 1 (t op)) \<Longrightarrow> steps B 1 h \<Longrightarrow> op \<noteq> 0 \<Longrightarrow> steps B 1 ((t (o' := h)) op)"
  by simp

lemmas frame_handlers = runs_arithmetic runs_environment runs_hash runs_memory runs_stack runs_block runs_sstore
  runs_mcopy runs_jumps runs_mload

lemmas all_handlers = frame_handlers [THEN steps_runs] runs_exit [THEN steps_halts] runs_selfdestruct [THEN steps_halts]
  steps_dupn steps_swapn steps_exchange steps_creates

lemma byte_range: "(a :: byte) \<le> op \<Longrightarrow> op \<le> b \<Longrightarrow> unat a \<le> unat op \<and> unat op \<le> unat b"
  by (simp add: word_le_nat_alt)

lemma steps_ifI: "(b \<Longrightarrow> steps B 1 h) \<Longrightarrow> (\<not> b \<Longrightarrow> steps B 1 h') \<Longrightarrow> steps B 1 (if b then h else h')"
  by simp

lemma steps_pre_shanghai:
  assumes B: "B < 2 ^ 63" and op: "op \<noteq> 0"
  shows "steps B 1 (build_opcode_table_pre_shanghai op)"
proof -
  have push: "steps B 1 (OpPushHandler (unat op - 0x5F))" if "0x60 \<le> op \<and> op \<le> 0x7F"
    using byte_range [of "0x60" op "0x7F"] that by (intro steps_push) auto
  have log: "steps B 1 (OpLogHandler (unat op - 0xA0))" if "0xA0 \<le> op \<and> op \<le> 0xA4"
    using byte_range [of "0xA0" op "0xA4"] that by (intro steps_runs runs_log) auto
  show ?thesis
    unfolding build_opcode_table_pre_shanghai_def
    by (rule steps_ifI | erule push | erule log | rule all_handlers | rule steps_call [OF B] | rule steps_other_calls [OF B]
        | rule steps_fun_upd | assumption | rule op)+
qed

lemma steps_tables:
  assumes B: "B < 2 ^ 63" and op: "op \<noteq> 0" and t: "build_opcode_table f = Some table"
  shows "steps B 1 (table op)"
proof -
  have cancun: "op \<noteq> 0 \<Longrightarrow> steps B 1 (build_opcode_table_pre_cancun op)" for op
    unfolding build_opcode_table_pre_cancun_def by (rule steps_fun_upd steps_pre_shanghai [OF B] all_handlers | assumption)+
  have osaka': "op \<noteq> 0 \<Longrightarrow> steps B 1 (build_opcode_table_pre_osaka op)" for op
    unfolding build_opcode_table_pre_osaka_def by (rule steps_fun_upd cancun all_handlers | assumption)+
  have osaka: "op \<noteq> 0 \<Longrightarrow> steps B 1 (build_opcode_table_osaka op)" for op
    unfolding build_opcode_table_osaka_def by (rule steps_fun_upd osaka' all_handlers | assumption)+
  have amsterdam: "op \<noteq> 0 \<Longrightarrow> steps B 1 (build_opcode_table_amsterdam op)" for op
    unfolding build_opcode_table_amsterdam_def by (rule steps_fun_upd osaka all_handlers | assumption)+
  show ?thesis
    using t op steps_pre_shanghai [OF B] cancun osaka' osaka amsterdam
    by (auto simp: build_opcode_table_def split: if_splits)
qed

lemma stop_tables: "build_opcode_table f = Some table \<Longrightarrow> table 0 = OpStopHandler"
  by (auto simp: build_opcode_table_def build_opcode_table_amsterdam_def build_opcode_table_osaka_def
      build_opcode_table_pre_osaka_def build_opcode_table_pre_cancun_def build_opcode_table_pre_shanghai_def
      split: if_splits)

section \<open>One turn of the loop\<close>

text \<open>
  A machine the loop runs on: well formed, and with room in the memory buffer for as many turns as its gas can pay.  The
  bound allows a potential of about \<open>2 ^ 26\<close>, four times the gas limit of a transaction (EIP-7825).
\<close>

definition fuel :: "VM \<Rightarrow> int" where
  "fuel vm = phi vm + int (length (call_frames vm))"

definition machine_ok :: "VM \<Rightarrow> bool" where
  "machine_ok vm \<longleftrightarrow> ok (0, 32) vm \<and> int (length (mem_buffer vm)) + 2 ^ 36 * (fuel vm + 1) \<le> 2 ^ 62"

lemma base_le: "okf d vm \<Longrightarrow> current_base (memory (cf vm)) \<le> length (mem_buffer vm)"
  by (auto simp: okf_def mem_ok_def frames_rel_def elim!: mem_relE)

lemma fuel_nonneg: "ok d vm \<Longrightarrow> 0 \<le> fuel vm"
  using gas_le_phi(2) [OF ok_okf] by (simp add: fuel_def)

lemma next_opcode_ok:
  assumes ok: "ok (0, 32) vm"
  obtains b where "next_opcode (cf vm) = Inr b" "b \<noteq> 0 \<Longrightarrow> pc (cf vm) < code_len (frame_code (cf vm))"
proof -
  have wf: "code_wf (frame_code (cf vm))" and pc: "pc (cf vm) \<le> code_len (frame_code (cf vm)) + 32"
    using ok by (simp_all add: ok_def okf_def frame_ok_def)
  have "pc (cf vm) < length (bytecode (frame_code (cf vm)))" using wf pc by (simp add: code_wf_def code_len_def)
  moreover have "pc (cf vm) < code_len (frame_code (cf vm))" if "bytecode (frame_code (cf vm)) ! pc (cf vm) \<noteq> 0"
    by (rule ccontr) (use wf pc that in \<open>simp add: code_wf_def code_len_def\<close>)
  ultimately show thesis
    using that [of "bytecode (frame_code (cf vm)) ! pc (cf vm)"]
    by (simp add: next_opcode_def get_unchecked_def dispatch_buf_def)
qed

lemma advance_pc_ok:
  assumes ok: "ok (0, 32) vm"
  shows "ok (0, 33) (advance_pc vm)" "kept vm (advance_pc vm)" "phi (advance_pc vm) = phi vm"
    "pc (cf vm) < code_len (frame_code (cf vm)) \<Longrightarrow> ok (0, 0) (advance_pc vm)"
  using ok pc_bound [OF ok]
  by (simp_all add: advance_pc_def ok_def okf_def frame_ok_def mem_ok_def kept_def phi_def)

definition closes :: "VM \<Rightarrow> (vm_fail + ContextResult option) \<times> VM \<Rightarrow> bool" where
  "closes vm r \<longleftrightarrow>
     (case r of
        (Inr None, vm') \<Rightarrow> ok (0, 32) vm' \<and> Suc (length (call_frames vm')) = length (call_frames vm) \<and> phi vm' \<le> phi vm \<and>
          length (mem_buffer vm') \<le> max (length (mem_buffer vm)) (current_base (memory (cf vm)) + 2 ^ 34) + 2 ^ 34
      | (Inr (Some ctx), vm') \<Rightarrow> call_frames vm' = [] \<and> phi vm' \<le> phi vm \<and> 0 \<le> gas_remaining (cf vm') \<and>
          int (gas_used ctx) + gas_remaining (cf vm') = int (gas_limit (cf vm'))
      | (Inl e, vm') \<Rightarrow> \<exists>e'. e = VmErr e')"

lemma close_frame:
  assumes m: "settles p vm (m vm)"
  shows "closes vm (bind m (\<lambda>result.
         bind (gets is_initial_call_frame) (\<lambda>initial.
         if initial
         then bind (gets preserve_top_level_backup) (\<lambda>preserve.
           bind (handle_state_backup result (\<not> preserve)) (\<lambda>_. ret (Some result)))
         else bind (handle_return result) (\<lambda>_. ret None))) vm)"
proof -
  obtain r vm1 where r: "m vm = (r, vm1)" by (cases "m vm")
  show ?thesis
  proof (cases r)
    case (Inl e)
    with m r show ?thesis by (auto simp: bind_def closes_def settles_def)
  next
    case (Inr ctx)
    with m r have ok: "ok (0, p) vm1" and k: "kept vm vm1" and ph: "phi vm1 \<le> phi vm"
      and gas: "int (gas_used ctx) + gas_remaining (cf vm1) = int (gas_limit (cf vm1))" by (simp_all add: settles_def)
    show ?thesis
    proof (cases "call_frames vm1 = []")
      case True
      obtain x vm2 where b: "handle_state_backup ctx (\<not> preserve_top_level_backup vm1) vm1 = (x, vm2)"
        by (cases "handle_state_backup ctx (\<not> preserve_top_level_backup vm1) vm1")
      from runsD [OF runs_state_backup ok order_refl, of ctx "\<not> preserve_top_level_backup vm1"]
      have "outcome (0, p) vm1 0 (\<lambda>_. True) (x, vm2)" by (simp add: b)
      then show ?thesis using True r Inr b state_backup_frame [OF b] gas ph gas_range [OF ok]
        by (cases rule: outcome_cases) (auto simp: bind_def is_initial_call_frame_def closes_def kept_def)
    next
      case False
      obtain x vm2 where b: "handle_return ctx vm1 = (x, vm2)" by (cases "handle_return ctx vm1")
      note h = handle_return_ok [OF ok False gas b]
      have le: "max (length (mem_buffer vm1)) (current_base (memory (cf vm1)) + 2 ^ 34) \<le>
          max (length (mem_buffer vm)) (current_base (memory (cf vm)) + 2 ^ 34)" using k by (auto simp: kept_def)
      show ?thesis using False r Inr b h ph k le
        by (cases x) (auto simp: bind_def is_initial_call_frame_def closes_def kept_def)
    qed
  qed
qed

text \<open>A turn: the machine it leaves, and what it may return.\<close>

definition turned :: "VM \<Rightarrow> (vm_fail + ContextResult option) \<times> VM \<Rightarrow> bool" where
  "turned vm r \<longleftrightarrow>
     (case r of
        (Inr None, vm') \<Rightarrow> ok (0, 32) vm' \<and> fuel vm' < fuel vm \<and> phi vm' \<le> phi vm \<and>
          length (mem_buffer vm') \<le> length (mem_buffer vm) + 2 ^ 36
      | (Inr (Some ctx), vm') \<Rightarrow> call_frames vm' = [] \<and> phi vm' \<le> phi vm \<and> 0 \<le> gas_remaining (cf vm') \<and>
          int (gas_used ctx) + gas_remaining (cf vm') = int (gas_limit (cf vm'))
      | (Inl e, vm') \<Rightarrow> \<exists>e'. e = VmErr e')"

lemma closes_turned:
  assumes "okf d vm1" "moved vm 0 vm1" "current_base (memory (cf vm)) \<le> length (mem_buffer vm)" "closes vm1 r"
  shows "turned vm r"
proof -
  note b = base_le [OF assms(1)]
  have len: "max (length (mem_buffer vm1)) (current_base (memory (cf vm1)) + 2 ^ 34) \<le> length (mem_buffer vm) + 3 * 2 ^ 34"
    and fr: "int (length (call_frames vm1)) + phi vm1 \<le> int (length (call_frames vm)) + phi vm" "phi vm1 \<le> phi vm"
    using assms(2,3) b by (auto simp: moved_def kept_def entered_def)
  show ?thesis using assms(4) len fr
    by (auto simp: closes_def turned_def fuel_def split: sum.splits prod.splits option.splits)
qed

definition close :: "ContextResult \<Rightarrow> (VM, ContextResult option) action" where
  "close result =
     bind (gets is_initial_call_frame) (\<lambda>initial.
     if initial
     then bind (gets preserve_top_level_backup) (\<lambda>preserve.
       bind (handle_state_backup result (\<not> preserve)) (\<lambda>_. ret (Some result)))
     else bind (handle_return result) (\<lambda>_. ret None))"

definition after_opcode :: "vm_error + opcode_result \<Rightarrow> (VM, ContextResult option) action" where
  "after_opcode op_result =
     (if op_result = Inr Continue then ret None
      else bind (case op_result of Inl e \<Rightarrow> handle_opcode_error e | Inr _ \<Rightarrow> handle_opcode_result) close)"

lemma dispatch_step_eq:
  "dispatch_step table vm =
     (case next_opcode (cf vm) of Inl e \<Rightarrow> (Inl e, vm) | Inr b \<Rightarrow> bind (try_action (table b)) after_opcode (advance_pc vm))"
  unfolding dispatch_step_def after_opcode_def [abs_def] close_def [abs_def]
  by (cases "next_opcode (cf vm)") (simp_all add: bind_def [of "\<lambda>vm. (next_opcode (cf vm), vm)"])

lemma close_after: "settles p vm (m vm) \<Longrightarrow> closes vm (bind m close vm)"
  unfolding close_def [abs_def] by (rule close_frame)

lemma turned_opcode:
  assumes st: "stepped vm 1 (h vm)" and base: "current_base (memory (cf vm)) \<le> length (mem_buffer vm)"
  shows "turned vm (bind (try_action h) after_opcode vm)"
proof -
  obtain x vm1 where x: "h vm = (x, vm1)" by (cases "h vm")
  consider "x = Inr Continue" | "x = Inr Halt" | e where "x = Inl (VmErr e)"
    using st x by (cases x) (auto simp: stepped_def split: opcode_result.splits vm_fail.splits)
  then show ?thesis
  proof cases
    case 1
    with st x base show ?thesis
      by (auto simp: bind_def try_action_def after_opcode_def turned_def stepped_def moved_def kept_def entered_def fuel_def)
  next
    case 2
    with st x have ok: "ok (0, 32) vm1" and m: "moved vm 0 vm1" by (simp_all add: stepped_def)
    from closes_turned [OF ok_okf [OF ok] m base close_after [where m = handle_opcode_result, OF settles_result [OF ok]]] 2 x show ?thesis
      by (simp add: bind_def [of "try_action h"] try_action_def after_opcode_def)
  next
    case (3 e)
    show ?thesis
    proof (cases "should_propagate e")
      case True
      with 3 x show ?thesis
        by (simp add: bind_def try_action_def after_opcode_def handle_opcode_error_def turned_def)
    next
      case False
      with 3 st x have okf: "okf (0, 32) vm1" and m: "moved vm 0 vm1" and r: "is_revert_opcode e \<Longrightarrow> ok (0, 32) vm1"
        by (auto simp: stepped_def)
      from closes_turned [OF okf m base close_after [where m = "handle_opcode_error e", OF settles_error [OF okf r]]] 3 x show ?thesis
        by (simp add: bind_def [of "try_action h"] try_action_def after_opcode_def)
    qed
  qed
qed

lemma turned_advance: "ok (0, 32) vm \<Longrightarrow> turned (advance_pc vm) r \<Longrightarrow> turned vm r"
proof -
  assume ok: "ok (0, 32) vm" and r: "turned (advance_pc vm) r"
  have "fuel (advance_pc vm) = fuel vm" "mem_buffer (advance_pc vm) = mem_buffer vm"
    using advance_pc_ok(3) [OF ok] by (simp_all add: fuel_def advance_pc_def)
  with r advance_pc_ok(3) [OF ok] show "turned vm r"
    by (auto simp: turned_def split: prod.splits sum.splits option.splits)
qed

lemma dispatch_step_turns:
  assumes t: "build_opcode_table f = Some table" and m: "machine_ok vm"
  shows "turned vm (dispatch_step table vm)"
proof -
  have ok: "ok (0, 32) vm" and bound: "int (length (mem_buffer vm)) + 2 ^ 36 * (fuel vm + 1) \<le> 2 ^ 62"
    using m by (simp_all add: machine_ok_def)
  let ?vm = "advance_pc vm"
  note a = advance_pc_ok [OF ok]
  have same: "mem_buffer ?vm = mem_buffer vm" "memory (cf ?vm) = memory (cf vm)" by (simp_all add: advance_pc_def)
  have base: "current_base (memory (cf ?vm)) \<le> length (mem_buffer ?vm)" using base_le [OF ok_okf [OF ok]] same by simp
  have phi: "phi vm < 2 ^ 63" "0 \<le> fuel vm" using bound fuel_nonneg [OF ok] by (simp_all add: fuel_def)
  have room: "room ?vm" using bound base phi(2) by (simp add: room_def same)
  obtain b where b: "next_opcode (cf vm) = Inr b" "b \<noteq> 0 \<Longrightarrow> pc (cf vm) < code_len (frame_code (cf vm))"
    using next_opcode_ok [OF ok] by blast
  have "turned ?vm (bind (try_action (table b)) after_opcode ?vm)"
  proof (cases "b = 0")
    case True
    then have "bind (try_action (table b)) after_opcode ?vm = bind handle_opcode_result close ?vm"
      using stop_tables [OF t] by (simp add: bind_def [of "try_action _"] try_action_def OpStopHandler_def after_opcode_def)
    then show ?thesis
      using closes_turned [OF ok_okf [OF a(1)] _ base close_after [where m = handle_opcode_result, OF settles_result [OF a(1)]]] by (simp add: moved_def)
  next
    case False
    have "stepped ?vm 1 (table b ?vm)"
      using stepsD [OF steps_tables [OF phi(1) False t] a(4) [OF b(2) [OF False]] _ room] a(3) by simp
    then show ?thesis using base by (rule turned_opcode)
  qed
  then show ?thesis using turned_advance [OF ok] by (simp add: dispatch_step_eq b(1))
qed

lemma turned_machine_ok: "machine_ok vm \<Longrightarrow> turned vm (Inr None, vm') \<Longrightarrow> machine_ok vm'"
  by (auto simp: machine_ok_def turned_def)

section \<open>The whole run\<close>

lemma run_dispatch_step:
  "run_dispatch table vm = (case dispatch_step table vm of
      (Inr None, vm') \<Rightarrow> run_dispatch table vm'
    | (Inr (Some ctx), vm') \<Rightarrow> Some (Inr ctx, vm')
    | (Inl e, vm') \<Rightarrow> Some (Inl e, vm'))"
  by (subst run_dispatch.simps) (auto split: prod.splits sum.splits option.splits)

definition completed :: "VM \<Rightarrow> (vm_fail + ContextResult) \<times> VM \<Rightarrow> bool" where
  "completed vm r \<longleftrightarrow>
     (case r of
        (Inr ctx, vm') \<Rightarrow> call_frames vm' = [] \<and> phi vm' \<le> phi vm \<and> 0 \<le> gas_remaining (cf vm') \<and>
          int (gas_used ctx) + gas_remaining (cf vm') = int (gas_limit (cf vm'))
      | (Inl e, vm') \<Rightarrow> \<exists>e'. e = VmErr e')"

lemma run_completes:
  assumes t: "build_opcode_table f = Some table" and m: "machine_ok vm"
  shows "\<exists>r. run_dispatch table vm = Some r \<and> completed vm r"
  using m
proof (induction "nat (fuel vm)" arbitrary: vm rule: less_induct)
  case less
  obtain x vm' where d: "dispatch_step table vm = (x, vm')" by (cases "dispatch_step table vm")
  note turn = dispatch_step_turns [OF t less.prems, unfolded d]
  show ?case
  proof (cases "x = Inr None")
    case False
    with turn show ?thesis
      by (auto simp: run_dispatch_step [of table vm] d turned_def completed_def split: sum.splits option.splits)
  next
    case True
    with turn have "fuel vm' < fuel vm" "phi vm' \<le> phi vm" "ok (0, 32) vm'" by (simp_all add: turned_def)
    moreover have "machine_ok vm'" using turned_machine_ok [OF less.prems] turn True by simp
    ultimately obtain r where "run_dispatch table vm' = Some r" "completed vm' r"
      using less.hyps [of vm'] fuel_nonneg [of _ vm'] by fastforce
    then show ?thesis using True \<open>phi vm' \<le> phi vm\<close>
      by (auto simp: run_dispatch_step [of table vm] d completed_def split: prod.splits sum.splits)
  qed
qed

lemma run_precompile_sound:
  assumes "ok d vm"
  shows "sound (fst (run_precompile execute vm))"
proof -
  obtain r remaining where e: "execute (calldata (cf vm)) (as_u64 (gas_remaining (cf vm))) = (r, remaining)"
    by (cases "execute (calldata (cf vm)) (as_u64 (gas_remaining (cf vm)))")
  have "sound (fst (refund_new_account_state_gas b vm))" for b
    using runsD [OF runs_refund_new_account_state_gas assms order_refl, of b]
    by (cases "refund_new_account_state_gas b vm") (auto elim: outcome_cases)
  from this [of "value_new_account_charged vm"] show ?thesis
    using handle_precompile_result_cases [of r "gas_limit (cf vm)" remaining]
    by (auto simp: run_precompile_def e Let_def bind_def [of "if _ then refund_new_account_state_gas _ else _"] lift_result_def
        dest!: sound_Inl split: prod.splits sum.splits)
qed

lemma run_execution_cases:
  assumes t: "build_opcode_table f = Some table" and m: "machine_ok vm"
  shows "case run_execution table vm of None \<Rightarrow> False | Some r \<Rightarrow> sound (fst r)"
proof -
  obtain r where r: "run_dispatch table vm = Some r" "completed vm r" using run_completes [OF t m] by blast
  then have "sound (fst r)" by (auto simp: completed_def split: prod.splits sum.splits)
  moreover have "sound (fst (run_precompile execute vm))" for execute
    using run_precompile_sound m by (auto simp: machine_ok_def)
  ultimately show ?thesis by (simp add: run_execution_def r split: option.split del: split_paired_All)
qed

section \<open>A machine\<close>

text \<open>
  A machine about to run \<open>JUMPDEST PUSH1 0 JUMP\<close>, a loop without exit, on an empty store with two million gas.
\<close>

definition sample_store :: Database where
  "sample_store = \<lparr> get_account_state = (\<lambda>_. Inr AccountState_default), store_storage_value = (\<lambda>_ _. Inr 0),
     get_block_hash = (\<lambda>_. Inr 0), store_account_code = (\<lambda>_. Inr (from_bytecode_unchecked None [] 0)),
     store_code_metadata = (\<lambda>_. Inr 0) \<rparr>"

definition sample_env :: Environment where
  "sample_env = \<lparr> origin = 1, env_gas_limit = 2000000, env_fork = Osaka,
     blob_schedule = \<lparr> blob_target = 6, blob_max = 9, base_fee_update_fraction = 5007716 \<rparr>,
     block_number = 1, coinbase = 2, timestamp = 12, prev_randao = None, difficulty = 0, slot_number = 0, chain_id = 1,
     base_fee_per_gas = 7, base_blob_fee_per_gas = 1, gas_price = 10, block_excess_blob_gas = None,
     block_blob_gas_used = None, tx_blob_hashes = [], tx_max_priority_fee_per_gas = None, tx_max_fee_per_gas = None,
     tx_max_fee_per_blob_gas = None, tx_nonce = 0, block_gas_limit = 30000000, is_privileged = False, fee_token = None,
     disable_balance_check = False, disable_nonce_check = False, disable_gas_allowance_check = False,
     disable_sender_eoa_check = False, is_system_call = False \<rparr>"

definition sample_vm :: VM where
  "sample_vm = \<lparr> call_frames = [],
     current_call_frame = CallFrame_new 1 5 5 (from_bytecode_unchecked None [0x5B, 0x60, 0x00, 0x56] 0) 0 [] False 2000000 0
       True False 0 0 stack_default \<lparr> mem_len = 0, current_base = 0 \<rparr>,
     mem_buffer = [], env = sample_env, substate = from_accesses Osaka {1, 2, 5} fmempty, db = db_new sample_store,
     storage_original_values = fmempty, stack_pool = [], state_gas_used = 0, state_gas_reservoir = 0, state_gas_spill = 0,
     vm_cost_per_state_byte = 0, state_gas_new_account = 0, state_gas_storage_set = 0, preserve_top_level_backup = False,
     pending_prep_oog = False, value_new_account_charged = False,
     crypto = \<lparr> keccak256 = (\<lambda>_. 0), crypto_mulmod256 = (\<lambda>_ _ _. []) \<rparr>, keccak_hash = (\<lambda>_. 0), host_target = None,
     precompiles = (\<lambda>_ _. None) \<rparr>"

lemma sample_vm_ok: "machine_ok sample_vm"
proof -
  have c: "code_wf (from_bytecode_unchecked None code 0)" if "length code < 10" for code
    unfolding from_bytecode_unchecked_def by (rule code_wf_from_parts) (use that in simp)
  have m: "mem_ok sample_vm"
    by (auto simp: mem_ok_def sample_vm_def CallFrame_new_def frames_rel_def mem_rel_def
        intro!: exI [of _ "[]"])
  show ?thesis using m c [of "[]"] c [of "[0x5B, 0x60, 0x00, 0x56]"]
    by (simp add: machine_ok_def ok_def okf_def frame_ok_def fuel_def phi_def)
      (simp add: sample_vm_def CallFrame_new_def wrap_i64_def stack_ok_def stack_default_def db_ok_def db_new_def sample_store_def)
qed

lemma osaka_table: "build_opcode_table Osaka = Some build_opcode_table_osaka"
proof -
  have "\<not> Hegota \<le> Osaka" "\<not> Amsterdam \<le> Osaka" by code_simp+
  then show ?thesis by (simp add: build_opcode_table_def)
qed

section \<open>Properties\<close>

text \<open>
  C6: The type of the machine is kept by every turn of the dispatch loop.  From a machine whose frames have well-formed
  stacks, code with its padding, disjoint memories in the shared buffer, balanced state gas and enough room in the
  buffer, one turn of the loop with the opcode table of any fork - any of the 256 opcodes, entering and leaving frames
  included - either stops or leaves a machine of the same type; and it uses up fuel, the gas of all the frames plus
  their number.
\<close>

theorem dispatch_step_type:
  assumes "build_opcode_table f = Some table" "machine_ok vm" "dispatch_step table vm = (Inr None, vm')"
  shows "machine_ok vm' \<and> 0 \<le> fuel vm' \<and> fuel vm' < fuel vm"
proof -
  have turn: "turned vm (Inr None, vm')" using dispatch_step_turns [OF assms(1,2)] assms(3) by simp
  then have "ok (0, 32) vm'" "fuel vm' < fuel vm" by (simp_all add: turned_def)
  with turned_machine_ok [OF assms(2) turn] fuel_nonneg show ?thesis by blast
qed

theorem dispatch_step_type_witness:
  "\<exists>table vm'. build_opcode_table Osaka = Some table \<and> dispatch_step table sample_vm = (Inr None, vm') \<and>
     machine_ok vm' \<and> 0 \<le> fuel vm' \<and> fuel vm' < fuel sample_vm"
proof -
  note t = osaka_table
  have op: "build_opcode_table_osaka 0x5B = OpJumpDestHandler"
    by (simp add: build_opcode_table_osaka_def build_opcode_table_pre_osaka_def build_opcode_table_pre_cancun_def
        build_opcode_table_pre_shanghai_def)
  have "\<exists>vm'. dispatch_step build_opcode_table_osaka sample_vm = (Inr None, vm')"
    by (simp add: dispatch_step_eq next_opcode_def get_unchecked_def dispatch_buf_def sample_vm_def CallFrame_new_def
        from_bytecode_unchecked_def from_parts_unchecked_def op bind_def [of "try_action _"] try_action_def
        OpJumpDestHandler_def continue_def charge_def lift_result_def on_frame_def zoom_def advance_pc_def
        increase_consumed_gas_def bind_def ret_def wrap_i64_def after_opcode_def)
  then show ?thesis using dispatch_step_type [OF t sample_vm_ok] t by blast
qed

text \<open>
  C2: Every execution ends.  Whatever the code of the frame, of the contracts it calls and of the contracts it creates,
  and whatever the precompiles return, \<open>run_execution\<close> returns a result: there is no infinite loop that the gas does
  not stop, at any depth of calls.  (The loop is a partial function; not returning would be the value \<open>None\<close>.)
\<close>

theorem run_execution_returns:
  assumes "build_opcode_table f = Some table" "machine_ok vm"
  shows "\<exists>r vm'. run_execution table vm = Some (r, vm')"
  using run_execution_cases [OF assms] by (cases "run_execution table vm") auto

theorem run_execution_returns_witness:
  "\<exists>table r vm'. build_opcode_table Osaka = Some table \<and> run_execution table sample_vm = Some (r, vm')"
  using run_execution_returns [OF osaka_table sample_vm_ok] osaka_table by blast



text \<open>
  C7: Gas is not made.  When the dispatch loop ends with a context, all the inner frames are closed, what the context
  reports as used and what is left in the top frame add up to the gas limit of the frame, and the gas left in the frames
  plus the state gas, in the reservoir or used, is at most what it was at the start.
\<close>

theorem run_dispatch_gas:
  assumes "build_opcode_table f = Some table" "machine_ok vm"
  shows "\<exists>r vm'. run_dispatch table vm = Some (r, vm') \<and>
    (case r of Inl e \<Rightarrow> True
     | Inr ctx \<Rightarrow> call_frames vm' = [] \<and> 0 \<le> gas_remaining (cf vm') \<and>
         int (gas_used ctx) + gas_remaining (cf vm') = int (gas_limit (cf vm')) \<and>
         gas_remaining (cf vm') + int (state_gas_reservoir vm') + state_gas_used vm' \<le> phi vm)"
proof -
  obtain r vm' where "run_dispatch table vm = Some (r, vm')" "completed vm (r, vm')"
    using run_completes [OF assms] by auto
  then show ?thesis
    by (intro exI [of _ r] exI [of _ vm']) (auto simp: completed_def phi_def split: sum.splits)
qed

theorem run_dispatch_gas_witness:
  "\<exists>table r vm'. build_opcode_table Osaka = Some table \<and> run_dispatch table sample_vm = Some (r, vm') \<and>
    (case r of Inl e \<Rightarrow> True
     | Inr ctx \<Rightarrow> call_frames vm' = [] \<and> 0 \<le> gas_remaining (cf vm') \<and>
         int (gas_used ctx) + gas_remaining (cf vm') = int (gas_limit (cf vm')) \<and>
         gas_remaining (cf vm') + int (state_gas_reservoir vm') + state_gas_used vm' \<le> phi sample_vm)"
  using run_dispatch_gas [OF osaka_table sample_vm_ok] osaka_table by blast



end
