(* ===== verification/Spec2Isabelle.thy ===== *)
theory Spec2Isabelle
  imports Rlp_Types Trie_Laws Evm_Stack Evm_Memory Evm_Code_Blocks Evm_Substate Evm_Gas
    Evm_Opcodes Evm_Run
begin

text \<open>
  \<^bold>\<open>ethrex\<close>, an Ethereum execution client written in Rust.
\<close>

end
